(* ===== verification/OS_Prelude.thy ===== *)
theory OS_Prelude
  imports Main "HOL-Library.Word" "HOL-Library.Monad_Syntax" "HOL-Library.Signed_Division"
begin

unbundle bit_operations_syntax

text \<open>
  The prelude: the machine types of \<^verbatim>\<open>code/types.h\<close>, the access operations on C arrays, and
  the facts on lists, words and memories that the components share.

  Conventions of the whole library.
  \<^item> \<open>uint8_t\<close>, \<open>uint16_t\<close> and \<open>uint32_t\<close> are words of their width, so \<open>+\<close>, \<open>-\<close> and \<open>*\<close>
    wrap around as the code's do.  A C \<open>int\<close> that a proved invariant keeps small is \<open>int\<close>; one
    that may overflow (the tick counters) is a word read with \<open>sint\<close>.
  \<^item> A C array is a list.  An access outside it is undefined behaviour in C; it is \<open>None\<close> here, and
    every theorem that gives \<open>Some\<close> is at the same time a memory-safety statement.
  \<^item> Memory that the code addresses by absolute physical addresses (the video pages, the program
    images) is a function from 32-bit addresses to bytes.
\<close>

type_synonym u8 = "8 word"
type_synonym u16 = "16 word"
type_synonym u32 = "32 word"
type_synonym buf = "u8 list"
type_synonym mem = "u32 \<Rightarrow> u8"

named_theorems frame_simps \<open>what an operation leaves unchanged\<close>
named_theorems state_defs \<open>definitions of the state-changing operations of a component\<close>

definition rd :: "'a list \<Rightarrow> nat \<Rightarrow> 'a option" where
  "rd xs i = (if i < length xs then Some (xs ! i) else None)"

definition wr :: "'a list \<Rightarrow> nat \<Rightarrow> 'a \<Rightarrow> 'a list option" where
  "wr xs i v = (if i < length xs then Some (xs[i := v]) else None)"

text \<open>An array indexed by a C \<open>int\<close>: a negative index is as much out of bounds as a large one.\<close>

definition rd_int :: "'a list \<Rightarrow> int \<Rightarrow> 'a option" where
  "rd_int xs i = (if 0 \<le> i then rd xs (nat i) else None)"

definition wr_int :: "'a list \<Rightarrow> int \<Rightarrow> 'a \<Rightarrow> 'a list option" where
  "wr_int xs i v = (if 0 \<le> i then wr xs (nat i) v else None)"

text \<open>The effect of a loop that stores \<open>bs\<close> to \<open>buf[0]\<close>, \<open>buf[1]\<close>, \<dots>\<close>

definition fill_buf :: "'a list \<Rightarrow> 'a list \<Rightarrow> 'a list option" where
  "fill_buf buf bs = (if length bs \<le> length buf then Some (bs @ drop (length bs) buf) else None)"

text \<open>The bytes of a string literal of the source, without its terminating NUL.\<close>

definition bytes :: "string \<Rightarrow> buf" where
  "bytes s = map of_char s"

text \<open>The content of a NUL-terminated string held at the start of a buffer.\<close>

definition cstr :: "buf \<Rightarrow> buf" where
  "cstr b = takeWhile (\<lambda>c. c \<noteq> 0) b"

definition all_nul :: "buf \<Rightarrow> bool" where
  "all_nul b = list_all (\<lambda>c. c = 0) b"

text \<open>Consecutive bytes of the physical memory, and a run of stores to it.\<close>

primrec mem_bytes :: "mem \<Rightarrow> u32 \<Rightarrow> nat \<Rightarrow> buf" where
  "mem_bytes m a 0 = []"
| "mem_bytes m a (Suc n) = m a # mem_bytes m (a + 1) n"

primrec mem_store :: "u32 \<Rightarrow> buf \<Rightarrow> mem \<Rightarrow> mem" where
  "mem_store a [] m = m"
| "mem_store a (b # bs) m = mem_store (a + 1) bs (m(a := b))"

definition le32 :: "u8 \<Rightarrow> u8 \<Rightarrow> u8 \<Rightarrow> u8 \<Rightarrow> u32" where
  "le32 b0 b1 b2 b3 = ucast b0 OR push_bit 8 (ucast b1) OR push_bit 16 (ucast b2) OR push_bit 24 (ucast b3)"

text \<open>A loop whose body may fault, over the values of its control variable.\<close>

fun each :: "('i \<Rightarrow> 's \<Rightarrow> 's option) \<Rightarrow> 'i list \<Rightarrow> 's \<Rightarrow> 's option" where
  "each f [] s = Some s"
| "each f (i # is) s = do { s' \<leftarrow> f i s; each f is s' }"

text \<open>
  A busy-wait loop: between two tests of the condition an interrupt handler runs.  The handlers that
  run are the list \<open>evs\<close>; \<open>True\<close> in the result says that the loop is still waiting after the last one.
\<close>

fun wait_while :: "('s \<Rightarrow> bool) \<Rightarrow> ('s \<Rightarrow> 's option) list \<Rightarrow> 's \<Rightarrow> (bool \<times> 's) option" where
  "wait_while c [] s = Some (c s, s)"
| "wait_while c (e # evs) s = (if c s then do { s' \<leftarrow> e s; wait_while c evs s' } else Some (False, s))"

text \<open>What a call that may block gives: a return value, or the state in which it still waits.\<close>

datatype 's outcome = Blocked 's | Returned int 's

subsection \<open>Arrays\<close>

lemma rd_Some [simp]: "i < length xs \<Longrightarrow> rd xs i = Some (xs ! i)"
  by (simp add: rd_def)

lemma rd_None [simp]: "length xs \<le> i \<Longrightarrow> rd xs i = None"
  by (simp add: rd_def)

lemma rd_eq_Some_iff: "rd xs i = Some v \<longleftrightarrow> i < length xs \<and> xs ! i = v"
  by (auto simp: rd_def)

lemma wr_Some [simp]: "i < length xs \<Longrightarrow> wr xs i v = Some (xs[i := v])"
  by (simp add: wr_def)

lemma wr_None [simp]: "length xs \<le> i \<Longrightarrow> wr xs i v = None"
  by (simp add: wr_def)

lemma wr_eq_Some_iff: "wr xs i v = Some ys \<longleftrightarrow> i < length xs \<and> ys = xs[i := v]"
  by (auto simp: wr_def)

lemma rd_wr_same: "wr xs i v = Some ys \<Longrightarrow> rd ys i = Some v"
  by (auto simp: wr_eq_Some_iff rd_def)

lemma rd_wr_other: "wr xs i v = Some ys \<Longrightarrow> j \<noteq> i \<Longrightarrow> rd ys j = rd xs j"
  by (auto simp: wr_eq_Some_iff rd_def)

lemma rd_int_Some [simp]: "0 \<le> i \<Longrightarrow> nat i < length xs \<Longrightarrow> rd_int xs i = Some (xs ! nat i)"
  by (simp add: rd_int_def)

lemma wr_int_Some [simp]: "0 \<le> i \<Longrightarrow> nat i < length xs \<Longrightarrow> wr_int xs i v = Some (xs[nat i := v])"
  by (simp add: wr_int_def)

lemma wr_int_eq_Some_iff:
  "wr_int xs i v = Some ys \<longleftrightarrow> 0 \<le> i \<and> nat i < length xs \<and> ys = xs[nat i := v]"
  by (auto simp: wr_int_def wr_eq_Some_iff)

lemma rd_int_eq_Some_iff:
  "rd_int xs i = Some v \<longleftrightarrow> 0 \<le> i \<and> nat i < length xs \<and> xs ! nat i = v"
  by (auto simp: rd_int_def rd_eq_Some_iff)

lemma fill_buf_Some [simp]:
  "length bs \<le> length buf \<Longrightarrow> fill_buf buf bs = Some (bs @ drop (length bs) buf)"
  by (simp add: fill_buf_def)

lemma fill_buf_None [simp]: "length buf < length bs \<Longrightarrow> fill_buf buf bs = None"
  by (simp add: fill_buf_def)

lemma length_fill_buf: "fill_buf buf bs = Some b' \<Longrightarrow> length b' = length buf"
  by (auto simp: fill_buf_def split: if_splits)

lemma take_fill_buf: "fill_buf buf bs = Some b' \<Longrightarrow> take (length bs) b' = bs"
  by (auto simp: fill_buf_def split: if_splits)

lemma drop_fill_buf: "fill_buf buf bs = Some b' \<Longrightarrow> drop (length bs) b' = drop (length bs) buf"
  by (auto simp: fill_buf_def split: if_splits)

lemma take_drop_length: "take k xs @ drop (length (take k xs)) xs = xs"
  by (simp add: min_def)

subsection \<open>Strings\<close>

lemma length_bytes [simp]: "length (bytes s) = length s"
  by (simp add: bytes_def)

lemma cstr_append_nul [simp]: "0 \<notin> set s \<Longrightarrow> cstr (s @ 0 # r) = s"
  by (induction s) (auto simp: cstr_def)

lemma cstr_nul [simp]: "cstr (0 # r) = []"
  by (simp add: cstr_def)

lemma cstr_no_nul: "0 \<notin> set s \<Longrightarrow> cstr s = s"
  by (induction s) (auto simp: cstr_def)

lemma nul_notin_cstr [simp]: "0 \<notin> set (cstr b)"
  by (auto simp: cstr_def dest: set_takeWhileD)

lemma cstr_split: "0 \<in> set b \<Longrightarrow> \<exists>r. b = cstr b @ 0 # r"
  by (induction b) (auto simp: cstr_def)

lemma length_cstr_le: "length (cstr b) \<le> length b"
  by (simp add: cstr_def length_takeWhile_le)

lemma all_nul_replicate [simp]: "all_nul (replicate n 0)"
  by (simp add: all_nul_def list_all_length)

lemma all_nul_iff: "all_nul b \<longleftrightarrow> b = replicate (length b) 0"
  by (induction b) (auto simp: all_nul_def)

subsection \<open>Words\<close>

lemma unat_of_nat_u32 [simp]: "n < 4294967296 \<Longrightarrow> unat (of_nat n :: u32) = n"
  by (simp add: unat_of_nat)

lemma of_nat_u32_eq_iff:
  "m < 4294967296 \<Longrightarrow> n < 4294967296 \<Longrightarrow> (of_nat m :: u32) = of_nat n \<longleftrightarrow> m = n"
  by (metis unat_of_nat_u32)

lemma u32_eq_of_nat_iff: "n < 4294967296 \<Longrightarrow> (x :: u32) = of_nat n \<longleftrightarrow> unat x = n"
proof
  assume "unat x = n"
  then have "of_nat (unat x) = (of_nat n :: u32)" by simp
  then show "x = of_nat n" by simp
qed simp

lemma unat_u32_bound [simp]: "unat (x :: u32) < 4294967296"
  using unsigned_less [of x] by simp

lemma unat_Suc_u32: "Suc (unat (x :: u32)) < 4294967296 \<Longrightarrow> unat (x + 1) = Suc (unat x)"
  by (simp add: unat_word_ariths)

lemma sint_of_nat_u32 [simp]: "n < 2147483648 \<Longrightarrow> sint (of_nat n :: u32) = int n"
  by (simp add: signed_of_nat signed_take_bit_int_eq_self)

lemma unat_less_imp_not_bit:
  assumes "unat (w :: u32) < 2 ^ m" "m \<le> n"
  shows "\<not> bit w n"
proof -
  have "take_bit m (unat w) = unat w" using assms by (simp add: take_bit_nat_eq_self)
  then have "\<not> bit (unat w) n" using assms(2) by (metis bit_take_bit_iff not_le)
  then show ?thesis by (simp add: bit_unsigned_iff)
qed

lemma le32_high_byte: "unat (le32 b0 b1 b2 b3) < 2 ^ 24 \<Longrightarrow> b3 = 0"
proof (rule bit_word_eqI)
  fix n assume "unat (le32 b0 b1 b2 b3) < 2 ^ 24" "n < LENGTH(8)"
  then have "\<not> bit (le32 b0 b1 b2 b3) (24 + n)" "n < 8"
    using unat_less_imp_not_bit [of "le32 b0 b1 b2 b3" 24 "24 + n"] by simp_all
  then show "bit b3 n = bit 0 n" by (simp add: le32_def bit_simps)
qed

subsection \<open>Memory\<close>

lemma length_mem_bytes [simp]: "length (mem_bytes m a n) = n"
  by (induction n arbitrary: a) auto

lemma nth_mem_bytes [simp]: "i < n \<Longrightarrow> mem_bytes m a n ! i = m (a + of_nat i)"
proof (induction n arbitrary: a i)
  case (Suc n)
  then show ?case by (cases i) (auto simp: algebra_simps)
qed simp

lemma mem_store_other:
  "(\<And>i. i < length bs \<Longrightarrow> x \<noteq> a + of_nat i) \<Longrightarrow> mem_store a bs m x = m x"
proof (induction bs arbitrary: a m)
  case (Cons b bs)
  have "x \<noteq> a" using Cons.prems [of 0] by simp
  moreover have "x \<noteq> a + 1 + of_nat i" if "i < length bs" for i
    using Cons.prems [of "Suc i"] that by (simp add: algebra_simps)
  ultimately have "mem_store (a + 1) bs (m(a := b)) x = (m(a := b)) x"
    by (intro Cons.IH) auto
  with \<open>x \<noteq> a\<close> show ?case by simp
qed simp

lemma mem_store_nth:
  "i < length bs \<Longrightarrow> length bs \<le> 4294967296 \<Longrightarrow> mem_store a bs m (a + of_nat i) = bs ! i"
proof (induction bs arbitrary: a m i)
  case (Cons b bs)
  show ?case
  proof (cases i)
    case 0
    have "a \<noteq> a + 1 + of_nat j" if "j < length bs" for j
    proof
      assume "a = a + 1 + of_nat j"
      then have "(of_nat (Suc j) :: u32) = of_nat 0" by (simp add: algebra_simps)
      then show False using of_nat_u32_eq_iff [of "Suc j" 0] that Cons.prems by simp
    qed
    then have "mem_store (a + 1) bs (m(a := b)) a = b" by (subst mem_store_other) auto
    then show ?thesis using 0 by simp
  next
    case (Suc j)
    with Cons.prems have "mem_store (a + 1) bs (m(a := b)) (a + 1 + of_nat j) = bs ! j"
      by (intro Cons.IH) auto
    with Suc show ?thesis by (simp add: algebra_simps)
  qed
qed simp

lemma mem_bytes_store:
  "length bs \<le> 4294967296 \<Longrightarrow> mem_bytes (mem_store a bs m) a (length bs) = bs"
  by (rule nth_equalityI) (simp_all add: mem_store_nth)

subsection \<open>Loops\<close>

text \<open>Two nested counting loops over a row-major index are one loop over the index.\<close>

lemma fold_nested_upt:
  "fold (\<lambda>j. fold (\<lambda>i. f (c * j + i)) [0..<c]) [0..<n] x = fold f [0..<c * n] x"
proof (induction n)
  case (Suc n)
  have "fold (\<lambda>i. f (c * n + i)) [0..<c] y = fold f [c * n..<c * n + c] y" for y
  proof -
    have "[c * n..<c * n + c] = map (\<lambda>i. c * n + i) [0..<c]"
      by (rule nth_equalityI) auto
    then show ?thesis by (simp add: fold_map comp_def)
  qed
  moreover have "[0..<c * Suc n] = [0..<c * n] @ [c * n..<c * n + c]"
    using upt_add_eq_append [of 0 "c * n" c] by (simp add: add.commute)
  ultimately show ?case using Suc by simp
qed simp

lemma fold_invariant:
  "(\<And>x s. x \<in> set xs \<Longrightarrow> P s \<Longrightarrow> P (f x s)) \<Longrightarrow> P s \<Longrightarrow> P (fold f xs s)"
  by (induction xs arbitrary: s) auto

lemma each_append: "each f (xs @ ys) s = do { s' \<leftarrow> each f xs s; each f ys s' }"
  by (induction xs arbitrary: s) (auto split: option.splits bind_splits)

lemma each_invariant:
  assumes "\<And>i s. i \<in> set is \<Longrightarrow> P s \<Longrightarrow> \<exists>s'. f i s = Some s' \<and> P s'" "P s"
  shows "\<exists>s'. each f is s = Some s' \<and> P s'"
  using assms
proof (induction "is" arbitrary: s)
  case (Cons i "is")
  then obtain s' where "f i s = Some s'" "P s'" by (meson list.set_intros(1))
  with Cons show ?case by fastforce
qed auto

lemma each_preserves:
  "each f is s = Some s' \<Longrightarrow> (\<And>i s s'. i \<in> set is \<Longrightarrow> f i s = Some s' \<Longrightarrow> P s \<Longrightarrow> P s') \<Longrightarrow> P s \<Longrightarrow> P s'"
  by (induction "is" arbitrary: s) (auto split: bind_splits, blast)

lemma wait_while_done: "wait_while c evs s = Some (w, s') \<Longrightarrow> w = c s'"
  by (induction evs arbitrary: s) (auto split: if_splits bind_splits)

subsection \<open>Invariants of a transition system\<close>

text \<open>A property that every step keeps holds in every state a run reaches.\<close>

locale invariant_system =
  fixes step :: "'s \<Rightarrow> 's \<Rightarrow> bool" and inv :: "'s \<Rightarrow> bool"
  assumes step_inv: "step s t \<Longrightarrow> inv s \<Longrightarrow> inv t"
begin

lemma run_inv: "step\<^sup>*\<^sup>* s t \<Longrightarrow> inv s \<Longrightarrow> inv t"
  by (induction rule: rtranclp_induct) (auto intro: step_inv)

end

end
