(* ===== verification/Machine.thy ===== *)
theory Machine
  imports OS_Prelude
begin

text \<open>
  What the C code sees of the processor (\<^verbatim>\<open>code/lib.h\<close>): the interrupt flag that \<open>cli\<close> and
  \<open>sti\<close> change, the port writes that \<open>outb\<close> makes, in their order, the physical memory, and the
  stack registers that the context switch saves and loads.  The component states extend this record
  one after the other, so an operation of one component applies to the whole kernel state and, by
  its type, cannot change what a later component adds.
\<close>

record machine =
  iflag :: bool
  out_log :: "(u16 \<times> u8) list"
  pmem :: mem
  esp :: u32
  ebp :: u32

definition cli :: "'a machine_scheme \<Rightarrow> 'a machine_scheme" where
  "cli s = s\<lparr>iflag := False\<rparr>"

definition sti :: "'a machine_scheme \<Rightarrow> 'a machine_scheme" where
  "sti s = s\<lparr>iflag := True\<rparr>"

text \<open>\<open>cli_and_save\<close> and \<open>restore_flags\<close>, as far as the saved flags hold the interrupt flag.\<close>

definition cli_and_save :: "'a machine_scheme \<Rightarrow> bool \<times> 'a machine_scheme" where
  "cli_and_save s = (iflag s, s\<lparr>iflag := False\<rparr>)"

definition restore_flags :: "bool \<Rightarrow> 'a machine_scheme \<Rightarrow> 'a machine_scheme" where
  "restore_flags f s = s\<lparr>iflag := f\<rparr>"

definition outb :: "u8 \<Rightarrow> u16 \<Rightarrow> 'a machine_scheme \<Rightarrow> 'a machine_scheme" where
  "outb data port s = s\<lparr>out_log := out_log s @ [(port, data)]\<rparr>"

lemmas machine_defs = cli_def sti_def cli_and_save_def restore_flags_def outb_def

declare machine_defs [state_defs]

text \<open>The last byte sent to a port, what a device's data register holds.\<close>

definition port_val :: "u16 \<Rightarrow> 'a machine_scheme \<Rightarrow> u8 option" where
  "port_val p s = map_of (rev (out_log s)) p"

lemma port_val_outb [simp]: "port_val p (outb d q s) = (if p = q then Some d else port_val p s)"
  by (simp add: port_val_def outb_def)

lemma pmem_machine [simp, frame_simps]:
  "pmem (cli s) = pmem s" "pmem (sti s) = pmem s" "pmem (outb d p s) = pmem s"
  by (simp_all add: machine_defs)

lemma more_machine [frame_simps]:
  "machine.more (cli s) = machine.more s" "machine.more (sti s) = machine.more s"
  "machine.more (outb d p s) = machine.more s" "machine.more (restore_flags f s) = machine.more s"
  "machine.more (snd (cli_and_save s)) = machine.more s"
  by (simp_all add: machine_defs)

end
