(* ===== verification/I8259.thy ===== *)
theory I8259
  imports Machine
begin

text \<open>
  The interrupt controller driver, \<^verbatim>\<open>code/i8259.c\<close>: the two cached mask registers, the
  initialisation words, and the operations that unmask and mask a line and acknowledge an
  interrupt.  The interface \<open>irq_lines\<close> states what a driver promises about the set of unmasked
  lines; the driver is an instance of it.
\<close>

record pic = machine +
  master_mask :: u8
  slave_mask :: u8

abbreviation MASTER_8259_PORT :: u16 where "MASTER_8259_PORT \<equiv> 0x20"
abbreviation SLAVE_8259_PORT :: u16 where "SLAVE_8259_PORT \<equiv> 0xA0"
abbreviation MASTER_8259_DATA_PORT :: u16 where "MASTER_8259_DATA_PORT \<equiv> 0x21"
abbreviation SLAVE_8259_DATA_PORT :: u16 where "SLAVE_8259_DATA_PORT \<equiv> 0xA1"
abbreviation PIC_IRQ_NUM :: u32 where "PIC_IRQ_NUM \<equiv> 8"
abbreviation MASK_ALL :: u8 where "MASK_ALL \<equiv> 0xFF"
abbreviation ICW1 :: u8 where "ICW1 \<equiv> 0x11"
abbreviation ICW2_MASTER :: u8 where "ICW2_MASTER \<equiv> 0x20"
abbreviation ICW2_SLAVE :: u8 where "ICW2_SLAVE \<equiv> 0x28"
abbreviation ICW3_MASTER :: u8 where "ICW3_MASTER \<equiv> 0x04"
abbreviation ICW3_SLAVE :: u8 where "ICW3_SLAVE \<equiv> 0x02"
abbreviation ICW4 :: u8 where "ICW4 \<equiv> 0x01"
abbreviation EOI :: u8 where "EOI \<equiv> 0x60"

text \<open>\<open>0x01 << n\<close> is computed at 32 bits and truncated by the assignment to \<open>uint8_t\<close>.\<close>

definition enable_irq :: "u32 \<Rightarrow> 'a pic_scheme \<Rightarrow> 'a pic_scheme" where
  "enable_irq irq_num s =
     (if irq_num \<ge> PIC_IRQ_NUM * 2 then s
      else if irq_num < PIC_IRQ_NUM then
        (let mask = ucast (NOT (push_bit (unat irq_num) (1 :: u32)));
             s = s\<lparr>master_mask := master_mask s AND mask\<rparr>
         in outb (master_mask s) MASTER_8259_DATA_PORT s)
      else
        (let mask = ucast (NOT (push_bit (unat (irq_num - PIC_IRQ_NUM)) (1 :: u32)));
             s = s\<lparr>slave_mask := slave_mask s AND mask\<rparr>
         in outb (slave_mask s) SLAVE_8259_DATA_PORT s))"

definition disable_irq :: "u32 \<Rightarrow> 'a pic_scheme \<Rightarrow> 'a pic_scheme" where
  "disable_irq irq_num s =
     (if irq_num \<ge> PIC_IRQ_NUM * 2 then s
      else if irq_num < PIC_IRQ_NUM then
        (let mask = ucast (push_bit (unat irq_num) (1 :: u32));
             s = s\<lparr>master_mask := master_mask s OR mask\<rparr>
         in outb (master_mask s) MASTER_8259_DATA_PORT s)
      else
        (let mask = ucast (push_bit (unat (irq_num - PIC_IRQ_NUM)) (1 :: u32));
             s = s\<lparr>slave_mask := slave_mask s OR mask\<rparr>
         in outb (slave_mask s) SLAVE_8259_DATA_PORT s))"

definition send_eoi :: "u32 \<Rightarrow> 'a pic_scheme \<Rightarrow> 'a pic_scheme" where
  "send_eoi irq_num s =
     (if irq_num \<ge> PIC_IRQ_NUM * 2 then s
      else if irq_num \<ge> PIC_IRQ_NUM then
        (let pic2_irq = ucast (irq_num - PIC_IRQ_NUM);
             pic1_irq = ICW3_SLAVE
         in outb (EOI OR pic1_irq) MASTER_8259_PORT (outb (EOI OR pic2_irq) SLAVE_8259_PORT s))
      else outb (EOI OR ucast irq_num) MASTER_8259_PORT s)"

definition i8259_init :: "'a pic_scheme \<Rightarrow> 'a pic_scheme" where
  "i8259_init s =
     (let s = outb ICW1 MASTER_8259_PORT s;
          s = outb ICW2_MASTER MASTER_8259_DATA_PORT s;
          s = outb ICW3_MASTER MASTER_8259_DATA_PORT s;
          s = outb ICW4 MASTER_8259_DATA_PORT s;
          s = outb ICW1 SLAVE_8259_PORT s;
          s = outb ICW2_SLAVE SLAVE_8259_DATA_PORT s;
          s = outb ICW3_SLAVE SLAVE_8259_DATA_PORT s;
          s = outb ICW4 SLAVE_8259_DATA_PORT s;
          s = outb MASK_ALL MASTER_8259_DATA_PORT s;
          s = outb MASK_ALL SLAVE_8259_DATA_PORT s
      in enable_irq (ucast ICW3_SLAVE) s)"

text \<open>What an acknowledgement sends: a line of the second controller is acknowledged on both.\<close>

definition eoi_writes :: "u32 \<Rightarrow> (u16 \<times> u8) list" where
  "eoi_writes n =
     (if unat n < 8 then [(MASTER_8259_PORT, EOI OR ucast n)]
      else if unat n < 16 then [(SLAVE_8259_PORT, EOI OR ucast (n - 8)), (MASTER_8259_PORT, EOI OR 2)]
      else [])"

text \<open>The lines the cached masks leave unmasked.\<close>

definition enabled_irqs :: "'a pic_scheme \<Rightarrow> nat set" where
  "enabled_irqs s = {n. n < 8 \<and> \<not> bit (master_mask s) n} \<union> {n. 8 \<le> n \<and> n < 16 \<and> \<not> bit (slave_mask s) (n - 8)}"

text \<open>The controllers hold what the driver cached: the last data byte sent to each is its mask.\<close>

definition pic_synced :: "'a pic_scheme \<Rightarrow> bool" where
  "pic_synced s \<longleftrightarrow> port_val MASTER_8259_DATA_PORT s = Some (master_mask s)
     \<and> port_val SLAVE_8259_DATA_PORT s = Some (slave_mask s)"

subsection \<open>The interface of an interrupt-line driver\<close>

locale irq_lines =
  fixes enable disable :: "u32 \<Rightarrow> 's \<Rightarrow> 's"
    and lines :: "'s \<Rightarrow> nat set"
    and synced :: "'s \<Rightarrow> bool"
  assumes lines_enable: "lines (enable n s) = (if unat n < 16 then insert (unat n) (lines s) else lines s)"
    and lines_disable: "lines (disable n s) = lines s - {unat n}"
    and lines_bound: "lines s \<subseteq> {..<16}"
    and synced_enable: "synced s \<Longrightarrow> synced (enable n s)"
    and synced_disable: "synced s \<Longrightarrow> synced (disable n s)"
begin

lemma enable_idem: "lines (enable n (enable n s)) = lines (enable n s)"
  by (auto simp: lines_enable)

lemma enable_commute: "lines (enable m (enable n s)) = lines (enable n (enable m s))"
  by (auto simp: lines_enable)

lemma disable_enable: "unat n \<notin> lines s \<Longrightarrow> lines (disable n (enable n s)) = lines s"
  by (auto simp: lines_enable lines_disable)

lemma enable_disable: "unat n \<in> lines s \<Longrightarrow> lines (enable n (disable n s)) = lines s"
  using lines_bound [of s] by (auto simp: lines_enable lines_disable)

lemma lines_enable_all:
  "lines (fold enable ns s) = lines s \<union> (unat ` set ns \<inter> {..<16})"
  by (induction ns arbitrary: s) (auto simp: lines_enable)

lemma synced_enable_all: "synced s \<Longrightarrow> synced (fold enable ns s)"
  by (induction ns arbitrary: s) (auto simp: synced_enable)

end

subsection \<open>The driver is an instance\<close>

lemma irq_guards:
  "16 \<le> (irq_num :: u32) \<longleftrightarrow> \<not> unat irq_num < 16" "irq_num < PIC_IRQ_NUM \<longleftrightarrow> unat irq_num < 8"
  "PIC_IRQ_NUM \<le> irq_num \<longleftrightarrow> \<not> unat irq_num < 8"
  by (simp_all add: word_le_nat_alt word_less_nat_alt not_less)

lemma irq_slave_num: "8 \<le> unat irq_num \<Longrightarrow> unat (irq_num - PIC_IRQ_NUM) = unat irq_num - 8"
  by (simp add: unat_sub word_le_nat_alt)

lemma bit_u8_mask: "n < 8 \<Longrightarrow> bit (ucast ((2 :: u32) ^ k) :: u8) n \<longleftrightarrow> n = k"
  by (auto simp: bit_simps)

lemma bit_u8_nmask: "n < 8 \<Longrightarrow> bit (ucast (NOT ((2 :: u32) ^ k)) :: u8) n \<longleftrightarrow> n \<noteq> k"
  by (auto simp: bit_simps)

lemma mask_fields_enable:
  "unat n < 8 \<Longrightarrow> master_mask (enable_irq n s) = master_mask s AND ucast (NOT (push_bit (unat n) (1 :: u32)))"
  "\<not> unat n < 8 \<Longrightarrow> master_mask (enable_irq n s) = master_mask s"
  "8 \<le> unat n \<Longrightarrow> unat n < 16 \<Longrightarrow>
     slave_mask (enable_irq n s) = slave_mask s AND ucast (NOT (push_bit (unat n - 8) (1 :: u32)))"
  "\<not> (8 \<le> unat n \<and> unat n < 16) \<Longrightarrow> slave_mask (enable_irq n s) = slave_mask s"
  by (auto simp: enable_irq_def irq_guards irq_slave_num Let_def outb_def)

lemma mask_fields_disable:
  "unat n < 8 \<Longrightarrow> master_mask (disable_irq n s) = master_mask s OR ucast (push_bit (unat n) (1 :: u32))"
  "\<not> unat n < 8 \<Longrightarrow> master_mask (disable_irq n s) = master_mask s"
  "8 \<le> unat n \<Longrightarrow> unat n < 16 \<Longrightarrow>
     slave_mask (disable_irq n s) = slave_mask s OR ucast (push_bit (unat n - 8) (1 :: u32))"
  "\<not> (8 \<le> unat n \<and> unat n < 16) \<Longrightarrow> slave_mask (disable_irq n s) = slave_mask s"
  by (auto simp: disable_irq_def irq_guards irq_slave_num Let_def outb_def)

lemma enabled_enable_irq:
  "enabled_irqs (enable_irq n s) =
     (if unat n < 16 then insert (unat n) (enabled_irqs s) else enabled_irqs s)"
proof (cases "unat n < 8")
  case True
  then show ?thesis
    by (auto simp: enabled_irqs_def mask_fields_enable bit_and_iff bit_u8_nmask)
next
  case False
  then show ?thesis
    by (cases "unat n < 16") (auto simp: enabled_irqs_def mask_fields_enable bit_and_iff bit_u8_nmask)
qed

lemma enabled_disable_irq: "enabled_irqs (disable_irq n s) = enabled_irqs s - {unat n}"
proof (cases "unat n < 8")
  case True
  then show ?thesis
    by (auto simp: enabled_irqs_def mask_fields_disable bit_or_iff bit_u8_mask)
next
  case False
  then show ?thesis
    by (cases "unat n < 16") (auto simp: enabled_irqs_def mask_fields_disable bit_or_iff bit_u8_mask)
qed

lemma port_val_mask_update [simp]:
  "port_val p (master_mask_update f s) = port_val p s" "port_val p (slave_mask_update f s) = port_val p s"
  by (simp_all add: port_val_def)

lemma pic_synced_enable: "pic_synced s \<Longrightarrow> pic_synced (enable_irq n s)"
  by (auto simp: pic_synced_def enable_irq_def Let_def) (simp_all add: outb_def)

lemma pic_synced_disable: "pic_synced s \<Longrightarrow> pic_synced (disable_irq n s)"
  by (auto simp: pic_synced_def disable_irq_def Let_def) (simp_all add: outb_def)

interpretation i8259: irq_lines enable_irq disable_irq enabled_irqs pic_synced
  by unfold_locales
    (auto simp: enabled_enable_irq enabled_disable_irq pic_synced_enable pic_synced_disable,
     auto simp: enabled_irqs_def)

lemma enabled_all_masked:
  assumes "master_mask s = MASK_ALL" "slave_mask s = MASK_ALL"
  shows "enabled_irqs s = {}"
proof -
  have "master_mask s = - 1" "slave_mask s = - 1" using assms by simp_all
  then show ?thesis by (auto simp: enabled_irqs_def)
qed

lemma enabled_outb [simp]: "enabled_irqs (outb d p s) = enabled_irqs s"
  by (simp add: enabled_irqs_def outb_def)

lemma pic_synced_init: "master_mask s = MASK_ALL \<Longrightarrow> slave_mask s = MASK_ALL \<Longrightarrow> pic_synced (i8259_init s)"
  unfolding i8259_init_def Let_def
  by (rule pic_synced_enable) (simp add: pic_synced_def, simp add: outb_def)

lemma enabled_init:
  "master_mask s = MASK_ALL \<Longrightarrow> slave_mask s = MASK_ALL \<Longrightarrow> enabled_irqs (i8259_init s) = {2}"
  by (simp add: i8259_init_def Let_def enabled_enable_irq enabled_all_masked)

text \<open>
  Unmasking a line adds exactly that line, masking it removes exactly it, and neither touches the
  other lines; a line number past the two controllers changes nothing.
\<close>

theorem irq_mask_correct:
  "enabled_irqs (enable_irq n s) = enabled_irqs s \<union> ({unat n} \<inter> {..<16})
   \<and> enabled_irqs (disable_irq n s) = enabled_irqs s - {unat n}"
  by (simp add: i8259.lines_enable i8259.lines_disable)

lemma send_eoi_eq: "send_eoi n s = s\<lparr>out_log := out_log s @ eoi_writes n\<rparr>"
  by (simp add: send_eoi_def eoi_writes_def irq_guards outb_def not_less Let_def)

text \<open>Nothing but the port log changes: the frame fact every interrupt handler uses.\<close>

lemma send_eoi_frame [simp, frame_simps]:
  "pmem (send_eoi n s) = pmem s" "iflag (send_eoi n s) = iflag s" "esp (send_eoi n s) = esp s"
  "ebp (send_eoi n s) = ebp s" "pic.more (send_eoi n s) = pic.more s"
  "master_mask (send_eoi n s) = master_mask s" "slave_mask (send_eoi n s) = slave_mask s"
  by (simp_all add: send_eoi_eq)

end
