(* ===== verification/Lib_Memory.thy ===== *)
theory Lib_Memory
  imports OS_Prelude
begin

text \<open>
  The block memory functions of \<^verbatim>\<open>code/lib.c\<close>, which are inline assembly: \<open>memset\<close>,
  \<open>memset_word\<close>, \<open>memset_dword\<close>, \<open>memcpy\<close> and \<open>memmove\<close>.  Each definition follows the assembly,
  with \<open>edi\<close>, \<open>esi\<close> and the counter in \<open>ecx\<close> or \<open>edx\<close> as arguments: the byte loop up to a
  4-aligned destination, the \<open>rep\<close> string instruction on double words, and the byte loop for the
  rest.  The specifications \<open>copy_region\<close> and \<open>set_region\<close> say what the regions hold afterwards.
\<close>

text \<open>One \<open>movsl\<close>: a double word is read whole before it is stored.\<close>

definition movsl :: "u32 \<Rightarrow> u32 \<Rightarrow> mem \<Rightarrow> mem" where
  "movsl edi esi m =
     m(edi := m esi, edi + 1 := m (esi + 1), edi + 2 := m (esi + 2), edi + 3 := m (esi + 3))"

primrec rep_movsl :: "nat \<Rightarrow> u32 \<Rightarrow> u32 \<Rightarrow> mem \<Rightarrow> mem" where
  "rep_movsl 0 edi esi m = m"
| "rep_movsl (Suc n) edi esi m = rep_movsl n (edi + 4) (esi + 4) (movsl edi esi m)"

text \<open>\<open>.memcpy_bottom\<close>, and \<open>rep movsb\<close> with the direction flag clear.\<close>

primrec movsb_up :: "nat \<Rightarrow> u32 \<Rightarrow> u32 \<Rightarrow> mem \<Rightarrow> mem" where
  "movsb_up 0 edi esi m = m"
| "movsb_up (Suc n) edi esi m = movsb_up n (edi + 1) (esi + 1) (m(edi := m esi))"

text \<open>\<open>rep movsb\<close> with the direction flag set.\<close>

primrec movsb_down :: "nat \<Rightarrow> u32 \<Rightarrow> u32 \<Rightarrow> mem \<Rightarrow> mem" where
  "movsb_down 0 edi esi m = m"
| "movsb_down (Suc n) edi esi m = movsb_down n (edi - 1) (esi - 1) (m(edi := m esi))"

definition memcpy_aligned :: "nat \<Rightarrow> u32 \<Rightarrow> u32 \<Rightarrow> mem \<Rightarrow> mem" where
  "memcpy_aligned n edi esi m =
     movsb_up (n mod 4) (edi + of_nat (4 * (n div 4))) (esi + of_nat (4 * (n div 4)))
       (rep_movsl (n div 4) edi esi m)"

primrec memcpy_top :: "nat \<Rightarrow> u32 \<Rightarrow> u32 \<Rightarrow> mem \<Rightarrow> mem" where
  "memcpy_top 0 edi esi m = m"
| "memcpy_top (Suc n) edi esi m =
     (if edi AND 3 = 0 then memcpy_aligned (Suc n) edi esi m
      else memcpy_top n (edi + 1) (esi + 1) (m(edi := m esi)))"

definition memcpy :: "u32 \<Rightarrow> u32 \<Rightarrow> u32 \<Rightarrow> mem \<Rightarrow> mem" where
  "memcpy dest src n m = memcpy_top (unat n) dest src m"

text \<open>The second component is the direction flag when the function returns.\<close>

definition memmove :: "u32 \<Rightarrow> u32 \<Rightarrow> u32 \<Rightarrow> mem \<Rightarrow> mem \<times> bool" where
  "memmove dest src n m =
     (if src \<ge> dest then (movsb_up (unat n) dest src m, False)
      else (movsb_down (unat n) (dest + n - 1) (src + n - 1) m, True))"

definition stosl :: "u32 \<Rightarrow> u32 \<Rightarrow> mem \<Rightarrow> mem" where
  "stosl edi eax m =
     m(edi := ucast eax, edi + 1 := ucast (drop_bit 8 eax),
       edi + 2 := ucast (drop_bit 16 eax), edi + 3 := ucast (drop_bit 24 eax))"

primrec rep_stosl :: "nat \<Rightarrow> u32 \<Rightarrow> u32 \<Rightarrow> mem \<Rightarrow> mem" where
  "rep_stosl 0 edi eax m = m"
| "rep_stosl (Suc n) edi eax m = rep_stosl n (edi + 4) eax (stosl edi eax m)"

primrec rep_stosw :: "nat \<Rightarrow> u32 \<Rightarrow> u32 \<Rightarrow> mem \<Rightarrow> mem" where
  "rep_stosw 0 edi eax m = m"
| "rep_stosw (Suc n) edi eax m =
     rep_stosw n (edi + 2) eax (m(edi := ucast eax, edi + 1 := ucast (drop_bit 8 eax)))"

primrec memset_bottom :: "nat \<Rightarrow> u32 \<Rightarrow> u32 \<Rightarrow> mem \<Rightarrow> mem" where
  "memset_bottom 0 edi eax m = m"
| "memset_bottom (Suc n) edi eax m = memset_bottom n (edi + 1) eax (m(edi := ucast eax))"

definition memset_aligned :: "nat \<Rightarrow> u32 \<Rightarrow> u32 \<Rightarrow> mem \<Rightarrow> mem" where
  "memset_aligned n edi eax m =
     memset_bottom (n mod 4) (edi + of_nat (4 * (n div 4))) eax (rep_stosl (n div 4) edi eax m)"

primrec memset_top :: "nat \<Rightarrow> u32 \<Rightarrow> u32 \<Rightarrow> mem \<Rightarrow> mem" where
  "memset_top 0 edi eax m = m"
| "memset_top (Suc n) edi eax m =
     (if edi AND 3 = 0 then memset_aligned (Suc n) edi eax m
      else memset_top n (edi + 1) eax (m(edi := ucast eax)))"

definition memset :: "u32 \<Rightarrow> u32 \<Rightarrow> u32 \<Rightarrow> mem \<Rightarrow> mem" where
  "memset s c n m =
     (let c = c AND 0xFF
      in memset_top (unat n) s (push_bit 24 c OR push_bit 16 c OR push_bit 8 c OR c) m)"

definition memset_word :: "u32 \<Rightarrow> u32 \<Rightarrow> u32 \<Rightarrow> mem \<Rightarrow> mem" where
  "memset_word s c n m = rep_stosw (unat n) s c m"

definition memset_dword :: "u32 \<Rightarrow> u32 \<Rightarrow> u32 \<Rightarrow> mem \<Rightarrow> mem" where
  "memset_dword s c n m = rep_stosl (unat n) s c m"

text \<open>Specifications.  An address is in the region of \<open>n\<close> bytes at \<open>d\<close> when its distance from \<open>d\<close> is below \<open>n\<close>.\<close>

definition copy_region :: "u32 \<Rightarrow> u32 \<Rightarrow> nat \<Rightarrow> mem \<Rightarrow> mem" where
  "copy_region d s n m = (\<lambda>a. if unat (a - d) < n then m (s + (a - d)) else m a)"

definition set_region :: "u32 \<Rightarrow> u8 \<Rightarrow> nat \<Rightarrow> mem \<Rightarrow> mem" where
  "set_region d c n m = (\<lambda>a. if unat (a - d) < n then c else m a)"

text \<open>A forward copy of \<open>n\<close> bytes overwrites no byte it still has to read.\<close>

definition fwd_ok :: "u32 \<Rightarrow> u32 \<Rightarrow> nat \<Rightarrow> bool" where
  "fwd_ok d s n \<longleftrightarrow> d = s \<or> n \<le> unat (d - s)"

subsection \<open>Regions\<close>

lemma unat_sub_of_nat:
  "k < 4294967296 \<Longrightarrow>
   unat ((w :: u32) - of_nat k) = (if k \<le> unat w then unat w - k else unat w + 4294967296 - k)"
  by (subst unat_sub_if') simp

lemma in_shifted_region:
  "k + n \<le> 4294967296 \<Longrightarrow> k < 4294967296 \<Longrightarrow>
   unat (a - (d + of_nat k) :: u32) < n \<longleftrightarrow> k \<le> unat (a - d) \<and> unat (a - d) < k + n"
  using unat_sub_of_nat [of k "a - d"] by (auto simp: diff_diff_eq)

lemma copy_region_0 [simp]: "copy_region d s 0 m = m"
  by (simp add: copy_region_def)

lemma set_region_0 [simp]: "set_region d c 0 m = m"
  by (simp add: set_region_def)

lemma set_region_append:
  "k + n \<le> 4294967296 \<Longrightarrow> k < 4294967296 \<Longrightarrow>
   set_region (d + of_nat k) c n (set_region d c k m) = set_region d c (k + n) m"
  by (rule ext) (auto simp: set_region_def in_shifted_region)

lemma copy_region_append:
  assumes ok: "fwd_ok d s (k + n)" and kn: "k + n \<le> 4294967296" "k < 4294967296"
  shows "copy_region (d + of_nat k) (s + of_nat k) n (copy_region d s k m) = copy_region d s (k + n) m"
proof
  fix a
  let ?x = "a - d"
  have rel: "s + of_nat k + (a - (d + of_nat k)) = s + ?x" by simp
  show "copy_region (d + of_nat k) (s + of_nat k) n (copy_region d s k m) a = copy_region d s (k + n) m a"
  proof (cases "k \<le> unat ?x \<and> unat ?x < k + n")
    case True
    have "copy_region d s k m (s + ?x) = m (s + ?x)"
    proof (cases "d = s")
      case True
      then show ?thesis by (simp add: copy_region_def)
    next
      case False
      have "\<not> unat (s + ?x - d) < k"
      proof
        assume "unat (s + ?x - d) < k"
        define y where "y = unat (s + ?x - d)"
        have yk: "y < k" using \<open>unat (s + ?x - d) < k\<close> by (simp add: y_def)
        have "of_nat y = s + ?x - d" by (simp add: y_def)
        then have "d - s = ?x - of_nat y" by (simp add: algebra_simps)
        moreover have "unat (?x - of_nat y) = unat ?x - y"
          using unat_sub_of_nat [of y ?x] yk kn True by simp
        ultimately have "unat (d - s) = unat ?x - y" by (simp only:)
        moreover have "unat ?x - y < k + n" using True yk by linarith
        ultimately show False using ok False by (simp add: fwd_ok_def)
      qed
      then show ?thesis by (simp add: copy_region_def)
    qed
    with True kn show ?thesis by (simp add: copy_region_def [of "d + of_nat k"] in_shifted_region rel copy_region_def [of d s "k + n"])
  next
    case False
    then show ?thesis using kn by (auto simp: copy_region_def in_shifted_region)
  qed
qed

lemma fwd_ok_mono: "fwd_ok d s n \<Longrightarrow> k \<le> n \<Longrightarrow> fwd_ok d s k"
  by (auto simp: fwd_ok_def)

lemma fwd_ok_shift [simp]: "fwd_ok (d + x) (s + x) n = fwd_ok d s n"
  by (simp add: fwd_ok_def)

subsection \<open>Copying\<close>

lemma word_small_cases:
  "unat (x :: u32) < 4 \<Longrightarrow> x = 0 \<or> x = 1 \<or> x = 2 \<or> x = 3"
proof -
  assume "unat x < 4"
  then consider "unat x = 0" | "unat x = 1" | "unat x = 2" | "unat x = 3" by linarith
  moreover have "x = of_nat (unat x)" by simp
  ultimately show ?thesis by cases simp_all
qed

lemma movsl_region: "movsl d s m = copy_region d s 4 m"
proof
  fix a
  define x where "x = a - d"
  then have a: "a = d + x" by simp
  show "movsl d s m a = copy_region d s 4 m a"
  proof (cases "unat x < 4")
    case True
    from word_small_cases [OF this] show ?thesis by (auto simp: movsl_def copy_region_def a)
  next
    case False
    then have "x \<noteq> 0" "x \<noteq> 1" "x \<noteq> 2" "x \<noteq> 3" by auto
    with False show ?thesis by (simp add: movsl_def copy_region_def a)
  qed
qed

lemma movb_region: "m(d := m s) = copy_region d s 1 m"
  by (rule ext) (auto simp: copy_region_def unat_eq_zero)

lemma rep_movsl_region:
  "fwd_ok d s (4 * n) \<Longrightarrow> 4 * n < 4294967296 \<Longrightarrow> rep_movsl n d s m = copy_region d s (4 * n) m"
proof (induction n arbitrary: d s m)
  case (Suc n)
  have "rep_movsl (Suc n) d s m = copy_region (d + of_nat 4) (s + of_nat 4) (4 * n) (copy_region d s 4 m)"
    using Suc by (simp add: movsl_region fwd_ok_mono)
  also have "\<dots> = copy_region d s (4 + 4 * n) m" using Suc.prems by (intro copy_region_append) auto
  finally show ?case by simp
qed simp

lemma movsb_up_region:
  "fwd_ok d s n \<Longrightarrow> n < 4294967296 \<Longrightarrow> movsb_up n d s m = copy_region d s n m"
proof (induction n arbitrary: d s m)
  case (Suc n)
  have "movsb_up (Suc n) d s m = copy_region (d + of_nat 1) (s + of_nat 1) n (copy_region d s 1 m)"
    using Suc by (simp add: movb_region fwd_ok_mono)
  also have "\<dots> = copy_region d s (1 + n) m" using Suc.prems by (intro copy_region_append) auto
  finally show ?case by simp
qed simp

lemma memcpy_aligned_region:
  assumes "fwd_ok d s n" "n < 4294967296"
  shows "memcpy_aligned n d s m = copy_region d s n m"
proof -
  let ?k = "4 * (n div 4)"
  have n: "?k + n mod 4 = n" by simp
  have "memcpy_aligned n d s m =
      copy_region (d + of_nat ?k) (s + of_nat ?k) (n mod 4) (copy_region d s ?k m)"
    unfolding memcpy_aligned_def
    using assms by (subst rep_movsl_region, (auto intro: fwd_ok_mono)[2], subst movsb_up_region)
      (auto intro: fwd_ok_mono)
  also have "\<dots> = copy_region d s (?k + n mod 4) m"
    using assms n by (intro copy_region_append) auto
  finally show ?thesis by simp
qed

lemma memcpy_top_region:
  "fwd_ok d s n \<Longrightarrow> n < 4294967296 \<Longrightarrow> memcpy_top n d s m = copy_region d s n m"
proof (induction n arbitrary: d s m)
  case (Suc n)
  show ?case
  proof (cases "d AND 3 = 0")
    case True
    then show ?thesis using Suc.prems by (simp add: memcpy_aligned_region)
  next
    case False
    have "memcpy_top (Suc n) d s m = copy_region (d + of_nat 1) (s + of_nat 1) n (copy_region d s 1 m)"
      using Suc False by (simp add: movb_region fwd_ok_mono)
    also have "\<dots> = copy_region d s (1 + n) m" using Suc.prems by (intro copy_region_append) auto
    finally show ?thesis by simp
  qed
qed simp

text \<open>
  The aligned, double-word \<open>memcpy\<close> is equivalent to the byte-wise specification: every byte of
  the destination region gets the byte the source region held at the call and nothing else changes,
  for disjoint regions and also for a destination that overlaps the source from below.
\<close>

theorem memcpy_correct:
  assumes "fwd_ok dest src (unat n)"
  shows "memcpy dest src n m = copy_region dest src (unat n) m"
  using assms by (simp add: memcpy_def memcpy_top_region)

theorem memcpy_correct_witness:
  "memcpy 0xB9001 0xB8003 4090 (\<lambda>a. ucast a) = copy_region 0xB9001 0xB8003 4090 (\<lambda>a. ucast a)"
  using memcpy_correct [of "0xB9001" "0xB8003" 4090 "\<lambda>a. ucast a"] by (simp add: fwd_ok_def)

text \<open>Copying downwards is the mirror image: the first byte copied is the last of the region.\<close>

lemma movsb_down_region:
  "fwd_ok s d n \<Longrightarrow> n < 4294967296 \<Longrightarrow>
   movsb_down n (d + of_nat n - 1) (s + of_nat n - 1) m = copy_region d s n m"
proof (induction n arbitrary: m)
  case (Suc n)
  let ?d = "d + of_nat n" and ?s = "s + of_nat n"
  have "movsb_down (Suc n) (d + of_nat (Suc n) - 1) (s + of_nat (Suc n) - 1) m =
     copy_region d s n (m(?d := m ?s))"
    using Suc by (simp add: algebra_simps fwd_ok_mono)
  also have "\<dots> = copy_region d s (Suc n) m"
  proof
    fix a
    define x where "x = a - d"
    have a: "a = d + x" by (simp add: x_def)
    have xn: "x = of_nat n \<longleftrightarrow> unat x = n" using Suc.prems by auto
    show "copy_region d s n (m(?d := m ?s)) a = copy_region d s (Suc n) m a"
    proof (cases "unat x < n")
      case True
      have "s + x \<noteq> ?d"
      proof
        assume e: "s + x = ?d"
        then have "s - d = of_nat n - x" by (simp add: algebra_simps)
        then have "unat (s - d) = n - unat x"
          using True Suc.prems by (simp add: unat_sub word_le_nat_alt)
        with Suc.prems True have "s = d" by (auto simp: fwd_ok_def)
        with e xn True show False by auto
      qed
      with True show ?thesis by (simp add: copy_region_def a)
    next
      case False
      then show ?thesis using xn by (auto simp: copy_region_def a less_Suc_eq)
    qed
  qed
  finally show ?case .
qed simp

text \<open>
  \<open>memmove\<close> copies correctly whichever way the two regions overlap, as long as neither wraps
  around the end of the address space; but when it copies downwards it leaves the direction flag set.
\<close>

theorem memmove_correct:
  assumes "unat dest + unat n \<le> 2 ^ 32" "unat src + unat n \<le> 2 ^ 32"
  shows "memmove dest src n m = (copy_region dest src (unat n) m, src < dest)"
proof (cases "src \<ge> dest")
  case True
  have "fwd_ok dest src (unat n)"
  proof (cases "dest = src")
    case False
    with True have "\<not> unat src \<le> unat dest"
      by (metis order_antisym word_le_nat_alt)
    then have "unat (dest - src) = unat dest + 4294967296 - unat src" by (simp add: unat_sub_if')
    then have "unat n \<le> unat (dest - src)" using assms by simp
    then show ?thesis by (simp add: fwd_ok_def)
  qed (simp add: fwd_ok_def)
  with True show ?thesis by (auto simp: memmove_def movsb_up_region)
next
  case False
  then have lt: "src < dest" by simp
  then have "\<not> unat dest \<le> unat src" by (simp add: word_less_nat_alt)
  then have "unat (src - dest) = unat src + 4294967296 - unat dest" by (simp add: unat_sub_if')
  with assms have "unat n \<le> unat (src - dest)" by simp
  then have "fwd_ok src dest (unat n)" by (simp add: fwd_ok_def)
  then have "movsb_down (unat n) (dest + n - 1) (src + n - 1) m = copy_region dest src (unat n) m"
    using movsb_down_region [of src dest "unat n" m] by simp
  with False lt show ?thesis by (simp add: memmove_def)
qed

theorem memmove_correct_witness:
  "memmove 0x1004 0x1000 16 (\<lambda>a. ucast a) = (copy_region 0x1004 0x1000 16 (\<lambda>a. ucast a), True)"
  using memmove_correct [of "0x1004" 16 "0x1000" "\<lambda>a. ucast a"] by simp

subsection \<open>Setting\<close>

lemma stosb_region: "m(d := c) = set_region d c 1 m"
  by (rule ext) (auto simp: set_region_def unat_eq_zero)

lemma and_FF_take_bit: "(c :: u32) AND 0xFF = take_bit 8 c"
proof -
  have m: "(0xFF :: u32) = mask 8" by (simp add: mask_eq_exp_minus_1)
  show ?thesis unfolding m by (simp add: take_bit_eq_mask)
qed

lemma memset_eax:
  fixes c :: u32
  defines "eax \<equiv> push_bit 24 (take_bit 8 c) OR push_bit 16 (take_bit 8 c) OR push_bit 8 (take_bit 8 c) OR take_bit 8 c"
  shows "ucast eax = (ucast c :: u8)" "ucast (drop_bit 8 eax) = (ucast c :: u8)"
    "ucast (drop_bit 16 eax) = (ucast c :: u8)" "ucast (drop_bit 24 eax) = (ucast c :: u8)"
  by (rule bit_eqI, auto simp: eax_def bit_simps)+

lemma stosl_region:
  assumes "ucast eax = c" "ucast (drop_bit 8 eax) = c" "ucast (drop_bit 16 eax) = c" "ucast (drop_bit 24 eax) = c"
  shows "stosl d eax m = set_region d c 4 m"
proof
  fix a
  define x where "x = a - d"
  then have a: "a = d + x" by simp
  show "stosl d eax m a = set_region d c 4 m a"
  proof (cases "unat x < 4")
    case True
    from word_small_cases [OF this] show ?thesis by (auto simp: stosl_def set_region_def a assms)
  next
    case False
    then have "x \<noteq> 0" "x \<noteq> 1" "x \<noteq> 2" "x \<noteq> 3" by auto
    with False show ?thesis by (simp add: stosl_def set_region_def a)
  qed
qed

lemma rep_stosl_region:
  assumes "\<And>d m. stosl d eax m = set_region d c 4 m"
  shows "4 * n < 4294967296 \<Longrightarrow> rep_stosl n d eax m = set_region d c (4 * n) m"
proof (induction n arbitrary: d m)
  case (Suc n)
  have "rep_stosl (Suc n) d eax m = set_region (d + of_nat 4) c (4 * n) (set_region d c 4 m)"
    using Suc by (simp add: assms)
  also have "\<dots> = set_region d c (4 + 4 * n) m" using Suc.prems by (intro set_region_append) auto
  finally show ?case by simp
qed simp

lemma memset_bottom_region:
  assumes "ucast eax = c"
  shows "n < 4294967296 \<Longrightarrow> memset_bottom n d eax m = set_region d c n m"
proof (induction n arbitrary: d m)
  case (Suc n)
  have "memset_bottom (Suc n) d eax m = set_region (d + of_nat 1) c n (set_region d c 1 m)"
    using Suc by (simp add: stosb_region assms)
  also have "\<dots> = set_region d c (1 + n) m" using Suc.prems by (intro set_region_append) auto
  finally show ?case by simp
qed simp

lemma memset_top_region:
  assumes st: "\<And>d m. stosl d eax m = set_region d c 4 m" and c: "ucast eax = c"
  shows "n < 4294967296 \<Longrightarrow> memset_top n d eax m = set_region d c n m"
proof (induction n arbitrary: d m)
  case (Suc n)
  show ?case
  proof (cases "d AND 3 = 0")
    case True
    let ?k = "4 * (Suc n div 4)"
    have "memset_aligned (Suc n) d eax m = set_region (d + of_nat ?k) c (Suc n mod 4) (set_region d c ?k m)"
      using Suc.prems unfolding memset_aligned_def
      by (subst rep_stosl_region [OF st], simp, subst memset_bottom_region [OF c], simp_all)
    also have "\<dots> = set_region d c (?k + Suc n mod 4) m"
      using Suc.prems by (intro set_region_append) auto
    finally show ?thesis using True by simp
  next
    case False
    have "memset_top (Suc n) d eax m = set_region (d + of_nat 1) c n (set_region d c 1 m)"
      using Suc False by (simp add: stosb_region c)
    also have "\<dots> = set_region d c (1 + n) m" using Suc.prems by (intro set_region_append) auto
    finally show ?thesis by simp
  qed
qed simp

text \<open>
  \<open>memset\<close> sets exactly the \<open>n\<close> bytes at \<open>s\<close> to the low byte of \<open>c\<close>, for every alignment and
  length, although it stores double words and replicates the byte by shifts.
\<close>

theorem memset_correct: "memset s c n m = set_region s (ucast c) (unat n) m"
  unfolding memset_def Let_def and_FF_take_bit
  by (rule memset_top_region) (use memset_eax [of c] in \<open>auto intro: stosl_region\<close>)

end
