(* ===== verification/Screen.thy ===== *)
theory Screen
  imports I8259 Lib_Memory
begin

text \<open>
  The console of \<^verbatim>\<open>code/lib.c\<close>: character output to the active terminal (\<open>putc\<close>), echo of the
  keyboard to the shown terminal (\<open>put_key\<close>), scrolling, the blinking cursor and backspace.  The
  four text pages are physical memory at \<open>0xB8000\<close> (the display) and \<open>0xB9000\<close>, \<open>0xBA000\<close>,
  \<open>0xBB000\<close> (the pages of the three terminals); a cell is a character byte and an attribute byte.
  The terminal table is that of \<^verbatim>\<open>code/processes.h\<close>; it has three entries, and \<open>screen_inv\<close> keeps
  the two indices \<open>ts\<close> (shown) and \<open>ta\<close> (active) below three.
\<close>

record term_t =
  cursor_x :: int
  cursor_y :: int
  base_pid :: int
  active_pid :: int
  vidmem_idx :: int
  terminal_buf :: buf
  buf_idx :: nat

record screen = pic +
  terminals :: "nat \<Rightarrow> term_t"
  ts :: nat
  ta :: nat
  video_mem :: u32

abbreviation NUM_COLS :: int where "NUM_COLS \<equiv> 80"
abbreviation NUM_ROWS :: int where "NUM_ROWS \<equiv> 25"
abbreviation ATTRIB :: u8 where "ATTRIB \<equiv> 7"
abbreviation VIDEO :: u32 where "VIDEO \<equiv> 0xB8000"
abbreviation BLANK :: u8 where "BLANK \<equiv> 0x20"
abbreviation NL :: u8 where "NL \<equiv> 10"
abbreviation CR :: u8 where "CR \<equiv> 13"

definition vid_mem_pages :: "u32 list" where
  "vid_mem_pages = [0xB8000, 0xB9000, 0xBA000, 0xBB000]"

definition upd_term :: "nat \<Rightarrow> (term_t \<Rightarrow> term_t) \<Rightarrow> 'a screen_scheme \<Rightarrow> 'a screen_scheme" where
  "upd_term k f s = s\<lparr>terminals := (terminals s)(k := f (terminals s k))\<rparr>"

text \<open>The two stores that write cell \<open>i\<close> of a page: the character, then the attribute.\<close>

definition cell_addr :: "u32 \<Rightarrow> int \<Rightarrow> u32" where
  "cell_addr vid i = vid + word_of_int (push_bit 1 i)"

definition put_cell :: "u32 \<Rightarrow> int \<Rightarrow> u8 \<Rightarrow> mem \<Rightarrow> mem" where
  "put_cell vid i c m = m(cell_addr vid i := c, cell_addr vid i + 1 := ATTRIB)"

text \<open>\<open>shift_screen\<close>: each row is copied to the row above, cell by cell, and the last row is blanked.\<close>

definition shift_cell :: "u32 \<Rightarrow> int \<Rightarrow> int \<Rightarrow> mem \<Rightarrow> mem" where
  "shift_cell vid j i m =
     (let d = cell_addr vid (NUM_COLS * (j - 1) + i);
          r = cell_addr vid (NUM_COLS * j + i);
          m = m(d := m r)
      in m(d + 1 := m (r + 1)))"

definition shift_screen :: "u32 \<Rightarrow> mem \<Rightarrow> mem" where
  "shift_screen vid m =
     (let m = fold (\<lambda>j. fold (\<lambda>i. shift_cell vid (int j) (int i)) [0..<80]) [1..<25] m
      in fold (\<lambda>i. put_cell vid (NUM_COLS * (NUM_ROWS - 1) + int i) BLANK) [0..<80] m)"

definition clear :: "'a screen_scheme \<Rightarrow> 'a screen_scheme" where
  "clear s = s\<lparr>pmem := fold (\<lambda>i. put_cell VIDEO (int i) BLANK) [0..<2000] (pmem s)\<rparr>"

definition clear_screen :: "'a screen_scheme \<Rightarrow> 'a screen_scheme" where
  "clear_screen s =
     (let s = clear s in upd_term (ts s) (\<lambda>t. t\<lparr>cursor_x := 0, cursor_y := 0\<rparr>) s)"

definition set_vidmem_page :: "int \<Rightarrow> 'a screen_scheme \<Rightarrow> 'a screen_scheme option" where
  "set_vidmem_page idx s = do { p \<leftarrow> rd_int vid_mem_pages idx; Some (s\<lparr>video_mem := p\<rparr>) }"

text \<open>
  The common body of \<open>putc\<close> and \<open>put_key\<close>, which differ only in the page they write and in the
  terminal whose cursor they move.  C division truncates, hence \<open>sdiv\<close> and \<open>smod\<close>.
\<close>

definition put_char :: "u32 \<Rightarrow> nat \<Rightarrow> u8 \<Rightarrow> 'a screen_scheme \<Rightarrow> 'a screen_scheme" where
  "put_char vid k c s =
     (let y = cursor_y (terminals s k);
          x = cursor_x (terminals s k);
          (m, y, x) =
            (if c = NL \<or> c = CR then (pmem s, y + 1, 0)
             else
               (let m = put_cell vid (NUM_COLS * y + x) c (pmem s);
                    x = x + 1;
                    (m, x) = (if y = NUM_ROWS - 1 \<and> x \<ge> NUM_COLS then (shift_screen vid m, 0) else (m, x));
                    y = (y + x sdiv NUM_COLS) smod NUM_ROWS
                in (m, y, x smod NUM_COLS)));
          (m, y) = (if y \<ge> NUM_ROWS then (shift_screen vid m, NUM_ROWS - 1) else (m, y))
      in upd_term k (\<lambda>t. t\<lparr>cursor_x := x, cursor_y := y\<rparr>) (s\<lparr>pmem := m\<rparr>))"

definition putc :: "u8 \<Rightarrow> 'a screen_scheme \<Rightarrow> 'a screen_scheme" where
  "putc c s = (let s = cli s in sti (put_char (video_mem s) (ta s) c s))"

definition put_key :: "u8 \<Rightarrow> 'a screen_scheme \<Rightarrow> 'a screen_scheme" where
  "put_key c s = put_char VIDEO (ts s) c s"

fun puts :: "buf \<Rightarrow> 'a screen_scheme \<Rightarrow> (nat \<times> 'a screen_scheme) option" where
  "puts [] s = None"
| "puts (c # str) s =
     (if c = 0 then Some (0, s)
      else map_option (\<lambda>(n, s'). (Suc n, s')) (puts str (putc c s)))"

text \<open>The cell under the cursor of the shown terminal.\<close>

definition cursor_cell :: "'a screen_scheme \<Rightarrow> int" where
  "cursor_cell s = NUM_COLS * cursor_y (terminals s (ts s)) + cursor_x (terminals s (ts s))"

definition put_cursor :: "'a screen_scheme \<Rightarrow> 'a screen_scheme" where
  "put_cursor s = s\<lparr>pmem := put_cell VIDEO (cursor_cell s) 0x5F (pmem s)\<rparr>"

definition rem_cursor :: "'a screen_scheme \<Rightarrow> 'a screen_scheme" where
  "rem_cursor s = s\<lparr>pmem := put_cell VIDEO (cursor_cell s) BLANK (pmem s)\<rparr>"

definition check_cursor :: "'a screen_scheme \<Rightarrow> 'a screen_scheme" where
  "check_cursor s =
     s\<lparr>pmem := put_cell VIDEO (cursor_cell s + 1) BLANK (put_cell VIDEO (cursor_cell s) BLANK (pmem s))\<rparr>"

definition remc :: "'a screen_scheme \<Rightarrow> 'a screen_scheme" where
  "remc s =
     (let t = terminals s (ts s)
      in if cursor_y t = 0 \<and> cursor_x t = 0 then s
         else
           (let s = (if cursor_x t = 0
                     then upd_term (ts s) (\<lambda>t. t\<lparr>cursor_y := cursor_y t - 1, cursor_x := NUM_COLS - 1\<rparr>) s
                     else upd_term (ts s) (\<lambda>t. t\<lparr>cursor_x := cursor_x t - 1\<rparr>) s)
            in s\<lparr>pmem := put_cell VIDEO (cursor_cell s) BLANK (pmem s)\<rparr>))"

definition delete_cursor :: "'a screen_scheme \<Rightarrow> 'a screen_scheme" where
  "delete_cursor s = outb 0x20 0x3D5 (outb 0x0A 0x3D4 s)"

text \<open>\<open>test_interrupts\<close> bumps every character of the current page.\<close>

definition test_interrupts :: "'a screen_scheme \<Rightarrow> 'a screen_scheme" where
  "test_interrupts s =
     s\<lparr>pmem := fold (\<lambda>i m. m(cell_addr (video_mem s) (int i) := m (cell_addr (video_mem s) (int i)) + 1))
                 [0..<2000] (pmem s)\<rparr>"

lemmas screen_defs = upd_term_def clear_def clear_screen_def put_char_def putc_def put_key_def
  put_cursor_def rem_cursor_def check_cursor_def remc_def

text \<open>The invariant, and the page contents as the specification sees them.\<close>

definition cursor_ok :: "term_t \<Rightarrow> bool" where
  "cursor_ok t \<longleftrightarrow> 0 \<le> cursor_x t \<and> cursor_x t < NUM_COLS \<and> 0 \<le> cursor_y t \<and> cursor_y t < NUM_ROWS"

definition screen_inv :: "'a screen_scheme \<Rightarrow> bool" where
  "screen_inv s \<longleftrightarrow> ts s < 3 \<and> ta s < 3 \<and> list_all (\<lambda>k. cursor_ok (terminals s k)) [0..<3]"

definition page_char :: "u32 \<Rightarrow> mem \<Rightarrow> int \<Rightarrow> u8" where
  "page_char vid m i = m (cell_addr vid i)"

text \<open>A page scrolled by one row.\<close>

definition scrolled :: "u32 \<Rightarrow> mem \<Rightarrow> mem" where
  "scrolled vid m =
     (\<lambda>a. let b = unat (a - vid)
          in if b < 3840 then m (a + 160)
             else if b < 4000 then (if even b then BLANK else ATTRIB)
             else m a)"

text \<open>Two memories agree outside the page at \<open>vid\<close>.\<close>

definition same_outside :: "u32 \<Rightarrow> mem \<Rightarrow> mem \<Rightarrow> bool" where
  "same_outside vid m m' \<longleftrightarrow> (\<forall>a. 4096 \<le> unat (a - vid) \<longrightarrow> m' a = m a)"

text \<open>The screen at boot: interrupts off, blank video memory, the three cursors at the origin.\<close>

definition blank_term :: term_t where
  "blank_term = \<lparr>cursor_x = 0, cursor_y = 0, base_pid = 0, active_pid = 0, vidmem_idx = 0,
     terminal_buf = replicate 128 0, buf_idx = 0\<rparr>"

definition blank_screen :: screen where
  "blank_screen = \<lparr>iflag = False, out_log = [], pmem = (\<lambda>a. 0), esp = 0x800000, ebp = 0x800000,
     master_mask = MASK_ALL, slave_mask = MASK_ALL,
     terminals = (\<lambda>k. blank_term), ts = 0, ta = 0, video_mem = VIDEO\<rparr>"

subsection \<open>Cells\<close>

lemma cell_addr_nat: "cell_addr vid (int n) = vid + of_nat (2 * n)"
  by (simp add: cell_addr_def push_bit_eq_mult mult.commute)

lemma unat_cell_addr: "n < 2048 \<Longrightarrow> unat (cell_addr vid (int n) - vid) = 2 * n"
  using unat_of_nat_u32 [of "2 * n"] by (simp add: cell_addr_nat)

lemma fwd_ok_row: "n \<le> 4000 \<Longrightarrow> fwd_ok vid (vid + 160) n"
  by (simp add: fwd_ok_def)

lemma shift_cell_region:
  "shift_cell vid (int (Suc j)) (int i) m =
     copy_region (vid + of_nat (2 * (80 * j + i))) (vid + 160 + of_nat (2 * (80 * j + i))) 2 m"
proof -
  let ?p = "of_nat (2 * (80 * j + i)) :: u32"
  let ?d = "vid + ?p" and ?r = "vid + 160 + ?p"
  have d: "cell_addr vid (NUM_COLS * (int (Suc j) - 1) + int i) = ?d"
    using cell_addr_nat [of vid "80 * j + i"] by simp
  have r: "cell_addr vid (NUM_COLS * int (Suc j) + int i) = ?r"
    using cell_addr_nat [of vid "80 * Suc j + i"] by (simp add: algebra_simps)
  have "shift_cell vid (int (Suc j)) (int i) m =
      copy_region (?d + of_nat 1) (?r + of_nat 1) 1 (copy_region ?d ?r 1 m)"
    unfolding shift_cell_def Let_def d r by (simp only: movb_region [symmetric] of_nat_1)
  also have "\<dots> = copy_region ?d ?r (1 + 1) m"
    by (rule copy_region_append) (simp_all add: fwd_ok_row del: One_nat_def)
  finally show ?thesis by (simp only: one_add_one)
qed

lemma shift_loop:
  "n \<le> 1920 \<Longrightarrow>
   fold (\<lambda>p. copy_region (vid + of_nat (2 * p)) (vid + 160 + of_nat (2 * p)) 2) [0..<n] m =
     copy_region vid (vid + 160) (2 * n) m"
proof (induction n)
  case (Suc n)
  have "copy_region (vid + of_nat (2 * n)) (vid + 160 + of_nat (2 * n)) 2 (copy_region vid (vid + 160) (2 * n) m)
      = copy_region vid (vid + 160) (2 * n + 2) m"
    using Suc.prems by (intro copy_region_append fwd_ok_row) auto
  with Suc show ?case by simp
qed simp

lemma shift_rows:
  "fold (\<lambda>j. fold (\<lambda>i. shift_cell vid (int j) (int i)) [0..<80]) [1..<25] m = copy_region vid (vid + 160) 3840 m"
proof -
  let ?f = "\<lambda>p. copy_region (vid + of_nat (2 * p)) (vid + 160 + of_nat (2 * p)) 2"
  have u: "[1..<25] = map Suc [0..<24]" by (simp only: map_Suc_upt) simp
  have "fold (\<lambda>j. fold (\<lambda>i. shift_cell vid (int j) (int i)) [0..<80]) [1..<25] m
      = fold (\<lambda>j. fold (\<lambda>i. ?f (80 * j + i)) [0..<80]) [0..<24] m"
  proof -
    have "(\<lambda>i. shift_cell vid (int (Suc j)) (int i)) = (\<lambda>i. ?f (80 * j + i))" for j
      by (rule ext, rule ext) (rule shift_cell_region)
    then show ?thesis unfolding u by (simp only: fold_map comp_def)
  qed
  also have "\<dots> = fold ?f [0..<80 * 24] m" by (rule fold_nested_upt)
  also have "\<dots> = copy_region vid (vid + 160) 3840 m" using shift_loop [of 1920 vid m] by simp
  finally show ?thesis .
qed

lemma put_cell_at:
  assumes "n < 2048"
  shows "put_cell vid (int n) c m a =
    (if unat (a - vid) = 2 * n then c else if unat (a - vid) = Suc (2 * n) then ATTRIB else m a)"
proof -
  define x where "x = a - vid"
  have a: "a = vid + x" by (simp add: x_def)
  have "x = of_nat (2 * n) \<longleftrightarrow> unat x = 2 * n" using assms by (intro u32_eq_of_nat_iff) simp
  moreover have "x = of_nat (2 * n) + 1 \<longleftrightarrow> unat x = Suc (2 * n)"
    using assms u32_eq_of_nat_iff [of "Suc (2 * n)" x] by (simp add: add.commute)
  ultimately show ?thesis
    by (auto simp: put_cell_def cell_addr_nat a)
qed

lemma blank_loop:
  "b + n \<le> 2048 \<Longrightarrow>
   fold (\<lambda>i. put_cell vid (int b + int i) BLANK) [0..<n] m a =
    (if 2 * b \<le> unat (a - vid) \<and> unat (a - vid) < 2 * (b + n)
     then (if even (unat (a - vid)) then BLANK else ATTRIB) else m a)"
proof (induction n)
  case (Suc n)
  then show ?case
    using put_cell_at [of "b + n" vid BLANK "fold (\<lambda>i. put_cell vid (int b + int i) BLANK) [0..<n] m" a]
    by auto
qed (simp, linarith)

lemma shift_screen_eq: "shift_screen vid m = scrolled vid m"
proof
  fix a
  have "shift_screen vid m a = fold (\<lambda>i. put_cell vid (int 1920 + int i) BLANK) [0..<80]
     (copy_region vid (vid + 160) 3840 m) a"
    unfolding shift_screen_def Let_def shift_rows by (simp del: upt_rec_numeral)
  also have "\<dots> = (if 3840 \<le> unat (a - vid) \<and> unat (a - vid) < 4000
       then (if even (unat (a - vid)) then BLANK else ATTRIB) else copy_region vid (vid + 160) 3840 m a)"
    by (subst blank_loop) (simp_all del: upt_rec_numeral)
  also have "\<dots> = scrolled vid m a"
    by (auto simp: scrolled_def copy_region_def Let_def algebra_simps)
  finally show "shift_screen vid m a = scrolled vid m a" .
qed

lemma page_char_scrolled:
  assumes "n < 2000"
  shows "page_char vid (scrolled vid m) (int n) = (if n < 1920 then page_char vid m (int (n + 80)) else BLANK)"
proof -
  have u: "unat (cell_addr vid (int n) - vid) = 2 * n" using assms by (simp add: unat_cell_addr)
  have "cell_addr vid (int n) + 160 = cell_addr vid (int (n + 80))"
    by (simp only: cell_addr_nat) (simp add: algebra_simps)
  with u assms show ?thesis by (simp add: page_char_def scrolled_def Let_def)
qed



subsection \<open>Output\<close>

lemma sdiv_pos: "0 \<le> (a :: int) \<Longrightarrow> 0 < b \<Longrightarrow> a sdiv b = a div b"
  by (cases "a = 0") (simp_all add: signed_divide_int_def)

lemma smod_pos: "0 \<le> (a :: int) \<Longrightarrow> 0 < b \<Longrightarrow> a smod b = a mod b"
  by (cases "a = 0") (simp_all add: signed_modulo_int_def)

lemma same_outside_refl [simp]: "same_outside vid m m"
  by (simp add: same_outside_def)

lemma same_outside_trans: "same_outside vid m m' \<Longrightarrow> same_outside vid m' m'' \<Longrightarrow> same_outside vid m m''"
  by (simp add: same_outside_def)

lemma same_outside_put_cell: "0 \<le> i \<Longrightarrow> i < 2048 \<Longrightarrow> same_outside vid m (put_cell vid i c m)"
  using put_cell_at [of "nat i" vid c m] by (auto simp: same_outside_def)

lemma same_outside_shift [simp]: "same_outside vid m (shift_screen vid m)"
  by (simp add: same_outside_def shift_screen_eq scrolled_def Let_def)

lemma same_outside_put_shift:
  "0 \<le> i \<Longrightarrow> i < 2048 \<Longrightarrow> same_outside vid m (shift_screen vid (put_cell vid i c m))"
  by (rule same_outside_trans [OF same_outside_put_cell same_outside_shift])

text \<open>Where a character goes and where the cursor stands next, for a cursor on the page.\<close>

lemma put_char_cases:
  assumes ok: "cursor_ok (terminals s k)"
  defines "x \<equiv> cursor_x (terminals s k)" and "y \<equiv> cursor_y (terminals s k)"
  shows "put_char vid k c s =
    (if c = NL \<or> c = CR then
       (if y = 24 then upd_term k (\<lambda>t. t\<lparr>cursor_x := 0, cursor_y := 24\<rparr>) (s\<lparr>pmem := shift_screen vid (pmem s)\<rparr>)
        else upd_term k (\<lambda>t. t\<lparr>cursor_x := 0, cursor_y := y + 1\<rparr>) s)
     else
       (let m = put_cell vid (80 * y + x) c (pmem s)
        in if x < 79 then upd_term k (\<lambda>t. t\<lparr>cursor_x := x + 1, cursor_y := y\<rparr>) (s\<lparr>pmem := m\<rparr>)
           else if y < 24 then upd_term k (\<lambda>t. t\<lparr>cursor_x := 0, cursor_y := y + 1\<rparr>) (s\<lparr>pmem := m\<rparr>)
           else upd_term k (\<lambda>t. t\<lparr>cursor_x := 0, cursor_y := 24\<rparr>) (s\<lparr>pmem := shift_screen vid m\<rparr>)))"
proof -
  have b: "0 \<le> x" "x < 80" "0 \<le> y" "y < 25" using ok by (auto simp: cursor_ok_def x_def y_def)
  show ?thesis
  proof (cases "c = NL \<or> c = CR")
    case True
    with b show ?thesis by (auto simp: put_char_def Let_def x_def [symmetric] y_def [symmetric])
  next
    case False
    consider "x < 79" | "x = 79" "y < 24" | "x = 79" "y = 24" using b by linarith
    then show ?thesis
      using False b
      by cases (simp_all add: put_char_def Let_def x_def [symmetric] y_def [symmetric] sdiv_pos smod_pos)
  qed
qed

lemma upd_term_simps [simp]:
  "terminals (upd_term k f s) = (terminals s)(k := f (terminals s k))" "ts (upd_term k f s) = ts s"
  "ta (upd_term k f s) = ta s" "video_mem (upd_term k f s) = video_mem s" "pmem (upd_term k f s) = pmem s"
  "screen.more (upd_term k f s) = screen.more s" "iflag (upd_term k f s) = iflag s"
  "out_log (upd_term k f s) = out_log s"
  by (simp_all add: upd_term_def)

text \<open>No output operation moves the terminal indices or touches what later components add.\<close>

lemma put_char_frame [simp, frame_simps]:
  "ts (put_char vid k c s) = ts s" "ta (put_char vid k c s) = ta s"
  "video_mem (put_char vid k c s) = video_mem s" "screen.more (put_char vid k c s) = screen.more s"
  "iflag (put_char vid k c s) = iflag s" "out_log (put_char vid k c s) = out_log s"
  "k' \<noteq> k \<Longrightarrow> terminals (put_char vid k c s) k' = terminals s k'"
  by (simp_all add: put_char_def Let_def split: prod.splits)

lemma put_char_term_frame [simp]:
  "base_pid (terminals (put_char vid k c s) k') = base_pid (terminals s k')"
  "active_pid (terminals (put_char vid k c s) k') = active_pid (terminals s k')"
  "terminal_buf (terminals (put_char vid k c s) k') = terminal_buf (terminals s k')"
  "buf_idx (terminals (put_char vid k c s) k') = buf_idx (terminals s k')"
  by (simp_all add: put_char_def Let_def split: prod.splits)

lemma put_char_cursor_ok:
  assumes "cursor_ok (terminals s k')"
  shows "cursor_ok (terminals (put_char vid k c s) k')"
proof (cases "k' = k")
  case True
  with assms have ok: "cursor_ok (terminals s k)" by simp
  show ?thesis unfolding put_char_cases [OF ok] using ok True by (auto simp: cursor_ok_def Let_def)
qed (use assms in simp)

lemma put_char_same_outside:
  assumes "cursor_ok (terminals s k)"
  shows "same_outside vid (pmem s) (pmem (put_char vid k c s))"
proof -
  let ?i = "80 * cursor_y (terminals s k) + cursor_x (terminals s k)"
  have "0 \<le> ?i" "?i < 2048" using assms by (auto simp: cursor_ok_def)
  then show ?thesis
    unfolding put_char_cases [OF assms] by (simp add: Let_def same_outside_put_cell same_outside_put_shift)
qed

lemma putc_frame [simp, frame_simps]:
  "ts (putc c s) = ts s" "ta (putc c s) = ta s" "video_mem (putc c s) = video_mem s"
  "screen.more (putc c s) = screen.more s" "out_log (putc c s) = out_log s" "iflag (putc c s)"
  by (simp_all add: putc_def machine_defs Let_def)

lemma put_key_frame [simp, frame_simps]:
  "ts (put_key c s) = ts s" "ta (put_key c s) = ta s" "video_mem (put_key c s) = video_mem s"
  "screen.more (put_key c s) = screen.more s" "out_log (put_key c s) = out_log s" "iflag (put_key c s) = iflag s"
  by (simp_all add: put_key_def)

lemma screen_invD: "screen_inv s \<Longrightarrow> k < 3 \<Longrightarrow> cursor_ok (terminals s k)"
  by (auto simp: screen_inv_def list_all_iff)

lemma screen_invI: "ts s < 3 \<Longrightarrow> ta s < 3 \<Longrightarrow> (\<And>k. k < 3 \<Longrightarrow> cursor_ok (terminals s k)) \<Longrightarrow> screen_inv s"
  by (auto simp: screen_inv_def list_all_iff)

lemma terminals_machine [simp]: "terminals (cli s) = terminals s" "terminals (sti s) = terminals s"
  by (simp_all add: machine_defs)

lemma screen_inv_putc: "screen_inv s \<Longrightarrow> screen_inv (putc c s)"
  by (rule screen_invI) (auto simp: putc_def Let_def screen_inv_def list_all_iff machine_defs intro!: put_char_cursor_ok)

lemma screen_inv_put_key: "screen_inv s \<Longrightarrow> screen_inv (put_key c s)"
  by (rule screen_invI) (auto simp: put_key_def screen_inv_def list_all_iff intro!: put_char_cursor_ok)

lemma screen_inv_clear_screen: "screen_inv s \<Longrightarrow> screen_inv (clear_screen s)"
  by (rule screen_invI) (auto simp: clear_screen_def clear_def Let_def screen_inv_def list_all_iff cursor_ok_def)

lemma cursor_ok_back:
  assumes "cursor_ok t" "\<not> (cursor_y t = 0 \<and> cursor_x t = 0)"
  shows "cursor_x t = 0 \<Longrightarrow> cursor_ok (t\<lparr>cursor_y := cursor_y t - 1, cursor_x := 79\<rparr>)"
    and "cursor_x t \<noteq> 0 \<Longrightarrow> cursor_ok (t\<lparr>cursor_x := cursor_x t - 1\<rparr>)"
  using assms by (auto simp: cursor_ok_def)

lemma screen_inv_remc: "screen_inv s \<Longrightarrow> screen_inv (remc s)"
  by (rule screen_invI)
    (auto simp: remc_def Let_def screen_inv_def list_all_iff cursor_ok_back)

lemma screen_inv_pmem [simp]: "screen_inv (s\<lparr>pmem := m\<rparr>) = screen_inv s"
  by (simp add: screen_inv_def)

text \<open>
  C30. Output is contained: printing a character keeps both cursor coordinates of every terminal on
  its 80x25 page and the terminal indices in range, and changes no byte outside the 4 KB page that
  the active terminal writes to, whatever the character and wherever the cursor was.
\<close>

theorem putc_contained:
  assumes "screen_inv s"
  shows "screen_inv (putc c s) \<and> same_outside (video_mem s) (pmem s) (pmem (putc c s))"
proof
  have "cursor_ok (terminals s (ta s))" using assms by (simp add: screen_invD screen_inv_def)
  then have "same_outside (video_mem s) (pmem (cli s)) (pmem (put_char (video_mem s) (ta s) c (cli s)))"
    by (intro put_char_same_outside) simp
  then show "same_outside (video_mem s) (pmem s) (pmem (putc c s))"
    by (simp add: putc_def Let_def machine_defs)
qed (rule screen_inv_putc [OF assms])

subsection \<open>A line of text\<close>

lemma page_char_put_cell:
  assumes "0 \<le> i" "i < 2048" "0 \<le> j" "j < 2048"
  shows "page_char vid (put_cell vid i c m) j = (if j = i then c else page_char vid m j)"
proof -
  have u: "unat (cell_addr vid j - vid) = 2 * nat j" using unat_cell_addr [of "nat j" vid] assms by simp
  have "2 * nat j \<noteq> Suc (2 * nat i)" by (metis even_Suc dvd_triv_left)
  then have "put_cell vid (int (nat i)) c m (cell_addr vid j) = (if nat j = nat i then c else m (cell_addr vid j))"
    using assms u by (subst put_cell_at) auto
  then show ?thesis using assms by (auto simp: page_char_def)
qed

lemma putc_char:
  assumes "cursor_ok (terminals s (ta s))" "c \<noteq> NL" "c \<noteq> CR" "cursor_x (terminals s (ta s)) < 79"
  shows "putc c s = sti (upd_term (ta s) (\<lambda>t. t\<lparr>cursor_x := cursor_x t + 1\<rparr>)
     (s\<lparr>pmem := put_cell (video_mem s)
        (80 * cursor_y (terminals s (ta s)) + cursor_x (terminals s (ta s))) c (pmem s)\<rparr>))"
proof -
  have "cursor_ok (terminals (cli s) (ta s))" using assms by simp
  note c = put_char_cases [OF this, of "video_mem s" c]
  have "upd_term (ta s) (\<lambda>t. t\<lparr>cursor_x := cursor_x (terminals s (ta s)) + 1, cursor_y := cursor_y (terminals s (ta s))\<rparr>) u
      = upd_term (ta s) (\<lambda>t. t\<lparr>cursor_x := cursor_x t + 1\<rparr>) u" if "terminals u = terminals s" for u
    using that by (simp add: upd_term_def)
  with assms c show ?thesis
    by (simp add: putc_def Let_def cli_def sti_def) (simp add: upd_term_def)
qed

lemma putc_line:
  assumes "cursor_ok (terminals s (ta s))" "NL \<notin> set cs" "CR \<notin> set cs"
    "cursor_x (terminals s (ta s)) + int (length cs) < 80"
  defines "p \<equiv> 80 * cursor_y (terminals s (ta s)) + cursor_x (terminals s (ta s))"
  shows "cursor_x (terminals (fold putc cs s) (ta s)) = cursor_x (terminals s (ta s)) + int (length cs)
    \<and> cursor_y (terminals (fold putc cs s) (ta s)) = cursor_y (terminals s (ta s))
    \<and> (\<forall>j. 0 \<le> j \<longrightarrow> j < 2000 \<longrightarrow> page_char (video_mem s) (pmem (fold putc cs s)) j =
         (if p \<le> j \<and> j < p + int (length cs) then cs ! nat (j - p) else page_char (video_mem s) (pmem s) j))"
  using assms(1-4) unfolding p_def
proof (induction cs arbitrary: s)
  case (Cons c cs)
  let ?t = "terminals s (ta s)"
  let ?p = "80 * cursor_y ?t + cursor_x ?t"
  have x: "cursor_x ?t < 79" using Cons.prems by simp
  have eq: "putc c s = sti (upd_term (ta s) (\<lambda>t. t\<lparr>cursor_x := cursor_x t + 1\<rparr>)
     (s\<lparr>pmem := put_cell (video_mem s) ?p c (pmem s)\<rparr>))"
    by (rule putc_char) (use Cons.prems x in auto)
  have t: "terminals (putc c s) (ta s) = ?t\<lparr>cursor_x := cursor_x ?t + 1\<rparr>" by (simp add: eq)
  have b: "0 \<le> ?p" "?p < 2000" using Cons.prems(1) x by (auto simp: cursor_ok_def)
  have pc: "page_char (video_mem s) (pmem (putc c s)) j =
      (if j = ?p then c else page_char (video_mem s) (pmem s) j)" if "0 \<le> j" "j < 2000" for j
    using that b by (simp add: eq page_char_put_cell)
  have "cursor_ok (terminals (putc c s) (ta (putc c s)))"
    using Cons.prems x by (auto simp: t cursor_ok_def)
  then have IH: "cursor_x (terminals (fold putc cs (putc c s)) (ta s)) = cursor_x ?t + 1 + int (length cs)
    \<and> cursor_y (terminals (fold putc cs (putc c s)) (ta s)) = cursor_y ?t
    \<and> (\<forall>j. 0 \<le> j \<longrightarrow> j < 2000 \<longrightarrow> page_char (video_mem s) (pmem (fold putc cs (putc c s))) j =
         (if ?p + 1 \<le> j \<and> j < ?p + 1 + int (length cs) then cs ! nat (j - (?p + 1))
          else page_char (video_mem s) (pmem (putc c s)) j))"
    using Cons.IH [of "putc c s"] Cons.prems by (simp add: t add.assoc)
  have n: "nat (j - ?p) = Suc (nat (j - (?p + 1)))" if "?p + 1 \<le> j" for j using that by simp
  show ?case using IH by (auto simp: pc n)
qed auto

lemma puts_fold: "0 \<notin> set cs \<Longrightarrow> puts (cs @ 0 # r) s = Some (length cs, fold putc cs s)"
  by (induction cs arbitrary: s) auto

text \<open>
  \<open>puts\<close> on a NUL-terminated string of printable characters that fits on the cursor's line reads
  no byte past the terminator, returns the number of characters, leaves exactly these characters in
  the consecutive cells from the cursor on, every other cell of the page as it was, and the cursor
  behind the last one.
\<close>

theorem puts_line:
  assumes "screen_inv s" "0 \<notin> set cs" "NL \<notin> set cs" "CR \<notin> set cs"
    "cursor_x (terminals s (ta s)) + int (length cs) < 80"
  defines "p \<equiv> 80 * cursor_y (terminals s (ta s)) + cursor_x (terminals s (ta s))"
  shows "\<exists>s'. puts (cs @ 0 # r) s = Some (length cs, s')
    \<and> cursor_x (terminals s' (ta s)) = cursor_x (terminals s (ta s)) + int (length cs)
    \<and> (\<forall>j. 0 \<le> j \<longrightarrow> j < 2000 \<longrightarrow> page_char (video_mem s) (pmem s') j =
         (if p \<le> j \<and> j < p + int (length cs) then cs ! nat (j - p) else page_char (video_mem s) (pmem s) j))"
proof -
  have "cursor_ok (terminals s (ta s))" using assms by (simp add: screen_invD screen_inv_def)
  from putc_line [OF this assms(3-5)] show ?thesis
    using puts_fold [OF assms(2), of r s] by (auto simp: p_def)
qed

lemma screen_inv_blank: "screen_inv blank_screen"
  by (simp add: screen_inv_def blank_screen_def cursor_ok_def blank_term_def list_all_iff)

theorem putc_contained_witness: "screen_inv (putc 65 blank_screen)"
  using putc_contained [OF screen_inv_blank, of 65] by blast

theorem puts_line_witness:
  "\<exists>s'. puts [72, 105, 0] blank_screen = Some (2, s') \<and> page_char VIDEO (pmem s') 1 = 105"
proof -
  have "0 \<le> (1 :: int)" "(1 :: int) < 2000" by simp_all
  with puts_line [OF screen_inv_blank, of "[72, 105]" "[]"] show ?thesis
    by (fastforce simp: blank_screen_def blank_term_def)
qed

end
