(* ===== verification/Lib_String.thy ===== *)
theory Lib_String
  imports OS_Prelude
begin

text \<open>
  The string functions of \<^verbatim>\<open>code/lib.c\<close>: \<open>strlen\<close>, \<open>strrev\<close>, \<open>itoa\<close>, \<open>strncmp\<close>, \<open>strcpy\<close> and
  \<open>strncpy\<close>.  A \<open>char*\<close> argument is the list of bytes from the pointer to the end of the object it
  points into, so a scan that leaves the object is \<open>None\<close>.  A 32-bit object has fewer than
  \<open>2 ^ 32\<close> bytes, so lengths and indices are natural numbers.
\<close>

fun strlen :: "buf \<Rightarrow> nat option" where
  "strlen [] = None"
| "strlen (c # s) = (if c = 0 then Some 0 else map_option Suc (strlen s))"

function strrev_loop :: "buf \<Rightarrow> int \<Rightarrow> int \<Rightarrow> buf" where
  "strrev_loop s b e =
     (if b < e
      then strrev_loop (s[nat e := s ! nat b, nat b := s ! nat e]) (b + 1) (e - 1)
      else s)"
  by pat_completeness auto
termination
  by (relation "measure (\<lambda>(s, b, e). nat (e - b))") auto

definition strrev :: "buf \<Rightarrow> buf option" where
  "strrev s = do { n \<leftarrow> strlen s; Some (strrev_loop s 0 (int n - 1)) }"

text \<open>The lookup table of \<open>itoa\<close>, a string literal: 36 digits and the terminating NUL.\<close>

definition lookup :: buf where
  "lookup = bytes ''0123456789ABCDEFGHIJKLMNOPQRSTUVWXYZ'' @ [0]"

text \<open>
  The digit loop.  A zero radix divides by zero, a radix above 37 reads past the table, and a radix
  of one never reduces the value and runs off the buffer: all three end in \<open>None\<close>.
\<close>

function itoa_loop :: "u32 \<Rightarrow> buf \<Rightarrow> nat \<Rightarrow> u32 \<Rightarrow> (buf \<times> nat) option" where
  "itoa_loop newval buf pos radix =
     (if newval > 0
      then (if radix = 0 then None
            else (case rd lookup (unat (newval mod radix)) of
                    None \<Rightarrow> None
                  | Some c \<Rightarrow>
                      (if pos < length buf
                       then itoa_loop (newval div radix) (buf[pos := c]) (Suc pos) radix
                       else None)))
      else Some (buf, pos))"
  by pat_completeness auto
termination
  by (relation "measure (\<lambda>(v, b, p, r). length b - p)") auto

definition itoa :: "u32 \<Rightarrow> buf \<Rightarrow> u32 \<Rightarrow> buf option" where
  "itoa val buf radix =
     (if val = 0
      then do { b \<leftarrow> wr buf 0 (of_char (CHR ''0'')); wr b 1 0 }
      else do { (b, p) \<leftarrow> itoa_loop val buf 0 radix;
                b' \<leftarrow> wr b p 0;
                strrev b' })"

text \<open>\<open>int8_t\<close> is \<open>char\<close>, signed on this target: the difference is that of the signed values.\<close>

fun strncmp :: "buf \<Rightarrow> buf \<Rightarrow> nat \<Rightarrow> int option" where
  "strncmp s1 s2 0 = Some 0"
| "strncmp (a # s1) (b # s2) (Suc n) =
     (if a \<noteq> b \<or> a = 0 then Some (sint a - sint b) else strncmp s1 s2 n)"
| "strncmp _ _ (Suc n) = None"

fun strcpy :: "buf \<Rightarrow> buf \<Rightarrow> buf option" where
  "strcpy (d # dest) (c # src) =
     (if c \<noteq> 0 then map_option (Cons c) (strcpy dest src) else Some (0 # dest))"
| "strcpy _ _ = None"

fun strncpy_pad :: "buf \<Rightarrow> nat \<Rightarrow> buf option" where
  "strncpy_pad dest 0 = Some dest"
| "strncpy_pad (d # dest) (Suc n) = map_option (Cons 0) (strncpy_pad dest n)"
| "strncpy_pad [] (Suc n) = None"

text \<open>The loop condition reads \<open>src[i]\<close> before it compares \<open>i\<close> with \<open>n\<close>.\<close>

fun strncpy :: "buf \<Rightarrow> buf \<Rightarrow> nat \<Rightarrow> buf option" where
  "strncpy dest [] n = None"
| "strncpy dest (c # src) n =
     (if c \<noteq> 0 \<and> 0 < n
      then (case dest of [] \<Rightarrow> None | d # ds \<Rightarrow> map_option (Cons c) (strncpy ds src (n - 1)))
      else strncpy_pad dest n)"

text \<open>The number a digit string denotes, the specification of \<open>itoa\<close>.\<close>

definition digit_val :: "u8 \<Rightarrow> nat" where
  "digit_val c = (if 48 \<le> unat c \<and> unat c \<le> 57 then unat c - 48 else unat c - 55)"

definition numeral_val :: "nat \<Rightarrow> buf \<Rightarrow> nat" where
  "numeral_val radix ds = foldl (\<lambda>v c. v * radix + digit_val c) 0 ds"

text \<open>The digits of a number, least significant first.\<close>

fun digits_lsb :: "nat \<Rightarrow> nat \<Rightarrow> nat list" where
  "digits_lsb r v = (if v = 0 \<or> r < 2 then [] else (v mod r) # digits_lsb r (v div r))"

declare digits_lsb.simps [simp del]
declare strrev_loop.simps [simp del] itoa_loop.simps [simp del]

subsection \<open>Length and reversal\<close>

lemma strlen_eq: "strlen s = (if 0 \<in> set s then Some (length (cstr s)) else None)"
  by (induction s) (auto simp: cstr_def)

lemma strlen_nul [simp]: "0 \<notin> set s \<Longrightarrow> strlen (s @ 0 # r) = Some (length s)"
  by (simp add: strlen_eq)

lemma strlen_Some_iff: "strlen s = Some n \<longleftrightarrow> 0 \<in> set s \<and> n = length (cstr s)"
  by (auto simp: strlen_eq)

lemma strrev_loop_mid:
  "strrev_loop (xs @ ys @ zs) (int (length xs)) (int (length xs) + int (length ys) - 1) = xs @ rev ys @ zs"
proof (induction ys arbitrary: xs zs rule: length_induct)
  case (1 ys)
  show ?case
  proof (cases "length ys < 2")
    case True
    then have "rev ys = ys" by (cases ys) auto
    with True show ?thesis by (simp add: strrev_loop.simps [of "xs @ ys @ zs"])
  next
    case False
    then obtain a ms b where ys: "ys = a # ms @ [b]"
      by (metis (no_types, opaque_lifting) One_nat_def Suc_1 append_butlast_last_id length_Cons lessI
          less_Suc_eq_0_disj list.exhaust list.size(3))
    have ml: "length ms < length ys" using ys by simp
    let ?s = "xs @ ys @ zs" and ?b = "int (length xs)"
    let ?e = "?b + int (length ys) - 1"
    have e: "nat ?e = length xs + length ms + 1" using ys by simp
    have swap: "?s[nat ?e := ?s ! nat ?b, nat ?b := ?s ! nat ?e] = (xs @ [b]) @ ms @ (a # zs)"
      unfolding e by (simp add: ys nth_append list_update_append)
    have "strrev_loop ?s ?b ?e = strrev_loop ((xs @ [b]) @ ms @ (a # zs)) (?b + 1) (?e - 1)"
      by (subst strrev_loop.simps) (use False swap in simp)
    also have "\<dots> = (xs @ [b]) @ rev ms @ (a # zs)"
      using "1.IH" [rule_format, OF ml, of "xs @ [b]" "a # zs"] by (simp add: ys algebra_simps)
    finally show ?thesis by (simp add: ys)
  qed
qed

lemma strrev_nul: "0 \<notin> set s \<Longrightarrow> strrev (s @ 0 # r) = Some (rev s @ 0 # r)"
  using strrev_loop_mid [of "[]" s "0 # r"] by (simp add: strrev_def)

text \<open>
  Reversing a string in place reverses exactly the bytes before its NUL; the terminator and
  whatever follows it in the buffer stay.
\<close>

theorem strrev_correct:
  assumes "0 \<notin> set s"
  shows "strrev (s @ 0 # r) = Some (rev s @ 0 # r)"
  using assms by (rule strrev_nul)

theorem strrev_correct_witness: "strrev [1, 2, 3, 0, 9] = Some [3, 2, 1, 0, 9]"
  using strrev_correct [of "[1, 2, 3]" "[9]"] by simp

subsection \<open>Numbers to text\<close>

lemma lookup_36: "length lookup = 37"
  by (simp add: lookup_def)

lemma lookup_eval:
  "map digit_val (take 36 lookup) = [0..<36]" "list_all (\<lambda>c. c \<noteq> 0) (take 36 lookup)"
  by (code_simp)+

lemma digit_val_lookup [simp]: "d < 36 \<Longrightarrow> digit_val (lookup ! d) = d"
proof -
  assume d: "d < 36"
  then have "digit_val (lookup ! d) = map digit_val (take 36 lookup) ! d"
    by (simp add: lookup_36)
  with d show ?thesis by (simp add: lookup_eval)
qed

lemma lookup_nonzero [simp]: "d < 36 \<Longrightarrow> lookup ! d \<noteq> 0"
  using lookup_eval(2) by (auto simp: list_all_length lookup_36)

lemma digits_lsb_eq_Nil: "2 \<le> r \<Longrightarrow> digits_lsb r v = [] \<longleftrightarrow> v = 0"
  by (subst digits_lsb.simps) auto

lemma digits_lsb_small: "2 \<le> r \<Longrightarrow> \<forall>d \<in> set (digits_lsb r v). d < r"
  by (induction r v rule: digits_lsb.induct) (subst digits_lsb.simps, auto)

lemma digits_lsb_length: "2 \<le> r \<Longrightarrow> v < r ^ n \<Longrightarrow> length (digits_lsb r v) \<le> n"
proof (induction n arbitrary: v)
  case 0
  then show ?case by (simp add: digits_lsb.simps)
next
  case (Suc n)
  then have "v div r < r ^ n" by (simp add: less_mult_imp_div_less mult.commute)
  with Suc show ?case by (subst digits_lsb.simps) auto
qed

lemma digits_lsb_last: "2 \<le> r \<Longrightarrow> v \<noteq> 0 \<Longrightarrow> last (digits_lsb r v) \<noteq> 0"
proof (induction r v rule: digits_lsb.induct)
  case (1 r v)
  then show ?case
    by (cases "v div r = 0") (simp_all add: digits_lsb.simps [of r v] digits_lsb.simps [of r 0] div_eq_0_iff
        digits_lsb_eq_Nil)
qed

lemma numeral_val_snoc: "numeral_val r (ds @ [c]) = numeral_val r ds * r + digit_val c"
  by (simp add: numeral_val_def)

lemma numeral_val_rev_digits:
  "2 \<le> r \<Longrightarrow> r \<le> 36 \<Longrightarrow> numeral_val r (rev (map ((!) lookup) (digits_lsb r v))) = v"
proof (induction r v rule: digits_lsb.induct)
  case (1 r v)
  show ?case
  proof (cases "v = 0")
    case True
    then show ?thesis by (simp add: digits_lsb.simps numeral_val_def)
  next
    case False
    have small: "v mod r < 36" using 1(2,3) mod_less_divisor [of r v] by linarith
    have ds: "digits_lsb r v = (v mod r) # digits_lsb r (v div r)"
      using False 1(2) by (subst digits_lsb.simps) simp
    have IH: "numeral_val r (rev (map ((!) lookup) (digits_lsb r (v div r)))) = v div r"
      using 1 False by simp
    show ?thesis unfolding ds using small IH by (simp add: numeral_val_snoc)
  qed
qed

lemma itoa_loop_eq:
  assumes "2 \<le> unat r" "unat r \<le> 36"
    and "pos + length (digits_lsb (unat r) (unat v)) \<le> length buf"
  shows "itoa_loop v buf pos r =
    Some (take pos buf @ map ((!) lookup) (digits_lsb (unat r) (unat v))
            @ drop (pos + length (digits_lsb (unat r) (unat v))) buf,
          pos + length (digits_lsb (unat r) (unat v)))"
  using assms
proof (induction v buf pos r rule: itoa_loop.induct [case_names step])
  case (step v buf pos r)
  show ?case
  proof (cases "v = 0")
    case True
    then show ?thesis by (subst itoa_loop.simps) (simp add: digits_lsb.simps)
  next
    case False
    let ?d = "unat v mod unat r" and ?ds = "digits_lsb (unat r) (unat (v div r))"
    from False have v0: "v > 0" "unat v \<noteq> 0" by (simp_all add: word_gt_0 unat_eq_zero)
    from step.prems have r0: "r \<noteq> 0" by auto
    have ds: "digits_lsb (unat r) (unat v) = ?d # ?ds"
      using v0 step.prems(1) by (subst digits_lsb.simps) (simp add: unat_div)
    have d: "?d < 36" using step.prems mod_less_divisor [of "unat r" "unat v"] by linarith
    have look: "rd lookup (unat (v mod r)) = Some (lookup ! ?d)"
      using d by (simp add: unat_mod lookup_36)
    have pos: "pos < length buf" using step.prems(3) by (simp add: ds)
    have "itoa_loop (v div r) (buf[pos := lookup ! ?d]) (Suc pos) r =
      Some (take (Suc pos) (buf[pos := lookup ! ?d]) @ map ((!) lookup) ?ds
             @ drop (Suc pos + length ?ds) (buf[pos := lookup ! ?d]), Suc pos + length ?ds)"
      by (rule step.IH [OF v0(1) r0 look pos]) (use step.prems ds in auto)
    then show ?thesis
      using v0 r0 look pos
      by (subst itoa_loop.simps) (simp add: ds take_Suc_conv_app_nth)
  qed
qed

lemma itoa_eq:
  assumes "2 \<le> unat r" "unat r \<le> 36" "v \<noteq> 0"
    and "length (digits_lsb (unat r) (unat v)) < length buf"
  shows "itoa v buf r =
    Some (rev (map ((!) lookup) (digits_lsb (unat r) (unat v)))
            @ 0 # drop (Suc (length (digits_lsb (unat r) (unat v)))) buf)"
proof -
  let ?ds = "map ((!) lookup) (digits_lsb (unat r) (unat v))"
  have z: "0 \<notin> set ?ds"
    using digits_lsb_small [OF assms(1), of "unat v"] assms(2) by (force simp: image_iff)
  have "(?ds @ drop (length ?ds) buf)[length ?ds := 0] = ?ds @ 0 # drop (Suc (length ?ds)) buf"
    using assms(4) by (simp add: list_update_append Cons_nth_drop_Suc [symmetric])
  with z show ?thesis
    using assms by (simp add: itoa_def itoa_loop_eq strrev_nul)
qed

text \<open>
  C39. \<open>itoa\<close> is correct for every radix the table supports: in a buffer with room for \<open>n\<close> digits
  and the NUL, the text it leaves denotes the number, has at most \<open>n\<close> digits, and has no leading
  zero; the rest of the buffer is untouched.
\<close>

theorem itoa_roundtrip:
  assumes "2 \<le> unat r" "unat r \<le> 36" "unat v < unat r ^ n" "0 < n" "n < length buf"
  shows "\<exists>s. itoa v buf r = Some (s @ 0 # drop (Suc (length s)) buf) \<and> 0 \<notin> set s \<and> length s \<le> n
     \<and> s \<noteq> [] \<and> numeral_val (unat r) s = unat v \<and> (hd s = of_char (CHR ''0'') \<longrightarrow> v = 0)"
proof (cases "v = 0")
  case True
  then have "itoa v buf r = Some ([of_char (CHR ''0'')] @ 0 # drop (Suc (Suc 0)) buf)"
    using assms(4,5) by (cases buf; cases "tl buf") (auto simp: itoa_def)
  with True assms(4) show ?thesis
    by (intro exI [of _ "[of_char (CHR ''0'')]"]) (simp add: numeral_val_def digit_val_def)
next
  case False
  let ?ds = "digits_lsb (unat r) (unat v)"
  let ?s = "rev (map ((!) lookup) ?ds)"
  have len: "length ?ds \<le> n" using assms by (simp add: digits_lsb_length)
  have "itoa v buf r = Some (?s @ 0 # drop (Suc (length ?s)) buf)"
    using assms False len by (simp add: itoa_eq)
  moreover have "0 \<notin> set ?s"
    using digits_lsb_small [OF assms(1), of "unat v"] assms(2) by (force simp: image_iff)
  moreover have "?ds \<noteq> []" using False assms(1) by (subst digits_lsb.simps) (simp add: unat_eq_zero)
  moreover have "hd ?s \<noteq> of_char (CHR ''0'')"
  proof -
    have l: "last ?ds \<noteq> 0" using digits_lsb_last [OF assms(1), of "unat v"] False by (simp add: unat_eq_zero)
    have "last ?ds < 36"
      using digits_lsb_small [OF assms(1), of "unat v"] assms(2) last_in_set [OF \<open>?ds \<noteq> []\<close>] by fastforce
    then have "digit_val (hd ?s) = last ?ds" using \<open>?ds \<noteq> []\<close> by (simp add: hd_rev last_map)
    with l show ?thesis by (auto simp: digit_val_def)
  qed
  ultimately show ?thesis using assms len by (intro exI [of _ ?s]) (simp add: numeral_val_rev_digits)
qed

theorem itoa_roundtrip_witness:
  "\<exists>s. itoa 4096 (replicate 12 7) 10 = Some (s @ 0 # drop (Suc (length s)) (replicate 12 7)) \<and> 0 \<notin> set s
     \<and> length s \<le> 10 \<and> s \<noteq> [] \<and> numeral_val 10 s = 4096"
  using itoa_roundtrip [of 10 4096 10 "replicate 12 7"] by auto

subsection \<open>Comparison and copying\<close>

lemma strncmp_total:
  "0 \<in> set s1 \<Longrightarrow> 0 \<in> set s2 \<Longrightarrow> \<exists>d. strncmp s1 s2 n = Some d"
  by (induction s1 s2 n rule: strncmp.induct) auto

lemma strncmp_0_iff:
  "strncmp s1 s2 n = Some d \<Longrightarrow> d = 0 \<longleftrightarrow> take n (cstr s1) = take n (cstr s2)"
proof (induction s1 s2 n arbitrary: d rule: strncmp.induct)
  case (2 a s1 b s2 n)
  show ?case
  proof (cases "a \<noteq> b \<or> a = 0")
    case True
    have inj: "sint a - sint b = 0 \<longleftrightarrow> a = b" by (auto intro: signed_word_eqI)
    from True "2.prems" have "d = sint a - sint b" by simp
    with True inj show ?thesis by (auto simp: cstr_def)
  next
    case False
    with 2 show ?thesis by (auto simp: cstr_def)
  qed
qed simp_all

lemma strncmp_sign:
  "strncmp s1 s2 n = Some d \<Longrightarrow> d \<noteq> 0 \<Longrightarrow>
   \<exists>i < n. take i s1 = take i s2 \<and> i < length s1 \<and> i < length s2 \<and> d = sint (s1 ! i) - sint (s2 ! i)"
proof (induction s1 s2 n arbitrary: d rule: strncmp.induct)
  case (2 a s1 b s2 n)
  show ?case
  proof (cases "a \<noteq> b \<or> a = 0")
    case True
    with "2.prems" show ?thesis by (intro exI [of _ 0]) auto
  next
    case False
    with "2.prems" have "strncmp s1 s2 n = Some d" by simp
    from "2.IH" [OF False this "2.prems"(2)] obtain i where
      "i < n" "take i s1 = take i s2" "i < length s1" "i < length s2" "d = sint (s1 ! i) - sint (s2 ! i)"
      by blast
    with False show ?thesis by (intro exI [of _ "Suc i"]) auto
  qed
qed simp_all

text \<open>
  \<open>strncmp\<close> on two terminated strings always returns; it returns 0 exactly when the first \<open>n\<close>
  characters of the two strings agree, and otherwise the signed difference at the first position
  where they differ.
\<close>

theorem strncmp_correct:
  assumes "0 \<in> set s1" "0 \<in> set s2"
  shows "\<exists>d. strncmp s1 s2 n = Some d \<and> (d = 0 \<longleftrightarrow> take n (cstr s1) = take n (cstr s2))
     \<and> (d \<noteq> 0 \<longrightarrow> (\<exists>i < n. take i s1 = take i s2 \<and> d = sint (s1 ! i) - sint (s2 ! i)))"
proof -
  from strncmp_total [OF assms] obtain d where d: "strncmp s1 s2 n = Some d" ..
  with strncmp_0_iff [OF d] strncmp_sign [OF d] show ?thesis by blast
qed

theorem strncmp_correct_witness:
  "\<exists>d. strncmp [104, 105, 0] [104, 111, 0] 3 = Some d \<and> d \<noteq> 0"
  using strncmp_correct [of "[104, 105, 0]" "[104, 111, 0]" 3] by (auto simp: cstr_def)

lemma strcpy_eq:
  "0 \<notin> set s \<Longrightarrow> length s < length dest \<Longrightarrow>
   strcpy dest (s @ 0 # r) = Some (s @ 0 # drop (Suc (length s)) dest)"
proof (induction s arbitrary: dest)
  case Nil
  then show ?case by (cases dest) auto
next
  case (Cons c s)
  then show ?case by (cases dest) auto
qed

lemma strcpy_overflow:
  "0 \<notin> set s \<Longrightarrow> length dest \<le> length s \<Longrightarrow> strcpy dest (s @ 0 # r) = None"
proof (induction s arbitrary: dest)
  case Nil
  then show ?case by simp
next
  case (Cons c s)
  then show ?case by (cases dest) auto
qed

lemma strncpy_pad_eq: "n \<le> length dest \<Longrightarrow> strncpy_pad dest n = Some (replicate n 0 @ drop n dest)"
  by (induction dest n rule: strncpy_pad.induct) auto

lemma strncpy_short:
  "0 \<notin> set s \<Longrightarrow> length s \<le> n \<Longrightarrow> n \<le> length dest \<Longrightarrow>
   strncpy dest (s @ 0 # r) n = Some (s @ replicate (n - length s) 0 @ drop n dest)"
proof (induction s arbitrary: dest n)
  case Nil
  then show ?case by (simp add: strncpy_pad_eq)
next
  case (Cons c s)
  then obtain d ds m where "dest = d # ds" "n = Suc m" by (cases dest; cases n) auto
  with Cons show ?case by simp
qed

lemma strncpy_long:
  "0 \<notin> set s \<Longrightarrow> length s = n \<Longrightarrow> n \<le> length dest \<Longrightarrow>
   strncpy dest (s @ c # r) n = Some (s @ drop n dest)"
proof (induction s arbitrary: dest n)
  case Nil
  then show ?case by simp
next
  case (Cons x s)
  then obtain d ds m where "dest = d # ds" "n = Suc m" by (cases dest; cases n) auto
  with Cons show ?case by simp
qed

text \<open>
  \<open>strncpy\<close> reads one byte too many: given a source of exactly \<open>n\<close> characters and nothing after
  them, which the C library's contract allows, it reads \<open>src[n]\<close>, outside the source, before it
  notices that \<open>n\<close> characters are copied.
\<close>

theorem strncpy_overread:
  assumes "0 \<notin> set s"
  shows "strncpy (s @ dest) s (length s) = None"
proof -
  have "strncpy (ds @ dest) s (length s) = None" if "length ds = length s" for ds
    using assms that
  proof (induction s arbitrary: ds)
    case (Cons c s)
    then obtain d ds' where "ds = d # ds'" by (cases ds) auto
    with Cons show ?case by simp
  qed simp
  then show ?thesis by simp
qed

theorem strncpy_overread_witness: "strncpy [65, 66, 0] [65, 66] 2 = None"
  using strncpy_overread [of "[65, 66]" "[0]"] by simp

end
