(* ===== verification/File_System.thy ===== *)
theory File_System
  imports Lib_String
begin

text \<open>
  The read-only file system, \<^verbatim>\<open>code/file_system.c\<close>, \<^verbatim>\<open>code/file.c\<close> and
  \<^verbatim>\<open>code/directory.c\<close>.  The image is the list of its bytes from \<open>fs_addr\<close> on; block 0 is the
  boot block, block \<open>1 + i\<close> the inode \<open>i\<close>, and the data blocks follow the inodes.  Structure members are
  read at their byte offsets, a 32-bit one as four bytes in little-endian order, and block addresses
  are computed at 32 bits as in the code.  A read outside the image is \<open>None\<close>.

  The specification views the image as a sequence of directory entries and a content for every
  inode; \<open>byte_reader\<close> is the interface a client of \<open>read_data\<close> relies on.
\<close>

record dentry_t =
  file_name :: buf
  file_type :: u32
  inode_num :: u32

abbreviation BLOCK_SIZE :: u32 where "BLOCK_SIZE \<equiv> 4096"
abbreviation MAX_STR_LENGTH :: nat where "MAX_STR_LENGTH \<equiv> 32"

definition rd32 :: "buf \<Rightarrow> nat \<Rightarrow> u32 option" where
  "rd32 img a = do {
     b0 \<leftarrow> rd img a; b1 \<leftarrow> rd img (a + 1); b2 \<leftarrow> rd img (a + 2); b3 \<leftarrow> rd img (a + 3);
     Some (le32 b0 b1 b2 b3) }"

definition num_dir_entries :: "buf \<Rightarrow> u32 option" where "num_dir_entries img = rd32 img 0"
definition num_inodes :: "buf \<Rightarrow> u32 option" where "num_inodes img = rd32 img 4"
definition num_data_blocks :: "buf \<Rightarrow> u32 option" where "num_data_blocks img = rd32 img 8"

text \<open>The address of \<open>boot_block->dir_entries[i]\<close>, as an offset into the image.\<close>

definition dentry_off :: "nat \<Rightarrow> nat" where
  "dentry_off i = 64 + 64 * i"

definition rd_dentry :: "buf \<Rightarrow> nat \<Rightarrow> dentry_t option" where
  "rd_dentry img i = do {
     _ \<leftarrow> rd img (dentry_off i + 63);
     ft \<leftarrow> rd32 img (dentry_off i + 32);
     ino \<leftarrow> rd32 img (dentry_off i + 36);
     Some \<lparr>file_name = take 32 (drop (dentry_off i) img), file_type = ft, inode_num = ino\<rparr> }"

text \<open>The result of the two lookups: \<open>Inl\<close> is the return value \<open>-1\<close>, \<open>Inr\<close> the copied entry and \<open>0\<close>.\<close>

definition read_dentry_by_index :: "buf \<Rightarrow> u32 \<Rightarrow> (int + dentry_t) option" where
  "read_dentry_by_index img index = do {
     n \<leftarrow> num_dir_entries img;
     if index \<ge> n then Some (Inl (-1))
     else do { d \<leftarrow> rd_dentry img (unat index); Some (Inr d) } }"

text \<open>
  The search loop over the entries \<open>i\<close> below the count.  \<open>strlen\<close> of an entry's name runs on into the
  following bytes of the image when the name fills its 32 bytes.
\<close>

function dentry_search :: "buf \<Rightarrow> buf \<Rightarrow> nat \<Rightarrow> nat \<Rightarrow> (int + dentry_t) option" where
  "dentry_search img fname i n =
     (if i < n then do {
        l \<leftarrow> strlen (drop (dentry_off i) img);
        let search_str_len = (if MAX_STR_LENGTH < l then MAX_STR_LENGTH else l);
        fl \<leftarrow> strlen fname;
        let str_len = (if fl < search_str_len then search_str_len else fl);
        c \<leftarrow> strncmp fname (drop (dentry_off i) img) str_len;
        if c = 0 then read_dentry_by_index img (of_nat i)
        else dentry_search img fname (Suc i) n }
      else Some (Inl (-1)))"
  by pat_completeness auto
termination
  by (relation "measure (\<lambda>(img, fname, i, n). n - i)") auto

definition read_dentry_by_name :: "buf \<Rightarrow> buf \<Rightarrow> (int + dentry_t) option" where
  "read_dentry_by_name img fname = do {
     l \<leftarrow> strlen fname;
     if l > MAX_STR_LENGTH \<or> l \<le> 0 then Some (Inl (-1))
     else do { n \<leftarrow> num_dir_entries img; dentry_search img fname 0 (unat n) } }"

text \<open>The address of data block \<open>b\<close> and of entry \<open>k\<close> of an inode's block table.\<close>

definition dblock_addr :: "u32 \<Rightarrow> u32 \<Rightarrow> u32" where
  "dblock_addr ninodes b = (1 + ninodes + b) * BLOCK_SIZE"

definition rd_dblock_index :: "buf \<Rightarrow> u32 \<Rightarrow> u32 \<Rightarrow> u32 option" where
  "rd_dblock_index img inode k = rd32 img (unat ((inode + 1) * BLOCK_SIZE) + 4 + 4 * unat k)"

text \<open>
  The copy loop of \<open>read_data\<close>: \<open>cur\<close> is the address of the current data block.  The loop variable is
  compared and added at 32 bits.  The result is the final \<open>i\<close> with the bytes stored to \<open>buf\<close>.
\<close>

function read_loop ::
    "buf \<Rightarrow> u32 \<Rightarrow> u32 \<Rightarrow> u32 \<Rightarrow> u32 \<Rightarrow> u32 \<Rightarrow> u32 \<Rightarrow> u32 \<Rightarrow> (u32 \<times> buf) option" where
  "read_loop img ninodes inode file_length offset len cur i =
     (if i < len \<and> i + offset < file_length then do {
        cur \<leftarrow> (if (i + offset) mod BLOCK_SIZE = 0
                then map_option (dblock_addr ninodes) (rd_dblock_index img inode ((i + offset) div BLOCK_SIZE))
                else Some cur);
        b \<leftarrow> rd img (unat cur + unat ((i + offset) mod BLOCK_SIZE));
        (r, bs) \<leftarrow> read_loop img ninodes inode file_length offset len cur (i + 1);
        Some (r, b # bs) }
      else Some (i, []))"
  by pat_completeness auto
termination
proof (relation "measure (\<lambda>(img, ninodes, inode, fl, off, len, cur, i). unat len - unat i)")
  fix len i off fl :: u32
  assume "i < len \<and> i + off < fl"
  then have "unat i < unat len" by (simp add: word_less_nat_alt)
  moreover from this have "unat (i + 1) = Suc (unat i)"
    using unat_u32_bound [of len] by (intro unat_Suc_u32) linarith
  ultimately show "((img, ninodes, inode, fl, off, len, cur', i + 1), img, ninodes, inode, fl, off, len, cur, i)
      \<in> measure (\<lambda>(img, ninodes, inode, fl, off, len, cur, i). unat len - unat i)" for img ninodes inode cur cur'
    by simp
qed simp

declare dentry_search.simps [simp del] read_loop.simps [simp del]

definition read_data :: "buf \<Rightarrow> u32 \<Rightarrow> u32 \<Rightarrow> u32 \<Rightarrow> (int \<times> buf) option" where
  "read_data img inode offset len = do {
     ninodes \<leftarrow> num_inodes img;
     if inode \<ge> ninodes then Some (-1, [])
     else do {
       file_length \<leftarrow> rd32 img (unat ((inode + 1) * BLOCK_SIZE));
       if offset > file_length then Some (-1, [])
       else do {
         b \<leftarrow> rd_dblock_index img inode (offset div BLOCK_SIZE);
         (r, bs) \<leftarrow> read_loop img ninodes inode file_length offset len (dblock_addr ninodes b) 0;
         Some (sint r, bs) } } }"

subsection \<open>Files and directories\<close>

definition file_write :: "buf \<Rightarrow> int \<Rightarrow> int" where
  "file_write b nbytes = -1"

text \<open>\<open>dentry_ptr\<close> of \<^verbatim>\<open>file.c\<close> is never assigned, so a successful lookup copies the entry to address 0.\<close>

definition file_open :: "buf \<Rightarrow> buf \<Rightarrow> int option" where
  "file_open img fname = do {
     r \<leftarrow> read_dentry_by_name img fname;
     case r of Inl e \<Rightarrow> Some e | Inr d \<Rightarrow> None }"

definition file_close :: int where
  "file_close = 0"

text \<open>\<open>file_read\<close> gets the descriptor's inode number and position; \<open>count\<close> is a C \<open>int\<close>.\<close>

definition file_read :: "buf \<Rightarrow> u32 \<Rightarrow> u32 \<Rightarrow> int \<Rightarrow> (int \<times> buf) option" where
  "file_read img inode file_pos count =
     (if count < 0 then Some (-1, []) else read_data img inode file_pos (word_of_int count))"

text \<open>
  \<open>dir_read\<close> returns the value, the bytes it stores to \<open>buf\<close> and the new \<open>read_index\<close>.  It stores 33
  bytes whatever the requested count is.
\<close>

definition dir_read :: "buf \<Rightarrow> u32 \<Rightarrow> int \<Rightarrow> (int \<times> buf \<times> u32) option" where
  "dir_read img read_index nbytes = do {
     r \<leftarrow> read_dentry_by_index img read_index;
     case r of
       Inl _ \<Rightarrow> Some (0, [], read_index)
     | Inr d \<Rightarrow> do {
         let out = file_name d @ [0];
         l \<leftarrow> strlen out;
         Some (int l, out, read_index + 1) } }"

definition dir_write :: "buf \<Rightarrow> int \<Rightarrow> int" where
  "dir_write b nbytes = -1"

text \<open>\<open>dir_open\<close> and \<open>dir_close\<close> return the new \<open>read_index\<close>.\<close>

definition dir_open :: "buf \<Rightarrow> buf \<Rightarrow> (int \<times> u32) option" where
  "dir_open img dir_name = do {
     r \<leftarrow> read_dentry_by_name img dir_name;
     Some (case r of Inl e \<Rightarrow> e | Inr _ \<Rightarrow> 0, 0) }"

definition dir_close :: "int \<times> u32" where
  "dir_close = (0, 0)"

text \<open>
  The abstract view of an image: its size parameters, the content of an inode, the names of the
  directory, and when an image is well formed.
\<close>

definition img32 :: "buf \<Rightarrow> nat \<Rightarrow> nat" where
  "img32 img a = (case rd32 img a of Some v \<Rightarrow> unat v | None \<Rightarrow> 0)"

definition file_len :: "buf \<Rightarrow> nat \<Rightarrow> nat" where
  "file_len img ino = img32 img ((ino + 1) * 4096)"

definition file_block :: "buf \<Rightarrow> nat \<Rightarrow> nat \<Rightarrow> nat" where
  "file_block img ino k = img32 img ((ino + 1) * 4096 + 4 + 4 * k)"

definition content_byte :: "buf \<Rightarrow> nat \<Rightarrow> nat \<Rightarrow> u8" where
  "content_byte img ino k = img ! ((1 + img32 img 4 + file_block img ino (k div 4096)) * 4096 + k mod 4096)"

definition file_content :: "buf \<Rightarrow> nat \<Rightarrow> buf" where
  "file_content img ino = map (content_byte img ino) [0..<file_len img ino]"

definition inode_ok :: "buf \<Rightarrow> nat \<Rightarrow> bool" where
  "inode_ok img ino \<longleftrightarrow> file_len img ino \<le> 1023 * 4096
     \<and> list_all (\<lambda>k. file_block img ino k < img32 img 8) [0..<(file_len img ino + 4095) div 4096]"

definition fs_wf :: "buf \<Rightarrow> bool" where
  "fs_wf img \<longleftrightarrow> length img = (1 + img32 img 4 + img32 img 8) * 4096 \<and> length img < 4294967296
     \<and> img32 img 0 \<le> 63 \<and> 0 < img32 img 4 \<and> list_all (inode_ok img) [0..<img32 img 4]"

definition entry_name :: "buf \<Rightarrow> nat \<Rightarrow> buf" where
  "entry_name img i = cstr (take 32 (drop (dentry_off i) img))"

definition dir_names :: "buf \<Rightarrow> buf list" where
  "dir_names img = map (entry_name img) [0..<img32 img 0]"

text \<open>
  The read loop of a client such as \<open>cat\<close>: read, stop at the end of the file, otherwise advance the
  position by what was read, as \<open>sys_read\<close> does.  One unit of fuel per read.
\<close>

fun read_chunks :: "(u32 \<Rightarrow> (int \<times> buf) option) \<Rightarrow> nat \<Rightarrow> u32 \<Rightarrow> buf option" where
  "read_chunks r 0 pos = None"
| "read_chunks r (Suc fuel) pos = do {
     (k, bs) \<leftarrow> r pos;
     if k \<le> 0 then Some []
     else do { rest \<leftarrow> read_chunks r fuel (pos + word_of_int k); Some (bs @ rest) } }"

text \<open>The listing loop of a client such as \<open>ls\<close>: the first \<open>cnt\<close> bytes of every buffer, until \<open>0\<close>.\<close>

fun dir_list :: "buf \<Rightarrow> nat \<Rightarrow> u32 \<Rightarrow> (buf list \<times> u32) option" where
  "dir_list img 0 idx = None"
| "dir_list img (Suc fuel) idx = do {
     (cnt, out, idx') \<leftarrow> dir_read img idx 32;
     if cnt \<le> 0 then Some ([], idx')
     else do { (ns, i) \<leftarrow> dir_list img fuel idx'; Some (take (nat cnt) out # ns, i) } }"

text \<open>A small image: one directory entry, the file \<open>hi\<close>, which holds the three bytes \<open>ABC\<close>.\<close>

definition tiny_img :: buf where
  "tiny_img = [1, 0, 0, 0, 1, 0, 0, 0, 1, 0, 0, 0] @ replicate 52 0
     @ [104, 105] @ replicate 30 0 @ [2, 0, 0, 0, 0, 0, 0, 0] @ replicate 3992 0
     @ [3, 0, 0, 0, 0, 0, 0, 0] @ replicate 4088 0
     @ [65, 66, 67] @ replicate 4093 0"

text \<open>The entry a directory search should find: the first of that name.\<close>

definition lookup_entry :: "buf \<Rightarrow> buf \<Rightarrow> nat option" where
  "lookup_entry img name = List.find (\<lambda>i. entry_name img i = name) [0..<img32 img 0]"

subsection \<open>Reading the image\<close>

lemma rd32_in: "a + 3 < length img \<Longrightarrow> rd32 img a = Some (of_nat (img32 img a))"
  by (simp add: rd32_def img32_def)

lemma img32_bound [simp]: "img32 img a < 4294967296"
  by (simp add: img32_def split: option.split)

lemma fs_wf_length:
  assumes "fs_wf img"
  shows "length img = 4096 + img32 img 4 * 4096 + img32 img 8 * 4096" "length img < 4294967296"
  using assms by (simp_all add: fs_wf_def algebra_simps)

lemma fs_wf_counts:
  assumes "fs_wf img"
  shows "num_dir_entries img = Some (of_nat (img32 img 0))" "num_inodes img = Some (of_nat (img32 img 4))"
    "4096 \<le> length img"
  using fs_wf_length [OF assms] by (auto simp: num_dir_entries_def num_inodes_def rd32_in)

lemma fs_wf_inode: "fs_wf img \<Longrightarrow> ino < img32 img 4 \<Longrightarrow> inode_ok img ino"
  by (simp add: fs_wf_def list_all_iff)

lemma inode_okD:
  assumes "inode_ok img ino"
  shows "file_len img ino \<le> 4190208" "k * 4096 < file_len img ino \<Longrightarrow> file_block img ino k < img32 img 8"
  using assms by (auto simp: inode_ok_def list_all_iff)

lemma unat_mult_4096: "n * 4096 < 4294967296 \<Longrightarrow> unat ((of_nat n :: u32) * 4096) = n * 4096"
  using unat_of_nat_u32 [of "n * 4096"] by simp

lemma inode_addr:
  assumes "fs_wf img" "unat inode < img32 img 4"
  shows "unat ((inode + 1) * BLOCK_SIZE) = (unat inode + 1) * 4096" (is ?a)
    and "rd32 img (unat ((inode + 1) * BLOCK_SIZE)) = Some (of_nat (file_len img (unat inode)))" (is ?b)
proof -
  have l: "(unat inode + 1) * 4096 + 4096 \<le> length img" "length img < 4294967296"
    using assms fs_wf_length [OF assms(1)] by simp_all
  have "unat ((of_nat (unat inode + 1) :: u32) * 4096) = (unat inode + 1) * 4096"
    using l by (intro unat_mult_4096) linarith
  then show ?a by (simp add: add.commute)
  then show ?b using l by (simp add: rd32_in file_len_def)
qed

lemma rd_dblock_index_in:
  assumes "fs_wf img" "unat inode < img32 img 4" "unat k * 4096 \<le> file_len img (unat inode)"
  shows "rd_dblock_index img inode k = Some (of_nat (file_block img (unat inode) (unat k)))"
proof -
  note ok = inode_okD [OF fs_wf_inode [OF assms(1,2)]]
  note l = fs_wf_length [OF assms(1)]
  have "(unat inode + 1) * 4096 + 4 + 4 * unat k + 3 < length img"
  proof (cases "unat k = 1023")
    case True
    then have "0 * 4096 < file_len img (unat inode)" using assms(3) by simp
    then have "0 < img32 img 8" using ok(2) [of 0] by simp
    then show ?thesis using True l assms(2) by simp
  next
    case False
    then have "unat k < 1023" using assms(3) ok(1) by linarith
    then show ?thesis using l assms(2) by simp
  qed
  then show ?thesis
    unfolding rd_dblock_index_def inode_addr(1) [OF assms(1,2)] by (simp add: rd32_in file_block_def)
qed

lemma dblock_addr_in:
  assumes "fs_wf img" "b < img32 img 8"
  shows "unat (dblock_addr (of_nat (img32 img 4)) (of_nat b)) = (1 + img32 img 4 + b) * 4096"
    and "(1 + img32 img 4 + b) * 4096 + 4095 < length img"
proof -
  have l: "(1 + img32 img 4 + b) * 4096 + 4095 < length img" "length img < 4294967296"
    using assms(2) fs_wf_length [OF assms(1)] by simp_all
  then show "(1 + img32 img 4 + b) * 4096 + 4095 < length img" by simp
  have "unat ((of_nat (1 + img32 img 4 + b) :: u32) * 4096) = (1 + img32 img 4 + b) * 4096"
    using l by (intro unat_mult_4096) linarith
  then show "unat (dblock_addr (of_nat (img32 img 4)) (of_nat b)) = (1 + img32 img 4 + b) * 4096"
    by (simp add: dblock_addr_def add.assoc)
qed

text \<open>The address of a file's byte \<open>p\<close> in the image, by way of its block.\<close>

lemma content_rd:
  assumes "fs_wf img" "ino < img32 img 4" "p < file_len img ino"
  shows "rd img (unat (dblock_addr (of_nat (img32 img 4)) (of_nat (file_block img ino (p div 4096)))) + p mod 4096)
    = Some (content_byte img ino p)"
proof -
  have "p div 4096 * 4096 < file_len img ino" using assms(3) by (metis div_times_less_eq_dividend le_less_trans)
  then have b: "file_block img ino (p div 4096) < img32 img 8"
    using inode_okD(2) [OF fs_wf_inode [OF assms(1,2)]] by blast
  have "p mod 4096 \<le> 4095" by simp
  then have "(1 + img32 img 4 + file_block img ino (p div 4096)) * 4096 + p mod 4096 < length img"
    using dblock_addr_in(2) [OF assms(1) b] by linarith
  then show ?thesis using dblock_addr_in(1) [OF assms(1) b] by (simp add: content_byte_def)
qed

lemma length_file_content [simp]: "length (file_content img ino) = file_len img ino"
  by (simp add: file_content_def)

lemma nth_file_content [simp]: "p < file_len img ino \<Longrightarrow> file_content img ino ! p = content_byte img ino p"
  by (simp add: file_content_def)

lemma read_loop_eq:
  fixes inode offset len i :: u32
  assumes wf: "fs_wf img" "unat inode < img32 img 4"
  defines "ino \<equiv> unat inode"
  defines "fl \<equiv> file_len img ino"
  assumes "unat i \<le> unat len" "unat i + unat offset \<le> fl"
    and "(unat i + unat offset) mod 4096 \<noteq> 0 \<Longrightarrow>
      cur = dblock_addr (of_nat (img32 img 4)) (of_nat (file_block img ino ((unat i + unat offset) div 4096)))"
  shows "read_loop img (of_nat (img32 img 4)) inode (of_nat fl) offset len cur i =
    (let bs = take (unat len - unat i) (drop (unat i + unat offset) (file_content img ino))
     in Some (i + of_nat (length bs), bs))"
  using assms(5-)
proof (induction "unat len - unat i" arbitrary: i cur)
  case (0 i cur)
  then show ?case by (subst read_loop.simps) (simp add: word_less_nat_alt)
next
  case (Suc n i cur)
  let ?p = "unat i + unat offset"
  have fl: "fl < 4294967296" by (simp add: fl_def file_len_def)
  have lt: "unat i < unat len" using Suc.hyps by simp
  have u: "unat (i + offset) = ?p" using Suc.prems fl by (subst unat_add_lem [THEN iffD1]) auto
  show ?case
  proof (cases "?p < fl")
    case False
    then have "\<not> i + offset < of_nat fl" using u fl by (simp add: word_less_nat_alt)
    with False show ?thesis by (subst read_loop.simps) (simp add: fl_def)
  next
    case True
    let ?cur = "dblock_addr (of_nat (img32 img 4)) (of_nat (file_block img ino (?p div 4096)))"
    have i1: "unat (i + 1) = Suc (unat i)"
      using lt unat_u32_bound [of len] by (intro unat_Suc_u32) linarith
    have "?p div 4096 * 4096 \<le> fl" using True by (metis div_times_less_eq_dividend le_trans less_imp_le)
    then have blk: "rd_dblock_index img inode ((i + offset) div BLOCK_SIZE) = Some (of_nat (file_block img ino (?p div 4096)))"
      using rd_dblock_index_in [OF wf, of "(i + offset) div BLOCK_SIZE"] u by (simp add: unat_div fl_def ino_def)
    have mod: "unat ((i + offset) mod BLOCK_SIZE) = ?p mod 4096" using u by (simp add: unat_mod)
    then have m: "(i + offset) mod BLOCK_SIZE = 0 \<longleftrightarrow> ?p mod 4096 = 0" by (metis unat_eq_0)
    from mod have byte: "rd img (unat ?cur + unat ((i + offset) mod BLOCK_SIZE)) = Some (content_byte img ino ?p)"
      using content_rd [of img ino ?p] wf True by (simp add: fl_def ino_def)
    have cur: "(if (i + offset) mod BLOCK_SIZE = 0
        then map_option (dblock_addr (of_nat (img32 img 4))) (rd_dblock_index img inode ((i + offset) div BLOCK_SIZE))
        else Some cur) = Some ?cur"
      using blk m Suc.prems(3) by auto
    have "Suc ?p div 4096 = ?p div 4096" if "Suc ?p mod 4096 \<noteq> 0" using that by (simp add: div_Suc)
    then have IH: "read_loop img (of_nat (img32 img 4)) inode (of_nat fl) offset len ?cur (i + 1) =
      (let bs = take (unat len - Suc (unat i)) (drop (Suc ?p) (file_content img ino))
       in Some (i + 1 + of_nat (length bs), bs))"
      using Suc.hyps Suc.prems lt True i1 by (subst Suc.hyps(1)) auto
    have step: "take (unat len - unat i) (drop ?p (file_content img ino)) =
      content_byte img ino ?p # take (unat len - Suc (unat i)) (drop (Suc ?p) (file_content img ino))"
      using True lt by (simp add: fl_def take_Cons' Cons_nth_drop_Suc [symmetric])
    have "i < len \<and> i + offset < of_nat fl" using lt True u fl by (simp add: word_less_nat_alt)
    with cur byte IH show ?thesis
      unfolding step by (subst read_loop.simps) (simp add: Let_def algebra_simps)
  qed
qed

lemma read_data_bad_inode: "fs_wf img \<Longrightarrow> img32 img 4 \<le> unat inode \<Longrightarrow> read_data img inode offset len = Some (-1, [])"
  by (simp add: read_data_def fs_wf_counts word_le_nat_alt)

lemma read_data_eq:
  assumes "fs_wf img" "unat inode < img32 img 4"
  shows "read_data img inode offset len =
    (if file_len img (unat inode) < unat offset then Some (-1, [])
     else let bs = take (unat len) (drop (unat offset) (file_content img (unat inode)))
          in Some (int (length bs), bs))"
proof (cases "file_len img (unat inode) < unat offset")
  case True
  moreover have "file_len img (unat inode) < 4294967296" by (simp add: file_len_def)
  ultimately have "offset > of_nat (file_len img (unat inode))" by (simp add: word_less_nat_alt)
  with True show ?thesis
    using assms inode_addr(2) [OF assms] by (simp add: read_data_def fs_wf_counts word_le_nat_alt)
next
  case False
  let ?ino = "unat inode" and ?bs = "take (unat len) (drop (unat offset) (file_content img (unat inode)))"
  have "file_len img ?ino < 4294967296" by (simp add: file_len_def)
  with False have off: "\<not> offset > of_nat (file_len img ?ino)" by (simp add: word_less_nat_alt)
  have "unat offset div 4096 * 4096 \<le> file_len img ?ino"
    using False by (metis div_times_less_eq_dividend le_trans not_le)
  then have blk: "rd_dblock_index img inode (offset div BLOCK_SIZE) = Some (of_nat (file_block img ?ino (unat offset div 4096)))"
    using rd_dblock_index_in [OF assms, of "offset div BLOCK_SIZE"] by (simp add: unat_div)
  have loop: "read_loop img (of_nat (img32 img 4)) inode (of_nat (file_len img ?ino)) offset len
      (dblock_addr (of_nat (img32 img 4)) (of_nat (file_block img ?ino (unat offset div 4096)))) 0
      = Some (of_nat (length ?bs), ?bs)"
    using False by (subst read_loop_eq [OF assms]) (simp_all add: Let_def)
  have "length ?bs < 2147483648" using inode_okD(1) [OF fs_wf_inode [OF assms]] by simp
  then have "sint (of_nat (length ?bs) :: u32) = int (length ?bs)" by (rule sint_of_nat_u32)
  with blk loop off False show ?thesis
    using assms inode_addr(2) [OF assms] by (simp add: read_data_def fs_wf_counts word_le_nat_alt Let_def)
qed

subsection \<open>The interface of a byte reader\<close>

locale byte_reader =
  fixes ok :: "'h \<Rightarrow> bool"
    and reader :: "'h \<Rightarrow> u32 \<Rightarrow> u32 \<Rightarrow> (int \<times> buf) option"
    and content :: "'h \<Rightarrow> buf"
  assumes read_law: "ok h \<Longrightarrow> unat pos \<le> length (content h) \<Longrightarrow>
      reader h pos n = (let bs = take (unat n) (drop (unat pos) (content h)) in Some (int (length bs), bs))"
    and read_past: "ok h \<Longrightarrow> length (content h) < unat pos \<Longrightarrow> reader h pos n = Some (-1, [])"
    and content_small: "ok h \<Longrightarrow> length (content h) < 4294967296"
begin

lemma read_bounded: "ok h \<Longrightarrow> \<exists>k bs. reader h pos n = Some (k, bs) \<and> length bs \<le> unat n"
  by (cases "unat pos \<le> length (content h)") (auto simp: read_law read_past Let_def)

lemma read_eof: "ok h \<Longrightarrow> unat pos = length (content h) \<Longrightarrow> reader h pos n = Some (0, [])"
  by (simp add: read_law Let_def)

lemma read_chunks_from:
  assumes "ok h" "0 < n" "unat pos \<le> length (content h)" "length (content h) - unat pos < fuel"
  shows "read_chunks (\<lambda>pos. reader h pos n) fuel pos = Some (drop (unat pos) (content h))"
  using assms(3,4)
proof (induction fuel arbitrary: pos)
  case (Suc fuel)
  let ?bs = "take (unat n) (drop (unat pos) (content h))"
  have r: "reader h pos n = Some (int (length ?bs), ?bs)" using Suc.prems assms(1) by (simp add: read_law Let_def)
  show ?case
  proof (cases "?bs = []")
    case True
    moreover have "unat n \<noteq> 0" using assms(2) by (simp add: word_less_nat_alt)
    ultimately show ?thesis using r by simp
  next
    case False
    then have pos: "0 < length ?bs" by simp
    have "unat pos + length ?bs < 4294967296"
      using Suc.prems content_small [OF assms(1)] by simp
    then have u: "unat (pos + of_nat (length ?bs)) = unat pos + length ?bs"
      by (subst unat_add_lem [THEN iffD1]) simp_all
    then have "read_chunks (\<lambda>pos. reader h pos n) fuel (pos + of_nat (length ?bs)) =
        Some (drop (unat pos + length ?bs) (content h))"
      using Suc.prems pos by (subst Suc.IH) (simp_all only: u, auto)
    moreover have "?bs @ drop (unat pos + length ?bs) (content h) = drop (unat pos) (content h)"
      using take_drop_length [of "unat n" "drop (unat pos) (content h)"] by (simp add: add.commute)
    ultimately show ?thesis using r pos by (simp del: length_take)
  qed
qed simp

lemma read_chunks_all:
  "ok h \<Longrightarrow> 0 < n \<Longrightarrow> length (content h) < fuel \<Longrightarrow> read_chunks (\<lambda>pos. reader h pos n) fuel 0 = Some (content h)"
  using read_chunks_from [of h n 0 fuel] by simp

end

interpretation fs_file: byte_reader "\<lambda>(img, inode). fs_wf img \<and> unat inode < img32 img 4"
    "\<lambda>(img, inode). read_data img inode" "\<lambda>(img, inode). file_content img (unat inode)"
  by unfold_locales (auto simp: read_data_eq Let_def file_len_def)

text \<open>
  C12. \<open>read_data\<close> refines the abstract file: on a well-formed image and a valid inode it returns, without
  an access outside the image, exactly the bytes of the file from \<open>offset\<close> on, at most \<open>len\<close> of them and
  fewer only at the end of the file, with their number; an offset past the end or an inode number
  past the table gives \<open>-1\<close> and stores nothing.
\<close>

theorem read_data_refines:
  assumes "fs_wf img"
  shows "read_data img inode offset len =
    (if img32 img 4 \<le> unat inode \<or> file_len img (unat inode) < unat offset then Some (-1, [])
     else let bs = take (unat len) (drop (unat offset) (file_content img (unat inode)))
          in Some (int (length bs), bs))"
  using assms by (cases "img32 img 4 \<le> unat inode") (simp_all add: read_data_bad_inode read_data_eq)

text \<open>
  Reading a file in chunks of any positive size \<open>n\<close>, advancing the position by the returned count,
  terminates and yields the whole content of the file, each byte once and in order.
\<close>

theorem file_read_chunks:
  assumes "fs_wf img" "unat inode < img32 img 4" "0 < n" "n < 2147483648" "file_len img (unat inode) < fuel"
  shows "read_chunks (\<lambda>pos. file_read img inode pos n) fuel 0 = Some (file_content img (unat inode))"
proof -
  have "0 < (word_of_int n :: u32)" using assms(3,4)
    by (simp add: word_less_nat_alt unat_eq_nat_uint uint_word_of_int)
  with fs_file.read_chunks_all [of "(img, inode)" "word_of_int n" fuel] assms show ?thesis
    by (simp add: file_read_def)
qed

lemma length_tiny_img: "length tiny_img = 12288"
  by (simp add: tiny_img_def)

lemma tiny_img_words:
  "img32 tiny_img 0 = 1" "img32 tiny_img 4 = 1" "img32 tiny_img 8 = 1"
  "img32 tiny_img 4096 = 3" "img32 tiny_img 4100 = 0"
  by (simp_all add: img32_def rd32_def rd_def length_tiny_img) (simp_all add: tiny_img_def nth_append le32_def)

lemma tiny_img_wf: "fs_wf tiny_img"
  by (simp add: fs_wf_def inode_ok_def tiny_img_words length_tiny_img file_len_def file_block_def)

lemma tiny_img_content: "file_len tiny_img 0 = 3" "file_content tiny_img 0 = [65, 66, 67]"
  by (simp_all add: file_content_def file_len_def file_block_def content_byte_def tiny_img_words upt_rec)
    (simp_all add: tiny_img_def nth_append)

theorem read_data_refines_witness: "read_data tiny_img 0 1 10 = Some (2, [66, 67])"
  using read_data_refines [OF tiny_img_wf, of 0 1 10] by (simp add: tiny_img_words tiny_img_content)

theorem file_read_chunks_witness: "read_chunks (\<lambda>pos. file_read tiny_img 0 pos 2) 4 0 = Some [65, 66, 67]"
  using file_read_chunks [OF tiny_img_wf, of 0 2 4] by (simp add: tiny_img_words tiny_img_content)

subsection \<open>The directory\<close>

lemma cstr_take: "cstr (take n xs) = take n (cstr xs)"
proof (induction xs arbitrary: n)
  case (Cons x xs)
  then show ?case by (cases n) (auto simp: cstr_def)
qed (simp add: cstr_def)

text \<open>The boot block is followed by an inode, whose length field holds a zero byte, so every name ends.\<close>

lemma fs_wf_nul:
  assumes "fs_wf img" "off \<le> 4096"
  shows "0 \<in> set (drop off img)"
proof -
  have N: "0 < img32 img 4" using assms(1) by (simp add: fs_wf_def)
  then have l: "4099 < length img" using fs_wf_length [OF assms(1)] by simp
  have "img32 img 4096 \<le> 4190208" using inode_okD(1) [OF fs_wf_inode [OF assms(1) N]] by (simp add: file_len_def)
  then have "unat (le32 (img ! 4096) (img ! 4097) (img ! 4098) (img ! 4099)) < 2 ^ 24"
    using l by (simp add: img32_def rd32_def)
  then have "img ! 4099 = 0" by (rule le32_high_byte)
  moreover have "drop off img ! (4099 - off) = img ! 4099" using assms(2) l by (subst nth_drop) auto
  moreover have "4099 - off < length (drop off img)" using assms(2) l by simp
  ultimately show ?thesis by (metis nth_mem)
qed

lemma fs_wf_entry:
  assumes "fs_wf img" "i < img32 img 0"
  shows "dentry_off i + 64 \<le> 4096" "dentry_off i + 63 < length img"
    and "\<exists>d. rd_dentry img i = Some d \<and> cstr (file_name d) = entry_name img i \<and> length (file_name d) = 32"
proof -
  have "i < 63" using assms by (auto simp: fs_wf_def)
  then show b: "dentry_off i + 64 \<le> 4096" by (simp add: dentry_off_def)
  then show l: "dentry_off i + 63 < length img" using fs_wf_counts(3) [OF assms(1)] by linarith
  show "\<exists>d. rd_dentry img i = Some d \<and> cstr (file_name d) = entry_name img i \<and> length (file_name d) = 32"
    using l by (simp add: rd_dentry_def rd32_in entry_name_def)
qed

lemma read_dentry_by_index_eq:
  assumes "fs_wf img" and that: "i < 4294967296"
  shows "read_dentry_by_index img (of_nat i) =
    (if i < img32 img 0 then map_option Inr (rd_dentry img i) else Some (Inl (-1)))"
proof (cases "i < img32 img 0")
  case True
  obtain d where "rd_dentry img i = Some d" using fs_wf_entry(3) [OF assms(1) True] by blast
  with True that show ?thesis
    by (simp add: read_dentry_by_index_def fs_wf_counts [OF assms(1)] word_le_nat_alt)
next
  case False
  then show ?thesis using that
    by (simp add: read_dentry_by_index_def fs_wf_counts [OF assms(1)] word_le_nat_alt)
qed

text \<open>The comparison length makes \<open>strncmp\<close> decide equality of the name with the 32-byte field.\<close>

lemma name_compare:
  fixes f g :: buf
  assumes "length f \<le> 32"
  defines "n \<equiv> (let m = (if 32 < length g then 32 else length g) in if length f < m then m else length f)"
  shows "take n f = take n g \<longleftrightarrow> f = take 32 g"
  using assms(1) unfolding n_def by (auto simp: Let_def)

lemma dentry_search_eq:
  assumes wf: "fs_wf img" and nul: "0 \<in> set fname" and len: "length (cstr fname) \<le> 32"
    and "n \<le> img32 img 0"
  shows "dentry_search img fname i n =
    (case List.find (\<lambda>i. entry_name img i = cstr fname) [i..<n] of
       Some k \<Rightarrow> map_option Inr (rd_dentry img k) | None \<Rightarrow> Some (Inl (-1)))"
proof (induction "n - i" arbitrary: i)
  case 0
  then show ?case by (subst dentry_search.simps) simp
next
  case (Suc m)
  then have i: "i < n" by simp
  then have ii: "i < img32 img 0" "i < 4294967296" using assms(4) img32_bound [of img 0] by linarith+
  let ?x = "drop (dentry_off i) img"
  have z: "0 \<in> set ?x" using fs_wf_nul [OF wf] fs_wf_entry(1) [OF wf ii(1)] by simp
  let ?n = "let m = (if 32 < length (cstr ?x) then 32 else length (cstr ?x))
             in if length (cstr fname) < m then m else length (cstr fname)"
  obtain c where c: "strncmp fname ?x ?n = Some c" using strncmp_total [OF nul z] by blast
  have "c = 0 \<longleftrightarrow> entry_name img i = cstr fname"
    using strncmp_0_iff [OF c] name_compare [OF len, of "cstr ?x"]
    by (auto simp: entry_name_def cstr_take)
  moreover have "[i..<n] = i # [Suc i..<n]" using i by (simp add: upt_rec)
  ultimately show ?case
    using Suc i ii c z nul
    by (subst dentry_search.simps) (simp add: strlen_eq Let_def read_dentry_by_index_eq [OF wf])
qed

lemma read_dentry_by_name_eq:
  assumes "fs_wf img" "0 \<in> set fname"
  shows "read_dentry_by_name img fname =
    (if cstr fname = [] \<or> 32 < length (cstr fname) then Some (Inl (-1))
     else case lookup_entry img (cstr fname) of
       Some k \<Rightarrow> map_option Inr (rd_dentry img k) | None \<Rightarrow> Some (Inl (-1)))"
  using assms
  by (auto simp: read_dentry_by_name_def strlen_eq fs_wf_counts dentry_search_eq lookup_entry_def not_less)

lemma lookup_entry_Some:
  "lookup_entry img name = Some k \<Longrightarrow> k < img32 img 0 \<and> entry_name img k = name"
  by (auto simp: lookup_entry_def find_Some_iff)

lemma lookup_entry_None: "lookup_entry img name = None \<longleftrightarrow> name \<notin> set (dir_names img)"
  by (auto simp: lookup_entry_def find_None_iff dir_names_def)


lemma dir_read_eq:
  assumes "fs_wf img" "i < 4294967296"
  shows "\<exists>out. dir_read img (of_nat i) n =
    (if i < img32 img 0 then Some (int (length (entry_name img i)), out, of_nat (Suc i)) else Some (0, [], of_nat i))
    \<and> length out = 33 \<and> (i < img32 img 0 \<longrightarrow> cstr out = entry_name img i)"
proof (cases "i < img32 img 0")
  case True
  obtain d where d: "rd_dentry img i = Some d" "cstr (file_name d) = entry_name img i" "length (file_name d) = 32"
    using fs_wf_entry(3) [OF assms(1) True] by blast
  have "cstr (xs @ [0]) = cstr xs" for xs by (induction xs) (auto simp: cstr_def)
  with d show ?thesis using True assms
    by (intro exI [of _ "file_name d @ [0]"])
      (auto simp: dir_read_def read_dentry_by_index_eq strlen_eq add.commute)
next
  case False
  then show ?thesis using assms
    by (auto simp: dir_read_def read_dentry_by_index_eq intro: exI [of _ "replicate 33 0"])
qed

lemma take_length_cstr: "take (length (cstr b)) b = cstr b"
  by (simp add: cstr_def flip: takeWhile_eq_take)

lemma dir_list_from:
  assumes "fs_wf img" "[] \<notin> set (dir_names img)"
  shows "i \<le> img32 img 0 \<Longrightarrow> img32 img 0 - i < fuel \<Longrightarrow>
    dir_list img fuel (of_nat i) = Some (map (entry_name img) [i..<img32 img 0], of_nat (img32 img 0))"
proof (induction fuel arbitrary: i)
  case (Suc fuel)
  have b: "i < 4294967296" using Suc.prems img32_bound [of img 0] by linarith
  obtain out where out: "dir_read img (of_nat i) 32 =
    (if i < img32 img 0 then Some (int (length (entry_name img i)), out, of_nat (Suc i)) else Some (0, [], of_nat i))"
    "i < img32 img 0 \<longrightarrow> cstr out = entry_name img i" using dir_read_eq [OF assms(1) b] by blast
  show ?case
  proof (cases "i < img32 img 0")
    case True
    then have "entry_name img i \<noteq> []" using assms(2) by (force simp: dir_names_def)
    moreover have "take (length (entry_name img i)) out = entry_name img i"
      using out(2) True take_length_cstr [of out] by simp
    moreover have "[i..<img32 img 0] = i # [Suc i..<img32 img 0]" using True by (simp add: upt_rec)
    ultimately show ?thesis using out(1) True Suc.IH [of "Suc i"] Suc.prems by (simp add: add.commute)
  qed (use out Suc.prems in auto)
qed simp

text \<open>
  Listing a directory: repeated \<open>dir_read\<close> calls from a reset index deliver every name of the
  directory exactly once and in order, the full-width ones included, and then return \<open>0\<close>.
\<close>

theorem dir_list_names:
  assumes "fs_wf img" "[] \<notin> set (dir_names img)" "img32 img 0 < fuel"
  shows "dir_list img fuel 0 = Some (dir_names img, of_nat (img32 img 0))"
  using dir_list_from [OF assms(1,2), of 0 fuel] assms(3) by (simp add: dir_names_def)

lemma tiny_img_names: "dir_names tiny_img = [[104, 105]]"
  by (simp add: dir_names_def tiny_img_words entry_name_def dentry_off_def) (simp add: tiny_img_def cstr_def)


theorem dir_list_names_witness: "dir_list tiny_img 2 0 = Some ([[104, 105]], 1)"
  using dir_list_names [OF tiny_img_wf, of 2] by (simp add: tiny_img_names tiny_img_words)

end
