(* ===== verification/Rtc.thy ===== *)
theory Rtc
  imports Screen File_System
begin

text \<open>
  The current process and the real-time clock: the process-id globals of \<^verbatim>\<open>code/system_call.c\<close> with
  their accessors, the terminal accessors of \<^verbatim>\<open>code/processes.c\<close>, and the driver
  \<^verbatim>\<open>code/rtc.c\<close>, which gives every process a virtual frequency out of one 1024 Hz interrupt.  The tick
  counters are C \<open>int\<close>s that wrap around; they are 32-bit words, read signed.
\<close>

record pids = screen +
  cur_pid :: int
  prev_pid :: int

definition get_cur_pid :: "'a pids_scheme \<Rightarrow> int" where "get_cur_pid s = cur_pid s"
definition set_cur_pid :: "int \<Rightarrow> 'a pids_scheme \<Rightarrow> 'a pids_scheme" where "set_cur_pid pid s = s\<lparr>cur_pid := pid\<rparr>"
definition set_prev_pid :: "int \<Rightarrow> 'a pids_scheme \<Rightarrow> 'a pids_scheme" where "set_prev_pid pid s = s\<lparr>prev_pid := pid\<rparr>"

definition get_active_terminal :: "'a screen_scheme \<Rightarrow> nat" where "get_active_terminal s = ta s"
definition get_shown_terminal :: "'a screen_scheme \<Rightarrow> nat" where "get_shown_terminal s = ts s"

definition set_ta :: "int \<Rightarrow> 'a screen_scheme \<Rightarrow> 'a screen_scheme" where
  "set_ta new_ta s = (if new_ta < 0 \<or> new_ta > 2 then s else s\<lparr>ta := nat new_ta\<rparr>)"

lemmas pid_defs = get_cur_pid_def set_cur_pid_def set_prev_pid_def get_active_terminal_def
  get_shown_terminal_def set_ta_def

record rtc = pids +
  rtc_wait :: int
  count_rtc :: u32
  process_rtc :: "int list"
  terminal_rtc_count :: "u32 list"
  terminal_rtc_wait :: "int list"

abbreviation MAX_PID :: int where "MAX_PID \<equiv> 6"
abbreviation NUM_TERMS :: nat where "NUM_TERMS \<equiv> 3"
abbreviation MAX_VIR_FREQ :: int where "MAX_VIR_FREQ \<equiv> 1024"
abbreviation MIN_VIR_FREQ :: int where "MIN_VIR_FREQ \<equiv> 2"
abbreviation MIN_VIR_RATE :: u8 where "MIN_VIR_RATE \<equiv> 6"
abbreviation REG_A :: u8 where "REG_A \<equiv> 0x8A"
abbreviation REG_B :: u8 where "REG_B \<equiv> 0x8B"
abbreviation REG_C :: u8 where "REG_C \<equiv> 0x0C"
abbreviation NMI :: u16 where "NMI \<equiv> 0x70"
abbreviation RW :: u16 where "RW \<equiv> 0x71"

text \<open>\<open>reg_a\<close> and \<open>reg_b\<close> are what the two \<open>inb\<close> calls read from the device.\<close>

definition rtc_init :: "u8 \<Rightarrow> u8 \<Rightarrow> 'a rtc_scheme \<Rightarrow> 'a rtc_scheme option" where
  "rtc_init reg_b reg_a s = do {
     let (flags, s) = cli_and_save s;
     let s = outb (reg_b OR 0x40) RW (outb REG_B NMI (outb REG_B NMI s));
     let s = enable_irq 8 s;
     let s = outb ((reg_a AND 0xF0) OR MIN_VIR_RATE) RW (outb REG_A NMI (outb REG_A NMI s));
     s \<leftarrow> each (\<lambda>i s. do { p \<leftarrow> wr (process_rtc s) i MAX_VIR_FREQ; Some (s\<lparr>process_rtc := p\<rparr>) }) [0..<6] s;
     Some (sti (restore_flags flags s)) }"

text \<open>One round of the handler's loop: a zero divisor faults.\<close>

definition rtc_tick :: "nat \<Rightarrow> 'a rtc_scheme \<Rightarrow> 'a rtc_scheme option" where
  "rtc_tick i s = do {
     let pid = active_pid (terminals s i);
     freq \<leftarrow> rd_int (process_rtc s) pid;
     c \<leftarrow> rd (terminal_rtc_count s) i;
     cs \<leftarrow> wr (terminal_rtc_count s) i (c + 1);
     let s = s\<lparr>terminal_rtc_count := cs\<rparr>;
     if freq = 0 \<or> MAX_VIR_FREQ sdiv freq = 0 then None
     else if sint (c + 1) smod (MAX_VIR_FREQ sdiv freq) = 0
       then do { ws \<leftarrow> wr (terminal_rtc_wait s) i 0; Some (s\<lparr>terminal_rtc_wait := ws\<rparr>) }
       else Some s }"

definition rtc_handler :: "'a rtc_scheme \<Rightarrow> 'a rtc_scheme option" where
  "rtc_handler s = do {
     let s = cli s;
     let s = s\<lparr>count_rtc := count_rtc s + 1\<rparr>;
     s \<leftarrow> each rtc_tick [0..<3] s;
     let s = (if sint (count_rtc s) smod MAX_VIR_FREQ = 0 then put_cursor s else s);
     let s = (if sint (count_rtc s) smod (MAX_VIR_FREQ sdiv 2) = 0 \<and> sint (count_rtc s) smod MAX_VIR_FREQ \<noteq> 0
              then rem_cursor s else s);
     let s = outb REG_C NMI s;
     Some (sti (send_eoi 8 s)) }"

definition set_process_rtc :: "int \<Rightarrow> 'a rtc_scheme \<Rightarrow> 'a rtc_scheme option" where
  "set_process_rtc freq s = do {
     p \<leftarrow> wr_int (process_rtc s) (get_cur_pid s) freq;
     Some (s\<lparr>process_rtc := p\<rparr>) }"

definition rtc_open :: "'a rtc_scheme \<Rightarrow> (int \<times> 'a rtc_scheme) option" where
  "rtc_open s = map_option (Pair 0) (set_process_rtc MIN_VIR_FREQ s)"

definition rtc_close :: "'a rtc_scheme \<Rightarrow> (int \<times> 'a rtc_scheme) option" where
  "rtc_close s = map_option (Pair 0) (set_process_rtc MAX_VIR_FREQ s)"

text \<open>The frequency is the \<open>uint32_t\<close> at the start of the buffer, assigned to an \<open>int32_t\<close>.\<close>

definition rtc_write :: "buf \<Rightarrow> int \<Rightarrow> 'a rtc_scheme \<Rightarrow> (int \<times> 'a rtc_scheme) option" where
  "rtc_write b rate s = do {
     let s = cli s;
     w \<leftarrow> rd32 b 0;
     let freq = sint w;
     if freq < MIN_VIR_FREQ \<or> freq > MAX_VIR_FREQ then Some (-1, s)
     else do { s \<leftarrow> set_process_rtc freq s; Some (0, sti s) } }"

definition rtc_waiting :: "nat \<Rightarrow> 'a rtc_scheme \<Rightarrow> bool" where
  "rtc_waiting k s \<longleftrightarrow> rd (terminal_rtc_wait s) k = Some 1"

definition rtc_read :: "('a rtc_scheme \<Rightarrow> 'a rtc_scheme option) list \<Rightarrow> 'a rtc_scheme \<Rightarrow> 'a rtc_scheme outcome option" where
  "rtc_read evs s = do {
     let active_term = get_active_terminal s;
     ws \<leftarrow> wr (terminal_rtc_wait s) active_term 1;
     (waiting, s) \<leftarrow> wait_while (rtc_waiting active_term) evs (s\<lparr>terminal_rtc_wait := ws\<rparr>);
     Some (if waiting then Blocked s else Returned 0 s) }"

definition set_rtc_wait :: "'a rtc_scheme \<Rightarrow> 'a rtc_scheme" where
  "set_rtc_wait s = s\<lparr>rtc_wait := 0\<rparr>"

text \<open>
  The invariant: every process has a frequency between 2 and 1024, and every terminal runs a process
  with a number from 0 to 5.  The period of a process is the number of ticks between two wake-ups.
\<close>

definition freq_ok :: "int \<Rightarrow> bool" where
  "freq_ok f \<longleftrightarrow> MIN_VIR_FREQ \<le> f \<and> f \<le> MAX_VIR_FREQ"

definition active_ok :: "'a screen_scheme \<Rightarrow> bool" where
  "active_ok s \<longleftrightarrow> list_all (\<lambda>k. 0 \<le> active_pid (terminals s k) \<and> active_pid (terminals s k) < MAX_PID) [0..<3]"

definition rtc_inv :: "'a rtc_scheme \<Rightarrow> bool" where
  "rtc_inv s \<longleftrightarrow> screen_inv s \<and> active_ok s \<and> length (process_rtc s) = 6 \<and> list_all freq_ok (process_rtc s)
     \<and> length (terminal_rtc_count s) = 3 \<and> length (terminal_rtc_wait s) = 3"

definition term_freq :: "'a rtc_scheme \<Rightarrow> nat \<Rightarrow> int" where
  "term_freq s k = process_rtc s ! nat (active_pid (terminals s k))"

definition term_period :: "'a rtc_scheme \<Rightarrow> nat \<Rightarrow> int" where
  "term_period s k = 1024 div term_freq s k"

text \<open>Whether the next tick wakes the process of terminal \<open>k\<close>.\<close>

definition wakes :: "'a rtc_scheme \<Rightarrow> nat \<Rightarrow> bool" where
  "wakes s k \<longleftrightarrow> term_period s k dvd sint (terminal_rtc_count s ! k + 1)"

text \<open>
  The wake-ups a process of terminal \<open>k\<close> gets in \<open>n\<close> interrupts when it waits again at once, as a loop of
  clock reads does.
\<close>

fun wake_ups :: "nat \<Rightarrow> nat \<Rightarrow> 'a rtc_scheme \<Rightarrow> nat option" where
  "wake_ups k 0 s = Some 0"
| "wake_ups k (Suc n) s = do {
     s' \<leftarrow> rtc_handler (s\<lparr>terminal_rtc_wait := (terminal_rtc_wait s)[k := 1]\<rparr>);
     c \<leftarrow> wake_ups k n s';
     Some (if rtc_waiting k s' then c else Suc c) }"

text \<open>The clock at boot, after \<open>rtc_init\<close>, and with the process of the first terminal at \<open>f\<close> Hz.\<close>

definition boot_rtc :: "int \<Rightarrow> rtc" where
  "boot_rtc f = screen.extend blank_screen
     \<lparr>cur_pid = 0, prev_pid = -1, rtc_wait = 0, count_rtc = 1, process_rtc = [f, 1024, 1024, 1024, 1024, 1024],
      terminal_rtc_count = [0, 0, 0], terminal_rtc_wait = [0, 0, 0]\<rparr>"

subsection \<open>The invariant\<close>

lemma smod_eq_0_iff: "(a :: int) smod b = 0 \<longleftrightarrow> b dvd a"
  by (auto simp: signed_modulo_int_def mod_eq_0_iff_dvd sgn_if)

lemma rtc_invD:
  assumes "rtc_inv s" "k < 3"
  shows "0 \<le> active_pid (terminals s k)" "active_pid (terminals s k) < 6"
    "rd_int (process_rtc s) (active_pid (terminals s k)) = Some (term_freq s k)"
    "2 \<le> term_freq s k" "term_freq s k \<le> 1024" "1 \<le> term_period s k" "term_period s k \<le> 512"
proof -
  show b: "0 \<le> active_pid (terminals s k)" "active_pid (terminals s k) < 6"
    using assms by (auto simp: rtc_inv_def active_ok_def list_all_iff)
  then show "rd_int (process_rtc s) (active_pid (terminals s k)) = Some (term_freq s k)"
    using assms by (simp add: rtc_inv_def term_freq_def)
  have "freq_ok (term_freq s k)" using assms b by (auto simp: rtc_inv_def term_freq_def list_all_length)
  then show f: "2 \<le> term_freq s k" "term_freq s k \<le> 1024" by (auto simp: freq_ok_def)
  have "1024 div term_freq s k \<le> 1024 div 2" using f(1) by (intro zdiv_mono2) auto
  moreover have "1024 div 1024 \<le> 1024 div term_freq s k" using f by (intro zdiv_mono2) auto
  ultimately show "1 \<le> term_period s k" "term_period s k \<le> 512" by (simp_all add: term_period_def)
qed

lemma rtc_tick_eq:
  assumes "rtc_inv s" "k < 3"
  shows "rtc_tick k s = Some (s\<lparr>terminal_rtc_count := (terminal_rtc_count s)[k := terminal_rtc_count s ! k + 1],
    terminal_rtc_wait := (if wakes s k then (terminal_rtc_wait s)[k := 0] else terminal_rtc_wait s)\<rparr>)"
proof -
  note d = rtc_invD [OF assms]
  have p: "MAX_VIR_FREQ sdiv term_freq s k = term_period s k" using d by (simp add: sdiv_pos term_period_def)
  have l: "length (terminal_rtc_count s) = 3" "length (terminal_rtc_wait s) = 3"
    using assms(1) by (simp_all add: rtc_inv_def)
  show ?thesis using d p l assms(2)
    by (simp add: rtc_tick_def Let_def smod_eq_0_iff wakes_def)
qed

lemma rtc_inv_tick:
  "rtc_inv s \<Longrightarrow> rtc_inv (s\<lparr>terminal_rtc_count := (terminal_rtc_count s)[k := c],
     terminal_rtc_wait := (if b then (terminal_rtc_wait s)[k := 0] else terminal_rtc_wait s)\<rparr>)"
  by (simp add: rtc_inv_def screen_inv_def active_ok_def)

lemma rtc_inv_cong:
  "rtc_inv s \<Longrightarrow> terminals s' = terminals s \<Longrightarrow> ts s' = ts s \<Longrightarrow> ta s' = ta s \<Longrightarrow> process_rtc s' = process_rtc s
   \<Longrightarrow> length (terminal_rtc_count s') = 3 \<Longrightarrow> length (terminal_rtc_wait s') = 3 \<Longrightarrow> rtc_inv s'"
  by (simp add: rtc_inv_def screen_inv_def active_ok_def)

lemma rtc_ticks:
  assumes "rtc_inv s"
  shows "\<exists>s'. each rtc_tick [0..<3] s = Some s' \<and> rtc_inv s' \<and> terminals s' = terminals s \<and> ts s' = ts s \<and> ta s' = ta s
    \<and> video_mem s' = video_mem s \<and> pmem s' = pmem s \<and> process_rtc s' = process_rtc s
    \<and> cur_pid s' = cur_pid s \<and> prev_pid s' = prev_pid s \<and> rtc.more s' = rtc.more s
    \<and> (\<forall>k < 3. terminal_rtc_count s' ! k = terminal_rtc_count s ! k + 1
         \<and> terminal_rtc_wait s' ! k = (if wakes s k then 0 else terminal_rtc_wait s ! k))"
proof -
  define step where "step k s = s\<lparr>terminal_rtc_count := (terminal_rtc_count s)[k := terminal_rtc_count s ! k + 1],
    terminal_rtc_wait := (if wakes s k then (terminal_rtc_wait s)[k := 0] else terminal_rtc_wait s)\<rparr>"
    for k and s :: "'a rtc_scheme"
  have st: "rtc_tick k u = Some (step k u)" "rtc_inv (step k u)" if "rtc_inv u" "k < 3" for k and u :: "'a rtc_scheme"
    using that by (simp_all add: rtc_tick_eq step_def rtc_inv_tick)
  have l: "length (terminal_rtc_count s) = 3" "length (terminal_rtc_wait s) = 3"
    using assms by (simp_all add: rtc_inv_def)
  have w: "wakes (step 0 s) 1 = wakes s 1" "wakes (step 1 (step 0 s)) 2 = wakes s 2"
    by (simp_all add: wakes_def step_def term_period_def term_freq_def)
  have u: "[0..<3] = [0, 1, 2 :: nat]" by (simp add: upt_rec)
  have inv: "rtc_inv (step 0 s)" "rtc_inv (step 1 (step 0 s))" "rtc_inv (step 2 (step 1 (step 0 s)))"
    using assms st(2) by simp_all
  have e: "each rtc_tick [0..<3] s = Some (step 2 (step 1 (step 0 s)))"
    unfolding u using st(1) assms inv by simp
  have k3: "k = 0 \<or> k = 1 \<or> k = 2" if "k < 3" for k :: nat using that by linarith
  show ?thesis
    using inv(3) l w by (intro exI [of _ "step 2 (step 1 (step 0 s))"]) (auto simp: e step_def dest!: k3)
qed

lemma cursor_frame [simp, frame_simps]:
  "terminals (put_cursor s) = terminals s" "ts (put_cursor s) = ts s" "ta (put_cursor s) = ta s"
  "video_mem (put_cursor s) = video_mem s" "screen.more (put_cursor s) = screen.more s"
  "terminals (rem_cursor s) = terminals s" "ts (rem_cursor s) = ts s" "ta (rem_cursor s) = ta s"
  "video_mem (rem_cursor s) = video_mem s" "screen.more (rem_cursor s) = screen.more s"
  by (simp_all add: put_cursor_def rem_cursor_def)

lemma send_eoi_screen_frame [simp, frame_simps]:
  "terminals (send_eoi n s) = terminals s" "ts (send_eoi n s) = ts s" "ta (send_eoi n s) = ta s"
  "video_mem (send_eoi n s) = video_mem s" "screen.more (send_eoi n s) = screen.more s"
  by (simp_all add: send_eoi_eq)

text \<open>The fields of the later components depend only on the part of the state they extend.\<close>

lemma rtc_fields_cong:
  assumes "screen.more s = screen.more s'"
  shows "cur_pid s = cur_pid s'" "prev_pid s = prev_pid s'" "process_rtc s = process_rtc s'"
    "terminal_rtc_count s = terminal_rtc_count s'" "terminal_rtc_wait s = terminal_rtc_wait s'"
    "count_rtc s = count_rtc s'" "rtc.more s = rtc.more s'"
  using assms by (cases s; cases s'; simp)+

lemma rtc_handler_ok:
  assumes "rtc_inv s"
  shows "\<exists>s'. rtc_handler s = Some s' \<and> rtc_inv s' \<and> terminals s' = terminals s \<and> ts s' = ts s \<and> ta s' = ta s
    \<and> video_mem s' = video_mem s \<and> process_rtc s' = process_rtc s \<and> cur_pid s' = cur_pid s
    \<and> prev_pid s' = prev_pid s \<and> rtc.more s' = rtc.more s
    \<and> (\<forall>k < 3. terminal_rtc_count s' ! k = terminal_rtc_count s ! k + 1
         \<and> terminal_rtc_wait s' ! k = (if wakes s k then 0 else terminal_rtc_wait s ! k))"
proof -
  let ?s0 = "(cli s)\<lparr>count_rtc := count_rtc (cli s) + 1\<rparr>"
  have "rtc_inv ?s0" using assms by (simp add: rtc_inv_def screen_inv_def active_ok_def cli_def)
  from rtc_ticks [OF this] obtain t where
    e: "each rtc_tick [0..<3] ?s0 = Some t" and inv: "rtc_inv t"
    and fr: "terminals t = terminals s" "ts t = ts s" "ta t = ta s" "video_mem t = video_mem s"
      "process_rtc t = process_rtc s" "cur_pid t = cur_pid s" "prev_pid t = prev_pid s" "rtc.more t = rtc.more s"
    and w: "\<forall>k < 3. terminal_rtc_count t ! k = terminal_rtc_count s ! k + 1
         \<and> terminal_rtc_wait t ! k = (if wakes ?s0 k then 0 else terminal_rtc_wait s ! k)"
    by (auto simp: cli_def)
  have ws: "wakes ?s0 k = wakes s k" for k by (simp add: wakes_def term_period_def term_freq_def cli_def)
  define u where "u = (let s = (if sint (count_rtc t) smod MAX_VIR_FREQ = 0 then put_cursor t else t)
     in (if sint (count_rtc s) smod (MAX_VIR_FREQ sdiv 2) = 0 \<and> sint (count_rtc s) smod MAX_VIR_FREQ \<noteq> 0
              then rem_cursor s else s))"
  have h: "rtc_handler s = Some (sti (send_eoi 8 (outb REG_C NMI u)))"
    using e by (simp add: rtc_handler_def Let_def u_def)
  have more: "screen.more (sti (send_eoi 8 (outb REG_C NMI u))) = screen.more t"
    by (simp add: u_def Let_def sti_def outb_def)
  have scr: "terminals (sti (send_eoi 8 (outb REG_C NMI u))) = terminals t"
    "ts (sti (send_eoi 8 (outb REG_C NMI u))) = ts t" "ta (sti (send_eoi 8 (outb REG_C NMI u))) = ta t"
    "video_mem (sti (send_eoi 8 (outb REG_C NMI u))) = video_mem t"
    by (simp_all add: u_def Let_def sti_def outb_def)
  note f = rtc_fields_cong [OF more]
  have "rtc_inv (sti (send_eoi 8 (outb REG_C NMI u)))"
    by (rule rtc_inv_cong [OF inv scr(1-3) f(3)]) (use inv in \<open>simp_all only: f(4,5) rtc_inv_def\<close>)
  with h f scr fr w ws show ?thesis by simp
qed

subsection \<open>Waiting for a tick\<close>

text \<open>A tick counter reaches a multiple of the period within two periods, even across its overflow.\<close>

lemma next_multiple:
  fixes c :: u32 and p :: int
  assumes "1 \<le> p" "p \<le> 1024"
  shows "\<exists>m. 1 \<le> m \<and> int m \<le> 2 * p \<and> p dvd sint (c + of_nat m)"
proof -
  define x where "x = sint c"
  have x: "- 2147483648 \<le> x" "x < 2147483648"
    using sint_greater_eq [of c] sint_less [of c] by (simp_all add: x_def)
  have s: "sint (c + of_nat m) = signed_take_bit 31 (x + int m)" for m
  proof -
    have "c + of_nat m = word_of_int (x + int m)" by (simp add: x_def)
    then show ?thesis by (simp only: signed_of_int) simp
  qed
  show ?thesis
  proof (cases "x + p < 2147483648")
    case True
    let ?m = "p - x mod p"
    have m: "0 < ?m" "?m \<le> p" using assms by simp_all
    have "x + ?m = p + p * (x div p)" by (simp add: minus_mod_eq_mult_div [symmetric])
    then have "p dvd x + ?m" by (metis dvd_add dvd_refl dvd_triv_left)
    moreover have "signed_take_bit 31 (x + ?m) = x + ?m"
      using x m True by (intro signed_take_bit_int_eq_self) auto
    ultimately show ?thesis using m s [of "nat ?m"] by (intro exI [of _ "nat ?m"]) auto
  next
    case False
    let ?j = "2147483648 mod p"
    let ?m = "2147483648 - x + ?j"
    have j: "0 \<le> ?j" "?j < p" using assms by simp_all
    have m: "0 < ?m" "?m \<le> 2 * p" using x j False by linarith+
    have "?j - 2147483648 = - (p * (2147483648 div p))" by (simp add: minus_mult_div_eq_mod [symmetric])
    then have d: "p dvd ?j - 2147483648" by simp
    have "signed_take_bit 31 (x + ?m) = signed_take_bit 31 (?j - 2147483648 + 2 ^ 32)" by simp
    also have "\<dots> = ?j - 2147483648"
    proof -
      have "?j mod 4294967296 = ?j" using j assms by (intro mod_pos_pos_trivial) linarith+
      then have "take_bit 32 (4294967296 + ?j) = ?j" by (simp add: take_bit_eq_mod)
      then show ?thesis by (simp add: signed_take_bit_eq_take_bit_shift)
    qed
    finally show ?thesis using m d s [of "nat ?m"] by (intro exI [of _ "nat ?m"]) auto
  qed
qed

lemma rtc_wait_ticks:
  assumes "rtc_inv s" "k < 3"
  shows "\<exists>w s'. wait_while (rtc_waiting k) (replicate n rtc_handler) s = Some (w, s') \<and> rtc_inv s'
     \<and> ((\<exists>m. 1 \<le> m \<and> m \<le> n \<and> term_period s k dvd sint (terminal_rtc_count s ! k + of_nat m)) \<longrightarrow> \<not> w)"
  using assms(1)
proof (induction n arbitrary: s)
  case (Suc n)
  show ?case
  proof (cases "rtc_waiting k s")
    case False
    then show ?thesis using Suc.prems by auto
  next
    case True
    obtain t where t: "rtc_handler s = Some t" "rtc_inv t" "terminals t = terminals s" "process_rtc t = process_rtc s"
      "terminal_rtc_count t ! k = terminal_rtc_count s ! k + 1"
      "terminal_rtc_wait t ! k = (if wakes s k then 0 else terminal_rtc_wait s ! k)"
      using rtc_handler_ok [OF Suc.prems] assms(2) by blast
    have p: "term_period t k = term_period s k" using t(3,4) by (simp add: term_period_def term_freq_def)
    obtain w s' where IH: "wait_while (rtc_waiting k) (replicate n rtc_handler) t = Some (w, s')" "rtc_inv s'"
      "(\<exists>m. 1 \<le> m \<and> m \<le> n \<and> term_period s k dvd sint (terminal_rtc_count s ! k + 1 + of_nat m)) \<longrightarrow> \<not> w"
      using Suc.IH [OF t(2)] p t(5) by auto
    have "\<not> w" if m: "1 \<le> m" "m \<le> Suc n" "term_period s k dvd sint (terminal_rtc_count s ! k + of_nat m)" for m
    proof (cases "m = 1")
      case True
      then have "wakes s k" using m by (simp add: wakes_def)
      then have "\<not> rtc_waiting k t"
        using t(2,6) assms(2) by (simp add: rtc_waiting_def rtc_inv_def)
      then show ?thesis using IH(1) by (cases n) auto
    next
      case False
      then have "of_nat m = (1 :: u32) + of_nat (m - 1)" "1 \<le> m - 1" "m - 1 \<le> n" using m by (simp_all add: of_nat_diff)
      then show ?thesis using IH(3) m(3) by (metis add.assoc)
    qed
    with True t(1) IH show ?thesis by auto
  qed
qed auto

lemma rtc_inv_wait: "rtc_inv s \<Longrightarrow> rtc_inv (s\<lparr>terminal_rtc_wait := (terminal_rtc_wait s)[k := v]\<rparr>)"
  by (simp add: rtc_inv_def screen_inv_def active_ok_def)

lemma ta_less: "rtc_inv s \<Longrightarrow> ta s < 3"
  by (simp add: rtc_inv_def screen_inv_def)

text \<open>
  C22. A clock read does not block forever: with the process at a frequency \<open>f\<close> of 2 to 1024, it returns
  \<open>0\<close> after at most two periods of \<open>1024 div f\<close> clock interrupts, from any counter value, also when the
  32-bit tick counter overflows while it waits; and no interrupt on the way divides by zero.
\<close>

theorem rtc_read_returns:
  assumes "rtc_inv s" "2 * term_period s (ta s) \<le> int n"
  shows "\<exists>s'. rtc_read (replicate n rtc_handler) s = Some (Returned 0 s') \<and> rtc_inv s'"
proof -
  let ?k = "ta s"
  let ?s = "s\<lparr>terminal_rtc_wait := (terminal_rtc_wait s)[?k := 1]\<rparr>"
  note k = ta_less [OF assms(1)]
  note d = rtc_invD [OF assms(1) k]
  obtain m where "1 \<le> m" "int m \<le> 2 * term_period s ?k"
    "term_period s ?k dvd sint (terminal_rtc_count s ! ?k + of_nat m)"
    using next_multiple [of "term_period s ?k" "terminal_rtc_count s ! ?k"] d by auto
  moreover have "term_period ?s ?k = term_period s ?k" by (simp add: term_period_def term_freq_def)
  moreover from calculation assms(2) have "m \<le> n" by linarith
  ultimately obtain s' where
    "wait_while (rtc_waiting ?k) (replicate n rtc_handler) ?s = Some (False, s')" "rtc_inv s'"
    using rtc_wait_ticks [of ?s ?k n] rtc_inv_wait [OF assms(1), of ?k 1] k by auto
  then show ?thesis using assms(1) k by (simp add: rtc_read_def pid_defs Let_def rtc_inv_def)
qed

subsection \<open>The virtual rate\<close>

lemma multiples_in_block:
  fixes x :: int
  assumes "0 < p"
  shows "card {m. 1 \<le> m \<and> m \<le> p * q \<and> int p dvd x + int m} = q"
proof (induction q)
  case (Suc q)
  let ?S = "\<lambda>n. {m. 1 \<le> m \<and> m \<le> n \<and> int p dvd x + int m}"
  define r where "r = nat (int p - (x + int (p * q)) mod int p)"
  have r: "int r = int p - (x + int (p * q)) mod int p"
    using assms pos_mod_bound [of "int p" "x + int (p * q)"] by (simp add: r_def less_imp_le)
  have rb: "1 \<le> r" "r \<le> p" using r assms pos_mod_bound [of "int p" "x + int (p * q)"] pos_mod_sign [of "int p" "x + int (p * q)"]
    by linarith+
  have iff: "int p dvd x + int (p * q + j) \<longleftrightarrow> j = r" if "1 \<le> j" "j \<le> p" for j
  proof -
    have "int p dvd x + int (p * q) + int r"
      unfolding r by (metis add_diff_eq diff_add_eq dvd_add_triv_right_iff dvd_minus_mod)
    moreover have "x + int (p * q) + int j = (x + int (p * q) + int r) + (int j - int r)" by simp
    ultimately have "int p dvd x + int (p * q) + int j \<longleftrightarrow> int p dvd int j - int r"
      by (metis dvd_add_right_iff)
    moreover have "int p dvd int j - int r \<longleftrightarrow> j = r"
      using that rb zdvd_not_zless [of "int j - int r" "int p"] zdvd_not_zless [of "int r - int j" "int p"]
      by (cases j r rule: linorder_cases) (auto simp: dvd_diff_commute)
    ultimately show ?thesis by (simp add: add.assoc)
  qed
  have "?S (p * Suc q) = insert (p * q + r) (?S (p * q))"
  proof (intro equalityI subsetI)
    fix m assume m: "m \<in> ?S (p * Suc q)"
    show "m \<in> insert (p * q + r) (?S (p * q))"
    proof (cases "m \<le> p * q")
      case False
      then have "m = p * q + (m - p * q)" "1 \<le> m - p * q" "m - p * q \<le> p" using m by auto
      then show ?thesis using iff [of "m - p * q"] m by auto
    qed (use m in auto)
  qed (use iff [of r] rb in auto)
  moreover have "finite (?S (p * q))" by (rule finite_subset [of _ "{..p * q}"]) auto
  moreover have "p * q + r \<notin> ?S (p * q)" using rb by auto
  ultimately show ?case using Suc by simp
qed (simp add: Collect_empty_eq_bot)

lemma sint_add_dvd:
  fixes c :: u32
  assumes "j \<le> 32"
  shows "2 ^ j dvd sint (c + of_nat m) \<longleftrightarrow> 2 ^ j dvd sint c + int m"
proof -
  have "c + of_nat m = word_of_int (sint c + int m)" by simp
  then have "sint (c + of_nat m) = signed_take_bit 31 (sint c + int m)" by (simp only: signed_of_int) simp
  also have "\<dots> = (sint c + int m + 2 ^ 31) mod 2 ^ 32 - 2 ^ 31"
    by (simp add: signed_take_bit_eq_take_bit_shift take_bit_eq_mod)
  also have "\<dots> = sint c + int m - 2 ^ 32 * ((sint c + int m + 2 ^ 31) div 2 ^ 32)"
    by (simp add: minus_mult_div_eq_mod [symmetric])
  finally have e: "sint c + int m = sint (c + of_nat m) + 2 ^ 32 * ((sint c + int m + 2 ^ 31) div 2 ^ 32)" by simp
  have "(2 :: int) ^ j dvd 2 ^ 32 * z" for z using assms by (intro dvd_mult2 le_imp_power_dvd)
  then show ?thesis by (metis e dvd_add_left_iff)
qed

lemma count_Suc:
  "card {m. 1 \<le> m \<and> m \<le> Suc n \<and> P m} = (if P 1 then 1 else 0) + card {m. 1 \<le> m \<and> m \<le> n \<and> P (Suc m)}"
proof -
  let ?B = "{m. 1 \<le> m \<and> m \<le> n \<and> P (Suc m)}"
  have "m \<in> (if P 1 then {1} else {}) \<union> Suc ` ?B \<longleftrightarrow> 1 \<le> m \<and> m \<le> Suc n \<and> P m" for m
    by (cases "m = 1") (auto simp: image_iff intro!: exI [of _ "m - 1"])
  then have "{m. 1 \<le> m \<and> m \<le> Suc n \<and> P m} = (if P 1 then {1} else {}) \<union> Suc ` ?B" by blast
  moreover have "finite ?B" by (rule finite_subset [of _ "{..n}"]) auto
  moreover have "1 \<notin> Suc ` ?B" by auto
  ultimately show ?thesis by (simp add: card_image)
qed

lemma wake_ups_card:
  assumes "rtc_inv s" "k < 3"
  shows "wake_ups k n s =
    Some (card {m. 1 \<le> m \<and> m \<le> n \<and> term_period s k dvd sint (terminal_rtc_count s ! k + of_nat m)})"
  using assms(1)
proof (induction n arbitrary: s)
  case 0
  have "{m. 1 \<le> m \<and> m \<le> 0 \<and> P m} = {}" for P :: "nat \<Rightarrow> bool" by auto
  then show ?case by simp
next
  case (Suc n)
  let ?s = "s\<lparr>terminal_rtc_wait := (terminal_rtc_wait s)[k := 1]\<rparr>"
  let ?P = "\<lambda>m. term_period s k dvd sint (terminal_rtc_count s ! k + of_nat m)"
  have l: "length (terminal_rtc_wait s) = 3" using Suc.prems by (simp add: rtc_inv_def)
  have wk: "wakes ?s k = ?P 1" by (simp add: wakes_def term_period_def term_freq_def)
  obtain t where t: "rtc_handler ?s = Some t" "rtc_inv t" "terminals t = terminals s" "process_rtc t = process_rtc s"
    "terminal_rtc_count t ! k = terminal_rtc_count s ! k + 1" "terminal_rtc_wait t ! k = (if ?P 1 then 0 else 1)"
    using rtc_handler_ok [OF rtc_inv_wait [OF Suc.prems], of k 1] assms(2) l wk by auto
  have p: "term_period t k = term_period s k" using t(3,4) by (simp add: term_period_def term_freq_def)
  have w: "rtc_waiting k t \<longleftrightarrow> \<not> ?P 1" using t(2,6) assms(2) by (simp add: rtc_waiting_def rtc_inv_def)
  have IH: "wake_ups k n t = Some (card {m. 1 \<le> m \<and> m \<le> n \<and> ?P (Suc m)})"
    using Suc.IH [OF t(2)] p t(5) by (simp add: add.assoc)
  show ?case using t(1) IH w count_Suc [of n ?P] by simp
qed

text \<open>
  C21. The virtualised clock keeps the requested rate: a process whose frequency is a power of two gets
  exactly that many wake-ups in any 1024 consecutive interrupts (one second of the device), whatever
  the tick counter held, across its overflow too.
\<close>

theorem rtc_rate_exact:
  assumes "rtc_inv s" "k < 3" "term_freq s k = 2 ^ j"
  shows "wake_ups k 1024 s = Some (2 ^ j)"
proof -
  have "(2 :: int) ^ j \<le> 2 ^ 10" using rtc_invD(5) [OF assms(1,2)] assms(3) by simp
  then have j: "j \<le> 10" by (rule power_le_imp_le_exp [rotated]) simp
  have "(1024 :: int) = 2 ^ (10 - j) * 2 ^ j" using j by (simp flip: power_add)
  then have "(1024 :: int) div 2 ^ j = 2 ^ (10 - j)"
    by (metis nonzero_mult_div_cancel_right power_not_zero zero_neq_numeral)
  then have p: "term_period s k = 2 ^ (10 - j)" by (simp add: term_period_def assms(3))
  have "(1024 :: nat) = 2 ^ (10 - j) * 2 ^ j" using j by (simp flip: power_add)
  then have "card {m. 1 \<le> m \<and> m \<le> 1024 \<and> int (2 ^ (10 - j)) dvd sint (terminal_rtc_count s ! k) + int m} = 2 ^ j"
    using multiples_in_block [of "2 ^ (10 - j)" "2 ^ j" "sint (terminal_rtc_count s ! k)"] by (simp only:) simp
  then show ?thesis
    using wake_ups_card [OF assms(1,2), of 1024] by (simp add: p sint_add_dvd)
qed

lemma boot_rtc_inv: "freq_ok f \<Longrightarrow> rtc_inv (boot_rtc f)"
  by (simp add: rtc_inv_def boot_rtc_def screen_inv_def active_ok_def cursor_ok_def list_all_iff blank_term_def
      blank_screen_def screen.extend_def freq_ok_def)

lemma boot_rtc_term: "term_freq (boot_rtc f) 0 = f" "ta (boot_rtc f) = 0"
  by (simp_all add: term_freq_def boot_rtc_def blank_term_def blank_screen_def screen.extend_def)

theorem rtc_read_returns_witness:
  "\<exists>s'. rtc_read (replicate 1024 rtc_handler) (boot_rtc 2) = Some (Returned 0 s') \<and> rtc_inv s'"
  using rtc_read_returns [of "boot_rtc 2" 1024] by (simp add: boot_rtc_inv freq_ok_def term_period_def boot_rtc_term)

theorem rtc_rate_exact_witness: "wake_ups 0 1024 (boot_rtc 32) = Some 32"
  using rtc_rate_exact [of "boot_rtc 32" 0 5] by (simp add: boot_rtc_inv freq_ok_def boot_rtc_term)

end
