(* ===== verification/Paging.thy ===== *)
theory Paging
  imports Rtc
begin

text \<open>
  The page tables, \<^verbatim>\<open>code/paging.c\<close> with the entry formats of \<^verbatim>\<open>code/x86_desc.h\<close>.  A one-bit
  field is a \<open>bool\<close>; the three-bit and the 20-bit fields are words of their width, so an assignment
  truncates as the bit field does.  The link-time addresses of the two page tables are parameters.

  \<open>translate\<close> is the address translation of the processor for this format (32-bit paging with 4 MB pages
  enabled), the reference against which the tables are judged.
\<close>

record pde_t =
  pde_p :: bool
  pde_rw :: bool
  pde_us :: bool
  pde_pwt :: bool
  pde_pcd :: bool
  pde_a :: bool
  pde_d :: bool
  pde_ps :: bool
  pde_g :: bool
  pde_avl :: "3 word"
  pde_addr :: "20 word"

record pte_t =
  pte_p :: bool
  pte_rw :: bool
  pte_us :: bool
  pte_pwt :: bool
  pte_pcd :: bool
  pte_a :: bool
  pte_d :: bool
  pte_pat :: bool
  pte_g :: bool
  pte_avl_9_11 :: "3 word"
  pte_addr_31_12 :: "20 word"

record paging = rtc +
  pd :: "nat \<Rightarrow> pde_t"
  pt :: "nat \<Rightarrow> pte_t"
  pt_user :: "nat \<Rightarrow> pte_t"

abbreviation NUM_PD :: nat where "NUM_PD \<equiv> 1024"
abbreviation NUM_PT :: nat where "NUM_PT \<equiv> 1024"
abbreviation VID_MEM_INDEX :: nat where "VID_MEM_INDEX \<equiv> 0xB8"
abbreviation PROGRAM_IMG_IDX :: nat where "PROGRAM_IMG_IDX \<equiv> 32"

definition set_pd :: "nat \<Rightarrow> (pde_t \<Rightarrow> pde_t) \<Rightarrow> 'a paging_scheme \<Rightarrow> 'a paging_scheme" where
  "set_pd i f s = s\<lparr>pd := (pd s)(i := f (pd s i))\<rparr>"

definition set_pt :: "nat \<Rightarrow> (pte_t \<Rightarrow> pte_t) \<Rightarrow> 'a paging_scheme \<Rightarrow> 'a paging_scheme" where
  "set_pt i f s = s\<lparr>pt := (pt s)(i := f (pt s i))\<rparr>"

definition set_pt_user :: "nat \<Rightarrow> (pte_t \<Rightarrow> pte_t) \<Rightarrow> 'a paging_scheme \<Rightarrow> 'a paging_scheme" where
  "set_pt_user i f s = s\<lparr>pt_user := (pt_user s)(i := f (pt_user s i))\<rparr>"

text \<open>The eleven assignments that fill an entry; every entry of the code sets these fields.\<close>

definition pde :: "bool \<Rightarrow> bool \<Rightarrow> bool \<Rightarrow> bool \<Rightarrow> u32 \<Rightarrow> pde_t" where
  "pde p us ps g addr = \<lparr>pde_p = p, pde_rw = True, pde_us = us, pde_pwt = False, pde_pcd = False, pde_a = False,
     pde_d = False, pde_ps = ps, pde_g = g, pde_avl = 0, pde_addr = ucast addr\<rparr>"

definition pte :: "bool \<Rightarrow> bool \<Rightarrow> u32 \<Rightarrow> pte_t" where
  "pte p us addr = \<lparr>pte_p = p, pte_rw = True, pte_us = us, pte_pwt = False, pte_pcd = False, pte_a = False,
     pte_d = False, pte_pat = False, pte_g = False, pte_avl_9_11 = 0, pte_addr_31_12 = ucast addr\<rparr>"

definition paging_init_kernel :: "u32 \<Rightarrow> 'a paging_scheme \<Rightarrow> 'a paging_scheme" where
  "paging_init_kernel pt_base s =
     (let s = set_pd 0 (\<lambda>_. pde True False False False (drop_bit 12 pt_base)) s;
          s = set_pd 1 (\<lambda>_. pde True False True True (push_bit 10 1)) s;
          s = set_pt VID_MEM_INDEX (\<lambda>_. pte True False 0xB8) s;
          s = set_pt 0xB9 (\<lambda>_. pte True False 0xB9) s;
          s = set_pt 0xBA (\<lambda>_. pte True False 0xBA) s
      in set_pt 0xBB (\<lambda>_. pte True False 0xBB) s)"

definition paging_init_user :: "u32 \<Rightarrow> 'a paging_scheme \<Rightarrow> 'a paging_scheme" where
  "paging_init_user pt_user_base s =
     (let s = fold (\<lambda>i. set_pd i (\<lambda>_. pde False False True False (push_bit 10 (of_nat i)))) [2..<NUM_PD] s;
          s = set_pd PROGRAM_IMG_IDX (\<lambda>e. e\<lparr>pde_p := True, pde_ps := True, pde_us := True\<rparr>) s;
          s = set_pd (PROGRAM_IMG_IDX + 1) (\<lambda>_. pde True True False False (drop_bit 12 pt_user_base)) s
      in set_pt_user VID_MEM_INDEX (\<lambda>_. pte True True 0xB8) s)"

text \<open>The last loop stops at the video entry, so it clears the entries below it and leaves the rest.\<close>

definition paging_init :: "u32 \<Rightarrow> u32 \<Rightarrow> 'a paging_scheme \<Rightarrow> 'a paging_scheme" where
  "paging_init pt_base pt_user_base s =
     (let s = paging_init_user pt_user_base (paging_init_kernel pt_base s)
      in fold (\<lambda>i. set_pt i (\<lambda>_. pte False False (of_nat i)))
           (takeWhile (\<lambda>i. i \<noteq> VID_MEM_INDEX) [0..<NUM_PT]) s)"

definition init_user_page :: "u32 \<Rightarrow> 'a paging_scheme \<Rightarrow> u32 \<times> 'a paging_scheme" where
  "init_user_page pid s =
     (if pid > 1 then (-1, s)
      else if pde_p (pd s (unat (pid + 2))) then (-1, s)
      else (0, set_pd (unat (pid + 2)) (\<lambda>_. pde True True True False (push_bit 10 (pid + 2))) s))"

definition close_user_page :: "u32 \<Rightarrow> 'a paging_scheme \<Rightarrow> u32 \<times> 'a paging_scheme" where
  "close_user_page pid s =
     (if pid > 1 then (-1, s)
      else (0, set_pd (unat (pid + 2)) (\<lambda>_. pde False True True False (push_bit 10 (pid + 2))) s))"

text \<open>
  The fragment by which \<open>sys_execute\<close>, \<open>halt_helper\<close>, \<open>pit_handler\<close> and \<open>set_active_terminal\<close> point
  the program page at the memory of a process.
\<close>

definition map_program :: "int \<Rightarrow> 'a paging_scheme \<Rightarrow> 'a paging_scheme" where
  "map_program pid s =
     (let pid_phys_addr = push_bit 10 (word_of_int (pid + 2) :: u32)
      in set_pd PROGRAM_IMG_IDX (\<lambda>e. e\<lparr>pde_p := True, pde_addr := ucast pid_phys_addr\<rparr>) s)"

lemmas paging_defs = set_pd_def set_pt_def set_pt_user_def pde_def pte_def

text \<open>The processor: \<open>user\<close> is the privilege of the access.\<close>

definition translate :: "u32 \<Rightarrow> u32 \<Rightarrow> 'a paging_scheme \<Rightarrow> bool \<Rightarrow> u32 \<Rightarrow> u32 option" where
  "translate pt_base pt_user_base s user va =
     (let e = pd s (unat (drop_bit 22 va))
      in if \<not> pde_p e \<or> user \<and> \<not> pde_us e then None
         else if pde_ps e then Some ((push_bit 12 (ucast (pde_addr e)) AND 0xFFC00000) OR (va AND 0x3FFFFF))
         else
           (let base = push_bit 12 (ucast (pde_addr e) :: u32);
                i = unat (drop_bit 12 va AND 0x3FF)
            in if base \<noteq> pt_base \<and> base \<noteq> pt_user_base then None
               else
                 (let t = (if base = pt_base then pt s i else pt_user s i)
                  in if \<not> pte_p t \<or> user \<and> \<not> pte_us t then None
                     else Some (push_bit 12 (ucast (pte_addr_31_12 t)) OR (va AND 0xFFF)))))"

text \<open>The physical memory of process \<open>pid\<close>: 4 MB from \<open>8 MB + pid * 4 MB\<close> on.\<close>

definition program_phys :: "int \<Rightarrow> u32 \<Rightarrow> u32" where
  "program_phys pid off = 0x800000 + word_of_int pid * 0x400000 + off"

text \<open>Page-aligned addresses of two different tables.\<close>

definition tables_at :: "u32 \<Rightarrow> u32 \<Rightarrow> bool" where
  "tables_at pt_base pt_user_base \<longleftrightarrow> pt_base AND 0xFFF = 0 \<and> pt_user_base AND 0xFFF = 0 \<and> pt_base \<noteq> pt_user_base"

text \<open>
  The state of the tables that the kernel keeps: the program page maps frame \<open>f\<close> (4 MB frames), the
  video page of the user shows the 4 KB frame \<open>v\<close>; everything else is as \<open>paging_init\<close> leaves it.
\<close>

definition page_inv :: "u32 \<Rightarrow> u32 \<Rightarrow> nat \<Rightarrow> nat \<Rightarrow> 'a paging_scheme \<Rightarrow> bool" where
  "page_inv pt_base pt_user_base f v s \<longleftrightarrow>
     pd s 0 = pde True False False False (drop_bit 12 pt_base)
   \<and> pd s 1 = pde True False True True (push_bit 10 1)
   \<and> pd s 32 = pde True True True False (push_bit 10 (of_nat f))
   \<and> pd s 33 = pde True True False False (drop_bit 12 pt_user_base)
   \<and> (\<forall>i < 1024. i \<notin> {0, 1, 32, 33} \<longrightarrow> \<not> pde_p (pd s i))
   \<and> (\<forall>i < 1024. if i \<in> {0xB8, 0xB9, 0xBA, 0xBB} then pt s i = pte True False (of_nat i) else \<not> pte_p (pt s i))
   \<and> (\<forall>i < 1024. if i = 0xB8 then pt_user s i = pte True True (of_nat v) else \<not> pte_p (pt_user s i))"

text \<open>The tables lie in zeroed memory before \<open>paging_init\<close>: no entry is present.\<close>

definition tables_clear :: "'a paging_scheme \<Rightarrow> bool" where
  "tables_clear s \<longleftrightarrow> list_all (\<lambda>i. \<not> pte_p (pt s i) \<and> \<not> pte_p (pt_user s i)) [0..<1024]"

text \<open>The tables before \<open>paging_init\<close>.\<close>

definition blank_paging :: paging where
  "blank_paging = rtc.extend (boot_rtc 1024)
     \<lparr>pd = (\<lambda>_. (pde False False False False 0)\<lparr>pde_rw := False\<rparr>),
      pt = (\<lambda>_. (pte False False 0)\<lparr>pte_rw := False\<rparr>), pt_user = (\<lambda>_. (pte False False 0)\<lparr>pte_rw := False\<rparr>)\<rparr>"

subsection \<open>Initialisation\<close>

lemma set_tables [simp]:
  "pd (set_pd i f s) = (pd s)(i := f (pd s i))" "pt (set_pd i f s) = pt s" "pt_user (set_pd i f s) = pt_user s"
  "pd (set_pt i g s) = pd s" "pt (set_pt i g s) = (pt s)(i := g (pt s i))" "pt_user (set_pt i g s) = pt_user s"
  "pd (set_pt_user i g s) = pd s" "pt (set_pt_user i g s) = pt s"
  "pt_user (set_pt_user i g s) = (pt_user s)(i := g (pt_user s i))"
  by (simp_all add: set_pd_def set_pt_def set_pt_user_def)

lemma fold_set_pd:
  "pd (fold (\<lambda>i. set_pd i (\<lambda>_. g i)) xs s) j = (if j \<in> set xs then g j else pd s j)"
  "pt (fold (\<lambda>i. set_pd i (\<lambda>_. g i)) xs s) = pt s"
  "pt_user (fold (\<lambda>i. set_pd i (\<lambda>_. g i)) xs s) = pt_user s"
  by (induction xs arbitrary: s) auto

lemma fold_set_pt:
  "pt (fold (\<lambda>i. set_pt i (\<lambda>_. g i)) xs s) j = (if j \<in> set xs then g j else pt s j)"
  "pd (fold (\<lambda>i. set_pt i (\<lambda>_. g i)) xs s) = pd s"
  "pt_user (fold (\<lambda>i. set_pt i (\<lambda>_. g i)) xs s) = pt_user s"
  by (induction xs arbitrary: s) auto

lemma clear_range: "takeWhile (\<lambda>i. i \<noteq> VID_MEM_INDEX) [0..<NUM_PT] = [0..<184]"
proof -
  have "[0..<NUM_PT] = [0..<184] @ [184..<1024]" using upt_add_eq_append [of 0 184 840] by simp
  also have "[184..<1024] = 184 # [185..<1024]" by (simp add: upt_rec del: upt_rec_numeral)
  finally have "[0..<NUM_PT] = [0..<184] @ 184 # [185..<1024]" .
  then show ?thesis by (simp only:) (subst takeWhile_append2, auto simp del: upt_rec_numeral)
qed

lemma page_inv_init:
  assumes "tables_clear s"
  shows "page_inv pt_base pt_user_base 32 0xB8 (paging_init pt_base pt_user_base s)"
proof -
  have c: "\<not> pte_p (pt s i)" "\<not> pte_p (pt_user s i)" if "i < 1024" for i
    using assms that by (auto simp: tables_clear_def list_all_iff)
  show ?thesis
    by (simp add: page_inv_def paging_init_def paging_init_user_def paging_init_kernel_def Let_def clear_range
        fold_set_pd fold_set_pt c del: upt_rec_numeral) (auto simp: pde_def pte_def c)
qed

subsection \<open>Translation\<close>

text \<open>The simplifier reads the bits of a word literal from the integer of the same value.\<close>

lemma bit_masks:
  "bit (0xFFF :: int) n \<longleftrightarrow> n < 12" "bit (0x3FFFFF :: int) n \<longleftrightarrow> n < 22" "bit (0x3FF :: int) n \<longleftrightarrow> n < 10"
  "bit (0xFFC00000 :: int) n \<longleftrightarrow> 22 \<le> n \<and> n < 32"
proof -
  have e: "(0xFFF :: int) = mask 12" "(0x3FFFFF :: int) = mask 22" "(0x3FF :: int) = mask 10"
    "(0xFFC00000 :: int) = push_bit 22 (mask 10)"
    by (simp_all add: mask_eq_exp_minus_1 push_bit_eq_mult)
  show "bit (0xFFF :: int) n \<longleftrightarrow> n < 12" "bit (0x3FFFFF :: int) n \<longleftrightarrow> n < 22" "bit (0x3FF :: int) n \<longleftrightarrow> n < 10"
    "bit (0xFFC00000 :: int) n \<longleftrightarrow> 22 \<le> n \<and> n < 32"
    unfolding e by (auto simp: bit_simps)
qed

text \<open>Bits of a word over a split position, so that shifts in and out cancel.\<close>

lemma table_address:
  assumes "base AND 0xFFF = (0 :: u32)"
  shows "push_bit 12 (drop_bit 12 base) = base"
proof (rule bit_word_eqI)
  fix n assume n: "n < LENGTH(32)"
  have "\<not> bit (base AND 0xFFF) n" using assms by simp
  then have "\<not> bit base n" if "n < 12" using that by (simp add: bit_simps bit_masks)
  with n show "bit (push_bit 12 (drop_bit 12 base)) n = bit base n"
    by (cases "n < 12") (auto simp: bit_simps)
qed

lemma big_page_address:
  "(push_bit 12 (ucast (ucast (push_bit 10 w :: u32) :: 20 word)) AND 0xFFC00000) OR (va AND 0x3FFFFF)
     = push_bit 22 w OR (va AND 0x3FFFFF :: u32)"
  by (rule bit_word_eqI) (auto simp: bit_simps bit_masks)

lemma va_split: "push_bit 22 (drop_bit 22 va) OR (va AND 0x3FFFFF) = (va :: u32)"
  "push_bit 12 (drop_bit 12 va) OR (va AND 0xFFF) = (va :: u32)"
proof -
  show "push_bit 22 (drop_bit 22 va) OR (va AND 0x3FFFFF) = va"
  proof (rule bit_word_eqI)
    fix n assume "n < LENGTH(32)"
    then show "bit (push_bit 22 (drop_bit 22 va) OR (va AND 0x3FFFFF)) n = bit va n"
      by (cases "n < 22") (auto simp: bit_simps bit_masks)
  qed
  show "push_bit 12 (drop_bit 12 va) OR (va AND 0xFFF) = va"
  proof (rule bit_word_eqI)
    fix n assume "n < LENGTH(32)"
    then show "bit (push_bit 12 (drop_bit 12 va) OR (va AND 0xFFF)) n = bit va n"
      by (cases "n < 12") (auto simp: bit_simps bit_masks)
  qed
qed

lemma or_eq_plus_offset: "push_bit 22 w OR (va AND 0x3FFFFF) = push_bit 22 w + (va AND 0x3FFFFF :: u32)"
proof -
  have "push_bit 22 w AND (va AND 0x3FFFFF) = (0 :: u32)"
    by (rule bit_word_eqI) (auto simp: bit_simps bit_masks)
  then show ?thesis by (simp only: disjunctive_add_eq_or)
qed

lemma small_page_address: "push_bit 12 (ucast (ucast w :: 20 word) :: u32) = push_bit 12 (w :: u32)"
  by (rule bit_word_eqI) (auto simp: bit_simps)

lemma dir_index_less: "unat (drop_bit 22 (va :: u32)) < 1024"
proof -
  have "unat va < 1024 * 4194304" using unat_u32_bound [of va] by simp
  then show ?thesis by (simp add: unat_div drop_bit_eq_div div_less_iff_less_mult)
qed

lemma table_index_less: "unat (w AND 0x3FF :: u32) < 1024"
proof -
  have "w AND 0x3FF = take_bit 10 w" by (rule bit_word_eqI) (auto simp: bit_simps bit_masks)
  then show ?thesis using take_bit_nat_less_exp [of 10 "unat w"] by (simp add: unsigned_take_bit_eq)
qed

lemma low_table_index: "unat (drop_bit 22 va) = 0 \<Longrightarrow> drop_bit 12 va AND 0x3FF = drop_bit 12 (va :: u32)"
proof (rule bit_word_eqI)
  fix n assume "unat (drop_bit 22 va) = 0" "n < LENGTH(32)"
  then have "drop_bit 22 va = 0" by (simp only: unat_eq_0)
  then have "\<not> bit (drop_bit 22 va) m" for m by simp
  from this [of "n - 10"] show "bit (drop_bit 12 va AND 0x3FF) n = bit (drop_bit 12 va) n"
    by (cases "n < 10") (auto simp: bit_simps bit_masks)
qed

lemma page_invD:
  assumes "page_inv pt_base pt_user_base f v s"
  shows "pd s 0 = pde True False False False (drop_bit 12 pt_base)"
    "pd s 1 = pde True False True True (push_bit 10 1)"
    "pd s 32 = pde True True True False (push_bit 10 (of_nat f))"
    "pd s 33 = pde True True False False (drop_bit 12 pt_user_base)"
    "i < 1024 \<Longrightarrow> i \<notin> {0, 1, 32, 33} \<Longrightarrow> \<not> pde_p (pd s i)"
    "i < 1024 \<Longrightarrow> i \<in> {0xB8, 0xB9, 0xBA, 0xBB} \<Longrightarrow> pt s i = pte True False (of_nat i)"
    "i < 1024 \<Longrightarrow> i \<notin> {0xB8, 0xB9, 0xBA, 0xBB} \<Longrightarrow> \<not> pte_p (pt s i)"
    "pt_user s 0xB8 = pte True True (of_nat v)"
    "i < 1024 \<Longrightarrow> i \<noteq> 0xB8 \<Longrightarrow> \<not> pte_p (pt_user s i)"
proof -
  have u: "\<forall>i < 1024. if i = 0xB8 then pt_user s i = pte True True (of_nat v) else \<not> pte_p (pt_user s i)"
    using assms unfolding page_inv_def by (elim conjE)
  show "pt_user s 0xB8 = pte True True (of_nat v)" using u [THEN spec, of "0xB8"] by simp
  show "i < 1024 \<Longrightarrow> i \<noteq> 0xB8 \<Longrightarrow> \<not> pte_p (pt_user s i)" using u [THEN spec, of i] by simp
qed (use assms in \<open>unfold page_inv_def, presburger+\<close>)

lemma translate_user_eq:
  assumes "page_inv pt_base pt_user_base f v s" "tables_at pt_base pt_user_base"
  shows "translate pt_base pt_user_base s True va =
    (if unat (drop_bit 22 va) = 32 then Some (push_bit 22 (of_nat f) + (va AND 0x3FFFFF))
     else if unat (drop_bit 22 va) = 33 \<and> unat (drop_bit 12 va AND 0x3FF) = 0xB8
       then Some (push_bit 12 (of_nat v) OR (va AND 0xFFF))
     else None)"
proof -
  note d = page_invD [OF assms(1)]
  have al: "pt_base AND 0xFFF = 0" "pt_user_base AND 0xFFF = 0" "pt_base \<noteq> pt_user_base"
    using assms(2) by (auto simp: tables_at_def)
  let ?i = "unat (drop_bit 22 va)"
  consider "?i = 0" | "?i = 1" | "?i = 32" | "?i = 33" | "?i \<notin> {0, 1, 32, 33}"
    by (cases "?i \<in> {0, 1, 32, 33}") auto
  then show ?thesis
  proof cases
    case 4
    have j: "unat (drop_bit 12 va AND 0x3FF) < 1024" by (rule table_index_less)
    show ?thesis using 4 d(4,8) d(9) [OF j] al
      by (simp add: translate_def Let_def pde_def table_address small_page_address) (auto simp: pte_def small_page_address)
  next
    case 5
    then show ?thesis using d(5) [OF dir_index_less [of va]] by (simp add: translate_def Let_def)
  qed (simp_all add: translate_def Let_def d(1-3) pde_def big_page_address or_eq_plus_offset del: One_nat_def)
qed

lemma translate_kernel_eq:
  assumes "page_inv pt_base pt_user_base f v s" "tables_at pt_base pt_user_base" "unat va < 0x8000000"
  shows "translate pt_base pt_user_base s False va =
    (if 0xB8000 \<le> unat va \<and> unat va < 0xBC000 \<or> 0x400000 \<le> unat va \<and> unat va < 0x800000 then Some va else None)"
proof -
  note d = page_invD [OF assms(1)]
  have al: "pt_base AND 0xFFF = 0" using assms(2) by (auto simp: tables_at_def)
  let ?i = "unat (drop_bit 22 va)"
  have i: "?i = unat va div 4194304" by (simp add: unat_div drop_bit_eq_div)
  consider "?i = 0" | "?i = 1" | "?i \<notin> {0, 1, 32, 33}" using i assms(3) by fastforce
  then show ?thesis
  proof cases
    case 1
    let ?j = "drop_bit 12 va"
    have j: "drop_bit 12 va AND 0x3FF = ?j" using low_table_index [OF 1] .
    have jn: "unat ?j = unat va div 4096" by (simp add: unat_div drop_bit_eq_div)
    have jl: "unat ?j < 1024" using table_index_less [of ?j] j by simp
    have v: "unat ?j \<in> {0xB8, 0xB9, 0xBA, 0xBB} \<longleftrightarrow> 0xB8000 \<le> unat va \<and> unat va < 0xBC000"
      unfolding jn by auto
    have lt: "unat va < 0x400000" using 1 i by simp
    show ?thesis
    proof (cases "unat ?j \<in> {0xB8, 0xB9, 0xBA, 0xBB}")
      case True
      then have "translate pt_base pt_user_base s False va = Some (push_bit 12 (of_nat (unat ?j)) OR (va AND 0xFFF))"
        using 1 d(1) d(6) [OF jl True] al
        by (simp add: translate_def Let_def j pde_def table_address small_page_address) (simp add: pte_def small_page_address)
      with True v show ?thesis by (simp add: va_split)
    next
      case False
      then have "translate pt_base pt_user_base s False va = None"
        using 1 d(1) d(7) [OF jl False] al by (simp add: translate_def Let_def j pde_def table_address small_page_address)
      with False v lt show ?thesis by auto
    qed
  next
    case 2
    then have w: "drop_bit 22 va = 1" by (metis unat_1 word_unat_eq_iff)
    have "translate pt_base pt_user_base s False va = Some (push_bit 22 1 OR (va AND 0x3FFFFF))"
      unfolding translate_def Let_def 2 d(2) big_page_address [symmetric] by (simp add: pde_def)
    then have "translate pt_base pt_user_base s False va = Some va" using va_split(1) [of va] w by simp
    moreover have "0x400000 \<le> unat va" "unat va < 0x800000" using 2 i by auto
    ultimately show ?thesis by simp
  next
    case 3
    then have "translate pt_base pt_user_base s False va = None"
      using d(5) [OF dir_index_less [of va]] by (simp add: translate_def Let_def)
    moreover have "0x800000 \<le> unat va" using 3 i by auto
    ultimately show ?thesis by simp
  qed
qed

lemma page_inv_map_program:
  assumes "page_inv pt_base pt_user_base f v s" "0 \<le> pid"
  shows "page_inv pt_base pt_user_base (nat pid + 2) v (map_program pid s)"
proof -
  have "word_of_int (pid + 2) = (of_nat (nat pid + 2) :: u32)" using assms(2) by simp
  then have "pd (map_program pid s) 32 = pde True True True False (push_bit 10 (of_nat (nat pid + 2)))"
    using page_invD(3) [OF assms(1)] by (simp add: map_program_def Let_def pde_def add.commute)
  then show ?thesis using assms(1) by (simp add: page_inv_def map_program_def Let_def)
qed

lemma or_eq_plus_low: "push_bit 12 w OR (va AND 0xFFF) = push_bit 12 w + (va AND 0xFFF :: u32)"
proof -
  have "push_bit 12 w AND (va AND 0xFFF) = (0 :: u32)"
    by (rule bit_word_eqI) (auto simp: bit_simps bit_masks)
  then show ?thesis by (simp only: disjunctive_add_eq_or)
qed

lemma program_window:
  "unat (drop_bit 22 va) = 32 \<longleftrightarrow> 0x8000000 \<le> unat va \<and> unat (va :: u32) < 0x8400000"
  "unat (drop_bit 22 va) = 32 \<Longrightarrow> va AND 0x3FFFFF = va - 0x8000000"
proof -
  show "unat (drop_bit 22 va) = 32 \<longleftrightarrow> 0x8000000 \<le> unat va \<and> unat (va :: u32) < 0x8400000"
    by (auto simp: unat_div drop_bit_eq_div)
  assume "unat (drop_bit 22 va) = 32"
  then have "drop_bit 22 va = 32" using u32_eq_of_nat_iff [of 32 "drop_bit 22 va"] by simp
  then show "va AND 0x3FFFFF = va - 0x8000000" using va_split(1) [of va] or_eq_plus_offset [of 32 va]
    by (simp add: eq_diff_eq add.commute push_bit_eq_mult)
qed

lemma video_window:
  "unat (drop_bit 22 va) = 33 \<and> unat (drop_bit 12 va AND 0x3FF) = 0xB8
     \<longleftrightarrow> 0x84B8000 \<le> unat va \<and> unat (va :: u32) < 0x84B9000"
  "0x84B8000 \<le> unat va \<and> unat (va :: u32) < 0x84B9000 \<Longrightarrow> va AND 0xFFF = va - 0x84B8000"
proof -
  have "drop_bit 12 va AND 0x3FF = take_bit 10 (drop_bit 12 va)"
    by (rule bit_word_eqI) (auto simp: bit_simps bit_masks)
  then have j: "unat (drop_bit 12 va AND 0x3FF) = unat va div 4096 mod 1024"
    by (simp add: unat_mod take_bit_eq_mod unat_div drop_bit_eq_div)
  have i: "unat (drop_bit 22 va) = unat va div 4096 div 1024"
    by (simp add: unat_div drop_bit_eq_div div_mult2_eq [symmetric])
  show "unat (drop_bit 22 va) = 33 \<and> unat (drop_bit 12 va AND 0x3FF) = 0xB8
     \<longleftrightarrow> 0x84B8000 \<le> unat va \<and> unat va < 0x84B9000"
  proof -
    have "q div 1024 = 33 \<and> q mod 1024 = 184 \<longleftrightarrow> q = (33976 :: nat)" for q
    proof
      assume "q div 1024 = 33 \<and> q mod 1024 = 184"
      then have "q = 33 * 1024 + 184" by (metis div_mult_mod_eq)
      then show "q = 33976" by simp
    qed simp
    then have "unat va div 4096 div 1024 = 33 \<and> unat va div 4096 mod 1024 = 184 \<longleftrightarrow> unat va div 4096 = 33976" .
    also have "\<dots> \<longleftrightarrow> 0x84B8000 \<le> unat va \<and> unat va < 0x84B9000" by auto
    finally show ?thesis unfolding i j .
  qed
  assume "0x84B8000 \<le> unat va \<and> unat va < 0x84B9000"
  then have "unat (drop_bit 12 va) = 0x84B8" by (auto simp: unat_div drop_bit_eq_div)
  then have "drop_bit 12 va = 0x84B8" using u32_eq_of_nat_iff [of "0x84B8" "drop_bit 12 va"] by simp
  then show "va AND 0xFFF = va - 0x84B8000" using va_split(2) [of va] or_eq_plus_low [of "0x84B8" va]
    by (simp add: eq_diff_eq add.commute push_bit_eq_mult)
qed

lemma user_access:
  assumes "page_inv pt_base pt_user_base (nat pid + 2) v s" "tables_at pt_base pt_user_base" "0 \<le> pid"
  shows "translate pt_base pt_user_base s True va =
    (if 0x8000000 \<le> unat va \<and> unat va < 0x8400000 then Some (program_phys pid (va - 0x8000000))
     else if 0x84B8000 \<le> unat va \<and> unat va < 0x84B9000 then Some (of_nat v * 4096 + (va - 0x84B8000))
     else None)"
proof -
  have "push_bit 22 (of_nat (nat pid + 2)) = 0x800000 + word_of_int pid * (0x400000 :: u32)"
    using assms(3) by (simp add: push_bit_eq_mult algebra_simps)
  then have w: "push_bit 22 (of_nat (nat pid + 2)) + (va AND 0x3FFFFF) = program_phys pid (va - 0x8000000)"
    if "0x8000000 \<le> unat va \<and> unat va < 0x8400000"
    using that program_window [of va] by (simp only: program_phys_def)
  have x: "push_bit 12 (of_nat v) OR (va AND 0xFFF) = of_nat v * 4096 + (va - 0x84B8000)"
    if "0x84B8000 \<le> unat va \<and> unat va < 0x84B9000"
    by (subst or_eq_plus_low) (simp add: video_window(2) [OF that] push_bit_eq_mult)
  show ?thesis
    unfolding translate_user_eq [OF assms(1,2)] program_window(1) video_window(1)
    using w x by (simp only: cong: if_cong)
qed

text \<open>
  C13. What a user program can reach: with process \<open>pid\<close> mapped, a user access translates exactly for the
  4 MB at 128 MB, which are the process's own frame, and for the one 4 KB page at \<open>0x84B8000\<close>, which
  shows the current video page; every other access of a user program faults.  The page tables of the
  kernel, its code, the process control blocks and the memory of the other processes are out of reach.
\<close>

theorem user_access_exact:
  assumes "page_inv pt_base pt_user_base f v s" "tables_at pt_base pt_user_base" "0 \<le> pid"
  shows "translate pt_base pt_user_base (map_program pid s) True va =
    (if 0x8000000 \<le> unat va \<and> unat va < 0x8400000 then Some (program_phys pid (va - 0x8000000))
     else if 0x84B8000 \<le> unat va \<and> unat va < 0x84B9000 then Some (of_nat v * 4096 + (va - 0x84B8000))
     else None)"
  by (rule user_access [OF page_inv_map_program [OF assms(1,3)] assms(2,3)])

text \<open>The frames of the six processes lie behind the kernel, one after the other.\<close>

lemma unat_program_phys:
  assumes "0 \<le> pid" "pid < 6" "unat off < 0x400000"
  shows "unat (program_phys pid off) = 0x800000 + nat pid * 0x400000 + unat off"
proof -
  have "program_phys pid off = of_nat (0x800000 + nat pid * 0x400000 + unat off)"
    using assms(1) by (simp add: program_phys_def)
  moreover have "0x800000 + nat pid * 0x400000 + unat off < 4294967296" using assms by simp
  ultimately show ?thesis by (simp only: unat_of_nat_u32)
qed

text \<open>
  The kernel after \<open>paging_init\<close>: below 128 MB its accesses reach exactly the four video pages and the
  4 MB of the kernel image, each at its own address; page zero is not mapped, so a null pointer
  faults.
\<close>

theorem paging_init_kernel_map:
  assumes "tables_clear s" "tables_at pt_base pt_user_base" "unat va < 0x8000000"
  shows "translate pt_base pt_user_base (paging_init pt_base pt_user_base s) False va =
    (if 0xB8000 \<le> unat va \<and> unat va < 0xBC000 \<or> 0x400000 \<le> unat va \<and> unat va < 0x800000 then Some va else None)"
  by (rule translate_kernel_eq [OF page_inv_init [OF assms(1)] assms(2,3)])

lemma frames_disjoint:
  assumes "0 \<le> p" "p < 6" "0 \<le> q" "q < 6" "p \<noteq> q" "unat off < 0x400000" "unat off' < 0x400000"
  shows "program_phys p off \<noteq> program_phys q off' \<and> 0x800000 \<le> unat (program_phys p off)"
proof -
  have "nat p < nat q \<or> nat q < nat p" using assms by linarith
  then have "unat (program_phys p off) \<noteq> unat (program_phys q off')"
    unfolding unat_program_phys [OF assms(1,2,6)] unat_program_phys [OF assms(3,4,7)]
    using assms(6,7) by auto
  then show ?thesis using unat_program_phys [OF assms(1,2,6)] by auto
qed

text \<open>
  Two processes never share program memory, and neither overlaps the kernel: the physical bytes
  behind any offset of process \<open>p\<close> and any offset of a different process \<open>q\<close> differ, and all lie at or
  above 8 MB.
\<close>

theorem process_memory_disjoint:
  assumes "0 \<le> p" "p < 6" "0 \<le> q" "q < 6" "p \<noteq> q" "unat off < 0x400000" "unat off' < 0x400000"
  shows "program_phys p off \<noteq> program_phys q off' \<and> 0x800000 \<le> unat (program_phys p off)"
  by (rule frames_disjoint [OF assms])

lemma blank_paging_clear: "tables_clear blank_paging" "tables_at 0x40B000 0x40C000"
  by (simp_all add: tables_clear_def blank_paging_def rtc.extend_def pte_def list_all_iff tables_at_def)

theorem user_access_exact_witness:
  "translate 0x40B000 0x40C000 (map_program 3 (paging_init 0x40B000 0x40C000 blank_paging)) True 0x8048000
     = Some 0x1448000"
  using user_access_exact [OF page_inv_init [OF blank_paging_clear(1)] blank_paging_clear(2), of 3 "0x8048000"]
  by (simp add: program_phys_def)

theorem paging_init_kernel_map_witness:
  "translate 0x40B000 0x40C000 (paging_init 0x40B000 0x40C000 blank_paging) False 0x400100 = Some 0x400100"
  using paging_init_kernel_map [OF blank_paging_clear, of "0x400100"] by simp

theorem process_memory_disjoint_witness: "program_phys 0 0x3FFFFF \<noteq> program_phys 1 0"
  using process_memory_disjoint [of 0 1 "0x3FFFFF" 0] by simp

end
