(* ===== verification/Keyboard.thy ===== *)
theory Keyboard
  imports Paging
begin

text \<open>
  The keyboard driver, \<^verbatim>\<open>code/keyboard.c\<close>: scan codes to characters in four layers, the line buffer
  of the shown terminal, the control and alt shortcuts, and the switch between the three terminals,
  which saves and restores the line buffer and the video page.  The modifier variables hold 0 or 1 and
  are \<open>bool\<close>; \<open>fn_key\<close> is the variable \<open>function\<close>.  The buffer index never exceeds 128 and is a \<open>nat\<close>.

  \<open>line_editor\<close> is the interface of the line buffer: what typing, deleting and clearing do to the line.
\<close>

record kbd = paging +
  tab :: bool
  caps :: bool
  l_shift :: bool
  r_shift :: bool
  ctrl :: bool
  alt :: bool
  backspace :: bool
  fn_key :: int
  keyboard_buf :: buf
  key_idx :: nat
  term_init_done :: bool

abbreviation KEY_BUF_SIZE :: nat where "KEY_BUF_SIZE \<equiv> 128"
abbreviation TAB_SPACE :: nat where "TAB_SPACE \<equiv> 4"
abbreviation IRQ1 :: u32 where "IRQ1 \<equiv> 1"

definition keyboard_init :: "'a pic_scheme \<Rightarrow> 'a pic_scheme" where
  "keyboard_init s = enable_irq 1 s"

text \<open>The character keys of the four layers: no modifier, shift, caps lock, caps lock with shift.\<close>

definition keys_lower :: "(u32 \<times> char) list" where
  "keys_lower = [
     (0x29, CHR 0x60), (0x02, CHR ''1''), (0x03, CHR ''2''), (0x04, CHR ''3''), (0x05, CHR ''4''),
     (0x06, CHR ''5''), (0x07, CHR ''6''), (0x08, CHR ''7''), (0x09, CHR ''8''),
     (0x0A, CHR ''9''), (0x0B, CHR ''0''), (0x0C, CHR 0x2D), (0x0D, CHR 0x3D), (0x10, CHR ''q''),
     (0x11, CHR ''w''), (0x12, CHR ''e''), (0x13, CHR ''r''), (0x14, CHR ''t''),
     (0x15, CHR ''y''), (0x16, CHR ''u''), (0x17, CHR ''i''), (0x18, CHR ''o''),
     (0x19, CHR ''p''), (0x1A, CHR 0x5B), (0x1B, CHR 0x5D), (0x2B, CHR 0x5C), (0x1E, CHR ''a''),
     (0x1F, CHR ''s''), (0x20, CHR ''d''), (0x21, CHR ''f''), (0x22, CHR ''g''),
     (0x23, CHR ''h''), (0x24, CHR ''j''), (0x25, CHR ''k''), (0x26, CHR ''l''), (0x27, CHR 0x3B),
     (0x28, CHR 0x27), (0x1C, CHR 0x0A), (0x2C, CHR ''z''), (0x2D, CHR ''x''), (0x2E, CHR ''c''),
     (0x2F, CHR ''v''), (0x30, CHR ''b''), (0x31, CHR ''n''), (0x32, CHR ''m''), (0x33, CHR 0x2C),
     (0x34, CHR 0x2E), (0x35, CHR 0x2F), (0x39, CHR 0x20)]"

definition keys_shift :: "(u32 \<times> char) list" where
  "keys_shift = [
     (0x29, CHR 0x7E), (0x02, CHR 0x21), (0x03, CHR 0x40), (0x04, CHR 0x23), (0x05, CHR 0x24),
     (0x06, CHR 0x25), (0x07, CHR 0x5E), (0x08, CHR 0x26), (0x09, CHR 0x2A), (0x0A, CHR 0x28),
     (0x0B, CHR 0x29), (0x0C, CHR 0x5F), (0x0D, CHR 0x2B), (0x10, CHR ''Q''), (0x11, CHR ''W''),
     (0x12, CHR ''E''), (0x13, CHR ''R''), (0x14, CHR ''T''), (0x15, CHR ''Y''),
     (0x16, CHR ''U''), (0x17, CHR ''I''), (0x18, CHR ''O''), (0x19, CHR ''P''), (0x1A, CHR 0x7B),
     (0x1B, CHR 0x7D), (0x2B, CHR 0x7C), (0x1E, CHR ''A''), (0x1F, CHR ''S''), (0x20, CHR ''D''),
     (0x21, CHR ''F''), (0x22, CHR ''G''), (0x23, CHR ''H''), (0x24, CHR ''J''),
     (0x25, CHR ''K''), (0x26, CHR ''L''), (0x27, CHR 0x3A), (0x28, CHR 0x22), (0x1C, CHR 0x0A),
     (0x2C, CHR ''Z''), (0x2D, CHR ''X''), (0x2E, CHR ''C''), (0x2F, CHR ''V''),
     (0x30, CHR ''B''), (0x31, CHR ''N''), (0x32, CHR ''M''), (0x33, CHR 0x3C), (0x34, CHR 0x3E),
     (0x35, CHR 0x3F), (0x39, CHR 0x20)]"

definition keys_caps :: "(u32 \<times> char) list" where
  "keys_caps = [
     (0x29, CHR 0x60), (0x02, CHR ''1''), (0x03, CHR ''2''), (0x04, CHR ''3''), (0x05, CHR ''4''),
     (0x06, CHR ''5''), (0x07, CHR ''6''), (0x08, CHR ''7''), (0x09, CHR ''8''),
     (0x0A, CHR ''9''), (0x0B, CHR ''0''), (0x0C, CHR 0x2D), (0x0D, CHR 0x3D), (0x10, CHR ''Q''),
     (0x11, CHR ''W''), (0x12, CHR ''E''), (0x13, CHR ''R''), (0x14, CHR ''T''),
     (0x15, CHR ''Y''), (0x16, CHR ''U''), (0x17, CHR ''I''), (0x18, CHR ''O''),
     (0x19, CHR ''P''), (0x1A, CHR 0x7B), (0x1B, CHR 0x7D), (0x2B, CHR 0x7C), (0x1E, CHR ''A''),
     (0x1F, CHR ''S''), (0x20, CHR ''D''), (0x21, CHR ''F''), (0x22, CHR ''G''),
     (0x23, CHR ''H''), (0x24, CHR ''J''), (0x25, CHR ''K''), (0x26, CHR ''L''), (0x27, CHR 0x3A),
     (0x28, CHR 0x22), (0x1C, CHR 0x0A), (0x2C, CHR ''Z''), (0x2D, CHR ''X''), (0x2E, CHR ''C''),
     (0x2F, CHR ''V''), (0x30, CHR ''B''), (0x31, CHR ''N''), (0x32, CHR ''M''), (0x33, CHR 0x3C),
     (0x34, CHR 0x3E), (0x35, CHR 0x3F), (0x39, CHR 0x20)]"

definition keys_caps_shift :: "(u32 \<times> char) list" where
  "keys_caps_shift = [
     (0x29, CHR 0x7E), (0x02, CHR 0x21), (0x03, CHR 0x40), (0x04, CHR 0x23), (0x05, CHR 0x24),
     (0x06, CHR 0x25), (0x07, CHR 0x5E), (0x08, CHR 0x26), (0x09, CHR 0x2A), (0x0A, CHR 0x28),
     (0x0B, CHR 0x29), (0x0C, CHR 0x5F), (0x0D, CHR 0x2B), (0x10, CHR ''q''), (0x11, CHR ''w''),
     (0x12, CHR ''e''), (0x13, CHR ''r''), (0x14, CHR ''t''), (0x15, CHR ''y''),
     (0x16, CHR ''u''), (0x17, CHR ''i''), (0x18, CHR ''o''), (0x19, CHR ''p''), (0x1A, CHR 0x5B),
     (0x1B, CHR 0x5D), (0x2B, CHR 0x5C), (0x1E, CHR ''a''), (0x1F, CHR ''s''), (0x20, CHR ''d''),
     (0x21, CHR ''f''), (0x22, CHR ''g''), (0x23, CHR ''h''), (0x24, CHR ''j''),
     (0x25, CHR ''k''), (0x26, CHR ''l''), (0x27, CHR 0x3B), (0x28, CHR 0x27), (0x1C, CHR 0x0A),
     (0x2C, CHR ''z''), (0x2D, CHR ''x''), (0x2E, CHR ''c''), (0x2F, CHR ''v''),
     (0x30, CHR ''b''), (0x31, CHR ''n''), (0x32, CHR ''m''), (0x33, CHR 0x2C), (0x34, CHR 0x2E),
     (0x35, CHR 0x2F), (0x39, CHR 0x20)]"

text \<open>The keys that set a variable are the same in every layer.\<close>

definition modifier_key :: "u32 \<Rightarrow> 'a kbd_scheme \<Rightarrow> 'a kbd_scheme option" where
  "modifier_key k s =
     (if k = 0x0E then Some (s\<lparr>backspace := True\<rparr>)
      else if k = 0x8E then Some (s\<lparr>backspace := False\<rparr>)
      else if k = 0x0F then Some (s\<lparr>tab := True\<rparr>)
      else if k = 0x8F then Some (s\<lparr>tab := False\<rparr>)
      else if k = 0x3A then Some (s\<lparr>caps := \<not> caps s\<rparr>)
      else if k = 0x2A then Some (s\<lparr>l_shift := True\<rparr>)
      else if k = 0xAA then Some (s\<lparr>l_shift := False\<rparr>)
      else if k = 0x36 then Some (s\<lparr>r_shift := True\<rparr>)
      else if k = 0xB6 then Some (s\<lparr>r_shift := False\<rparr>)
      else if k = 0x1D then Some (s\<lparr>ctrl := True\<rparr>)
      else if k = 0x9D then Some (s\<lparr>ctrl := False\<rparr>)
      else if k = 0x38 then Some (s\<lparr>alt := True\<rparr>)
      else if k = 0xB8 then Some (s\<lparr>alt := False\<rparr>)
      else if k = 0x3B then Some (s\<lparr>fn_key := 1\<rparr>)
      else if k = 0x3C then Some (s\<lparr>fn_key := 2\<rparr>)
      else if k = 0x3D then Some (s\<lparr>fn_key := 3\<rparr>)
      else if k = 0xBB \<or> k = 0xBC \<or> k = 0xBD then Some (s\<lparr>fn_key := 0\<rparr>)
      else None)"

definition get_key :: "u32 \<Rightarrow> 'a kbd_scheme \<Rightarrow> u8 \<times> 'a kbd_scheme" where
  "get_key keypress s =
     (let shift = l_shift s \<or> r_shift s;
          keys = (if caps s then (if shift then keys_caps_shift else keys_caps)
                  else (if shift then keys_shift else keys_lower))
      in case modifier_key keypress s of
           Some s' \<Rightarrow> (0, s')
         | None \<Rightarrow> (case map_of keys keypress of Some c \<Rightarrow> (of_char c, s) | None \<Rightarrow> (0, s)))"

text \<open>The line buffer.  The result is the return value with the new buffer and index.\<close>

definition write_char :: "buf \<Rightarrow> nat \<Rightarrow> u8 \<Rightarrow> (int \<times> buf \<times> nat) option" where
  "write_char b idx c =
     (if idx = KEY_BUF_SIZE - 1 \<and> c \<noteq> NL then Some (-1, b, idx)
      else if idx \<ge> KEY_BUF_SIZE then Some (-1, b, idx)
      else do { b \<leftarrow> wr b idx c; Some (0, b, idx + 1) })"

definition delete_char :: "buf \<Rightarrow> nat \<Rightarrow> (int \<times> buf \<times> nat) option" where
  "delete_char b idx =
     (if idx \<le> 0 then Some (-1, b, idx)
      else do { b \<leftarrow> wr b (idx - 1) 0; Some (0, b, idx - 1) })"

definition clear_keyboard_buf :: "buf \<Rightarrow> (int \<times> buf \<times> nat) option" where
  "clear_keyboard_buf b = do { b \<leftarrow> fill_buf b (replicate KEY_BUF_SIZE 0); Some (0, b, 0) }"

text \<open>The three operations on the driver's own buffer.\<close>

definition kb_write :: "u8 \<Rightarrow> 'a kbd_scheme \<Rightarrow> (int \<times> 'a kbd_scheme) option" where
  "kb_write c s = do { (r, b, i) \<leftarrow> write_char (keyboard_buf s) (key_idx s) c;
                       Some (r, s\<lparr>keyboard_buf := b, key_idx := i\<rparr>) }"

definition kb_delete :: "'a kbd_scheme \<Rightarrow> (int \<times> 'a kbd_scheme) option" where
  "kb_delete s = do { (r, b, i) \<leftarrow> delete_char (keyboard_buf s) (key_idx s);
                      Some (r, s\<lparr>keyboard_buf := b, key_idx := i\<rparr>) }"

definition clear_keyboard_buf_caller :: "'a kbd_scheme \<Rightarrow> (int \<times> 'a kbd_scheme) option" where
  "clear_keyboard_buf_caller s = do { (r, b, i) \<leftarrow> clear_keyboard_buf (keyboard_buf s);
                                      Some (r, s\<lparr>keyboard_buf := b, key_idx := i\<rparr>) }"

definition ctrl_helper :: "u8 \<Rightarrow> 'a kbd_scheme \<Rightarrow> (int \<times> 'a kbd_scheme) option" where
  "ctrl_helper c s =
     (if c = of_char (CHR ''l'') \<or> c = of_char (CHR ''L'')
      then do { (_, s) \<leftarrow> clear_keyboard_buf_caller (clear_screen s); Some (0, s) }
      else if c = 0 then Some (0, s)
      else do { (_, s) \<leftarrow> kb_write c s; Some (0, put_key c s) })"

text \<open>The saved video page of a terminal.\<close>

definition term_vid_addr :: "nat \<Rightarrow> u32" where
  "term_vid_addr k = (if k = 0 then push_bit 12 0xB9 else if k = 1 then push_bit 12 0xBA else push_bit 12 0xBB)"

text \<open>
  The fragment shared by \<open>terminal_switch\<close> and \<open>pit_handler\<close>: output and the user's video page go to the
  display when the active terminal is shown, and to the terminal's own page otherwise.
\<close>

definition route_video :: "'a kbd_scheme \<Rightarrow> 'a kbd_scheme option" where
  "route_video s =
     (if ts s = ta s
      then do { s \<leftarrow> set_vidmem_page 0 s;
                Some (set_pt_user VID_MEM_INDEX (\<lambda>e. e\<lparr>pte_addr_31_12 := of_nat VID_MEM_INDEX\<rparr>) s) }
      else do { s \<leftarrow> set_vidmem_page (int (ta s) + 1) s;
                Some (set_pt_user VID_MEM_INDEX (\<lambda>e. e\<lparr>pte_addr_31_12 := of_nat (VID_MEM_INDEX + ta s + 1)\<rparr>) s) })"

definition terminal_switch :: "int \<Rightarrow> 'a kbd_scheme \<Rightarrow> (int \<times> 'a kbd_scheme) option" where
  "terminal_switch fn s = do {
     let s = cli s;
     let vid_mem = push_bit 12 0xB8;
     let prev_ts = ts s;
     let prev_vid_addr = term_vid_addr prev_ts;
     let s = (if fn = 1 then s\<lparr>ts := 0\<rparr> else if fn = 2 then s\<lparr>ts := 1\<rparr> else if fn = 3 then s\<lparr>ts := 2\<rparr> else s);
     if prev_ts = ts s then Some (-1, s)
     else do {
       let vid_addr = term_vid_addr (ts s);
       saved \<leftarrow> fill_buf (terminal_buf (terminals s prev_ts)) (take KEY_BUF_SIZE (keyboard_buf s));
       let s = upd_term prev_ts (\<lambda>t. t\<lparr>terminal_buf := saved, buf_idx := key_idx s\<rparr>) s;
       kb \<leftarrow> fill_buf (keyboard_buf s) (take KEY_BUF_SIZE (terminal_buf (terminals s (ts s))));
       let s = s\<lparr>keyboard_buf := kb, key_idx := buf_idx (terminals s (ts s))\<rparr>;
       let s = s\<lparr>pmem := memcpy prev_vid_addr vid_mem 0x1000 (pmem s)\<rparr>;
       let s = s\<lparr>pmem := memcpy vid_mem vid_addr 0x1000 (pmem s)\<rparr>;
       s \<leftarrow> (if term_init_done s then route_video s else Some s);
       Some (0, sti s) } }"

definition alt_helper :: "u8 \<Rightarrow> 'a kbd_scheme \<Rightarrow> (int \<times> 'a kbd_scheme) option" where
  "alt_helper c s = (if fn_key s < 1 \<or> fn_key s > 3 then Some (-1, s) else terminal_switch (fn_key s) s)"

text \<open>The tab loop: at most \<open>n\<close> spaces, until the buffer is full.\<close>

fun tab_loop :: "nat \<Rightarrow> 'a kbd_scheme \<Rightarrow> 'a kbd_scheme option" where
  "tab_loop 0 s = Some s"
| "tab_loop (Suc n) s = do {
     (r, s) \<leftarrow> kb_write (of_char (CHR '' '')) s;
     if r = 0 then tab_loop n (put_key (of_char (CHR '' '')) s) else Some s }"

text \<open>The reaction to a key, once \<open>get_key\<close> has updated the modifiers and found the character, if any.\<close>

definition key_action :: "u8 \<Rightarrow> 'a kbd_scheme \<Rightarrow> 'a kbd_scheme option" where
  "key_action ascii s =
     (if ctrl s then do { (_, s) \<leftarrow> ctrl_helper ascii s; Some s }
      else if ascii \<noteq> 0 then do {
        (success, s) \<leftarrow> kb_write ascii s;
        if success = 0 then Some (put_key ascii (if ascii = NL then check_cursor s else s)) else Some s }
      else if backspace s then do {
        (r, s) \<leftarrow> kb_delete s;
        if r = 0 then Some (check_cursor (remc s)) else Some s }
      else if tab s then tab_loop TAB_SPACE s
      else if alt s then do { (_, s) \<leftarrow> alt_helper ascii (send_eoi IRQ1 s); Some s }
      else Some s)"

text \<open>\<open>scancode\<close> is the byte read from the data port.\<close>

definition keyboard_handler :: "u8 \<Rightarrow> 'a kbd_scheme \<Rightarrow> 'a kbd_scheme option" where
  "keyboard_handler scancode s = do {
     let s = cli s;
     let (ascii, s) = get_key (ucast scancode) s;
     s \<leftarrow> key_action ascii s;
     Some (sti (send_eoi IRQ1 s)) }"

lemmas kb_defs = kb_write_def kb_delete_def clear_keyboard_buf_caller_def write_char_def delete_char_def
  clear_keyboard_buf_def

text \<open>
  The line a buffer holds, and the invariants: \<open>kb_safe\<close> bounds the indices, \<open>kb_inv\<close> says in addition that
  the characters before the index are the line and the rest of the buffer is NUL.
\<close>

definition kb_line :: "'a kbd_scheme \<Rightarrow> buf" where
  "kb_line s = take (key_idx s) (keyboard_buf s)"

definition line_ok :: "buf \<Rightarrow> nat \<Rightarrow> bool" where
  "line_ok b i \<longleftrightarrow> length b = 128 \<and> i \<le> 128 \<and> 0 \<notin> set (take i b) \<and> all_nul (drop i b)"

definition kb_inv :: "'a kbd_scheme \<Rightarrow> bool" where
  "kb_inv s \<longleftrightarrow> line_ok (keyboard_buf s) (key_idx s)"

definition kb_safe :: "'a kbd_scheme \<Rightarrow> bool" where
  "kb_safe s \<longleftrightarrow> length (keyboard_buf s) = 128 \<and> key_idx s \<le> 128
     \<and> list_all (\<lambda>k. length (terminal_buf (terminals s k)) = 128 \<and> buf_idx (terminals s k) \<le> 128) [0..<3]"

text \<open>What a line buffer of 127 characters and a final newline accepts, and the effect of a run of edits.\<close>

definition accepts :: "buf \<Rightarrow> u8 \<Rightarrow> bool" where
  "accepts l c \<longleftrightarrow> length l < 127 \<or> length l = 127 \<and> c = NL"

datatype edit = Type u8 | Erase | Reset

fun edit_line :: "edit list \<Rightarrow> buf \<Rightarrow> buf" where
  "edit_line [] l = l"
| "edit_line (Type c # es) l = edit_line es (if accepts l c then l @ [c] else l)"
| "edit_line (Erase # es) l = edit_line es (butlast l)"
| "edit_line (Reset # es) l = edit_line es []"

fun run_edits :: "(u8 \<Rightarrow> 's \<Rightarrow> (int \<times> 's) option) \<Rightarrow> ('s \<Rightarrow> (int \<times> 's) option) \<Rightarrow> ('s \<Rightarrow> (int \<times> 's) option)
    \<Rightarrow> edit list \<Rightarrow> 's \<Rightarrow> 's option" where
  "run_edits tk er rs [] s = Some s"
| "run_edits tk er rs (e # es) s = do {
     (_, s') \<leftarrow> (case e of Type c \<Rightarrow> tk c s | Erase \<Rightarrow> er s | Reset \<Rightarrow> rs s);
     run_edits tk er rs es s' }"

text \<open>Pages, as the specification of the terminal switch sees them.\<close>

definition in_page :: "u32 \<Rightarrow> u32 \<Rightarrow> bool" where
  "in_page p a \<longleftrightarrow> unat (a - p) < 4096"

definition apart :: "u32 \<Rightarrow> u32 \<Rightarrow> bool" where
  "apart p q \<longleftrightarrow> 4096 \<le> unat (p - q) \<and> 4096 \<le> unat (q - p)"

text \<open>The video page of the active terminal: the display when it is shown, its own page otherwise.\<close>

definition out_page :: "'a screen_scheme \<Rightarrow> nat" where
  "out_page s = (if ts s = ta s then 0 else ta s + 1)"

definition video_ok :: "'a kbd_scheme \<Rightarrow> bool" where
  "video_ok s \<longleftrightarrow> video_mem s = vid_mem_pages ! out_page s
     \<and> pte_addr_31_12 (pt_user s VID_MEM_INDEX) = of_nat (VID_MEM_INDEX + out_page s)"

text \<open>The effect of a switch to another terminal, with the two page copies as region copies.\<close>

definition switched :: "nat \<Rightarrow> 'a kbd_scheme \<Rightarrow> 'a kbd_scheme" where
  "switched k s =
     s\<lparr>ts := k, terminals := (terminals s)(ts s := (terminals s (ts s))\<lparr>terminal_buf := keyboard_buf s, buf_idx := key_idx s\<rparr>),
       keyboard_buf := terminal_buf (terminals s k), key_idx := buf_idx (terminals s k),
       pmem := copy_region VIDEO (term_vid_addr k) 4096 (copy_region (term_vid_addr (ts s)) VIDEO 4096 (pmem s))\<rparr>"

text \<open>
  The invariant of the console: cursors and terminal indices in range, the buffers of their sizes, and,
  once the three terminals run, output routed to the page where the active terminal is visible.
  \<open>kb_frame\<close> is what the keyboard must not touch: the processes, their clock and their memory; of the user's page
  table it may change the frame of the video page only.
\<close>

definition vid_frame :: "(nat \<Rightarrow> pte_t) \<Rightarrow> (nat \<Rightarrow> pte_t) \<Rightarrow> bool" where
  "vid_frame f g \<longleftrightarrow> (\<exists>a. g = f(VID_MEM_INDEX := (f VID_MEM_INDEX)\<lparr>pte_addr_31_12 := a\<rparr>))"

definition console_inv :: "'a kbd_scheme \<Rightarrow> bool" where
  "console_inv s \<longleftrightarrow> screen_inv s \<and> kb_safe s \<and> (term_init_done s \<longrightarrow> video_ok s)"

definition kb_frame :: "'a kbd_scheme \<Rightarrow> 'a kbd_scheme \<Rightarrow> bool" where
  "kb_frame s s' \<longleftrightarrow> ta s' = ta s \<and> (\<lambda>k. active_pid (terminals s' k)) = (\<lambda>k. active_pid (terminals s k))
     \<and> cur_pid s' = cur_pid s \<and> prev_pid s' = prev_pid s \<and> process_rtc s' = process_rtc s
     \<and> terminal_rtc_count s' = terminal_rtc_count s \<and> terminal_rtc_wait s' = terminal_rtc_wait s
     \<and> pd s' = pd s \<and> pt s' = pt s \<and> term_init_done s' = term_init_done s \<and> kbd.more s' = kbd.more s
     \<and> vid_frame (pt_user s) (pt_user s')"

text \<open>A step that keeps the invariant and the frame.\<close>

definition console_step :: "'a kbd_scheme \<Rightarrow> 'a kbd_scheme \<Rightarrow> bool" where
  "console_step s s' \<longleftrightarrow> (console_inv s \<longrightarrow> console_inv s') \<and> kb_frame s s'"

text \<open>The driver at boot, all variables zero.\<close>

definition blank_kbd :: kbd where
  "blank_kbd = paging.extend blank_paging
     \<lparr>tab = False, caps = False, l_shift = False, r_shift = False, ctrl = False, alt = False, backspace = False,
      fn_key = 0, keyboard_buf = replicate 128 0, key_idx = 0, term_init_done = False\<rparr>"

lemmas blank_defs = blank_kbd_def paging.extend_def blank_paging_def rtc.extend_def boot_rtc_def screen.extend_def
  blank_screen_def blank_term_def

subsection \<open>The line buffer\<close>

locale line_editor =
  fixes ok :: "'s \<Rightarrow> bool"
    and line :: "'s \<Rightarrow> buf"
    and type_key :: "u8 \<Rightarrow> 's \<Rightarrow> (int \<times> 's) option"
    and erase reset :: "'s \<Rightarrow> (int \<times> 's) option"
  assumes type_law: "ok s \<Longrightarrow> c \<noteq> 0 \<Longrightarrow> \<exists>s'. ok s' \<and>
        (if accepts (line s) c then type_key c s = Some (0, s') \<and> line s' = line s @ [c]
         else type_key c s = Some (-1, s') \<and> s' = s)"
    and erase_law: "ok s \<Longrightarrow> \<exists>s'. ok s' \<and> line s' = butlast (line s) \<and> erase s = Some (if line s = [] then -1 else 0, s')"
    and reset_law: "ok s \<Longrightarrow> \<exists>s'. ok s' \<and> line s' = [] \<and> reset s = Some (0, s')"
begin

lemma type_erase:
  assumes "ok s" "c \<noteq> 0" "accepts (line s) c"
  shows "\<exists>s1 s2. type_key c s = Some (0, s1) \<and> erase s1 = Some (0, s2) \<and> ok s2 \<and> line s2 = line s"
  using type_law [OF assms(1,2)] assms(3) erase_law by (metis (full_types) butlast_snoc snoc_eq_iff_butlast)

lemma run_edits_line:
  "ok s \<Longrightarrow> Type 0 \<notin> set es \<Longrightarrow>
   \<exists>s'. run_edits type_key erase reset es s = Some s' \<and> ok s' \<and> line s' = edit_line es (line s)"
proof (induction es arbitrary: s)
  case (Cons e es)
  have "\<exists>r s'. (case e of Type c \<Rightarrow> type_key c s | Erase \<Rightarrow> erase s | Reset \<Rightarrow> reset s) = Some (r, s')
      \<and> ok s' \<and> edit_line (e # es) (line s) = edit_line es (line s')"
  proof (cases e)
    case (Type c)
    then have "c \<noteq> 0" using Cons.prems by auto
    then show ?thesis using type_law [OF Cons.prems(1), of c] Type by (auto split: if_splits)
  next
    case Erase
    then show ?thesis using erase_law [OF Cons.prems(1)] by auto
  next
    case Reset
    then show ?thesis using reset_law [OF Cons.prems(1)] by auto
  qed
  then show ?case using Cons.IH Cons.prems by fastforce
qed simp

end

lemma all_nul_drop: "all_nul (drop i b) \<Longrightarrow> i \<le> j \<Longrightarrow> all_nul (drop j b)"
proof -
  assume "all_nul (drop i b)" "i \<le> j"
  moreover have "drop j b = drop (j - i) (drop i b)" using \<open>i \<le> j\<close> by simp
  ultimately show ?thesis by (metis all_nul_def in_set_dropD list_all_iff)
qed

lemma line_ok_write:
  assumes "line_ok b i" "i < 128" "c \<noteq> 0"
  shows "line_ok (b[i := c]) (Suc i)" "take (Suc i) (b[i := c]) = take i b @ [c]"
  using assms all_nul_drop [of i b "Suc i"] by (auto simp: line_ok_def take_Suc_conv_app_nth)

lemma line_ok_delete:
  assumes "line_ok b i" "0 < i"
  shows "line_ok (b[i - 1 := 0]) (i - 1)" "take (i - 1) (b[i - 1 := 0]) = butlast (take i b)"
proof -
  obtain j where i: "i = Suc j" using assms(2) by (cases i) auto
  have l: "j < length b" using assms i by (simp add: line_ok_def)
  have "drop j (b[j := 0]) = 0 # drop (Suc j) b"
    using l by (simp add: drop_update_swap Cons_nth_drop_Suc [symmetric])
  then show "line_ok (b[i - 1 := 0]) (i - 1)"
    using assms l i by (auto simp: line_ok_def all_nul_def take_Suc_conv_app_nth)
  show "take (i - 1) (b[i - 1 := 0]) = butlast (take i b)"
    using assms l i by (simp add: butlast_take line_ok_def)
qed

lemma line_ok_clear: "line_ok (replicate 128 0) 0"
  by (simp add: line_ok_def)

lemma kb_clear_eq:
  "length (keyboard_buf s) = 128 \<Longrightarrow>
   clear_keyboard_buf_caller s = Some (0, s\<lparr>keyboard_buf := replicate 128 0, key_idx := 0\<rparr>)"
  by (simp add: kb_defs)

lemma kb_line_length: "kb_inv s \<Longrightarrow> length (kb_line s) = key_idx s"
  by (simp add: kb_inv_def line_ok_def kb_line_def)

lemma kb_write_eq:
  assumes "kb_inv s"
  shows "kb_write c s = (if accepts (kb_line s) c
     then Some (0, s\<lparr>keyboard_buf := (keyboard_buf s)[key_idx s := c], key_idx := Suc (key_idx s)\<rparr>) else Some (-1, s))"
proof -
  have "key_idx s \<le> 128" "length (keyboard_buf s) = 128" using assms by (auto simp: kb_inv_def line_ok_def)
  then show ?thesis using kb_line_length [OF assms] by (auto simp: kb_defs accepts_def)
qed

lemma kb_delete_eq:
  assumes "kb_inv s"
  shows "kb_delete s = (if kb_line s = [] then Some (-1, s)
     else Some (0, s\<lparr>keyboard_buf := (keyboard_buf s)[key_idx s - 1 := 0], key_idx := key_idx s - 1\<rparr>))"
proof -
  have "key_idx s \<le> 128" "length (keyboard_buf s) = 128" using assms by (auto simp: kb_inv_def line_ok_def)
  then show ?thesis using kb_line_length [OF assms] by (auto simp: kb_defs)
qed

interpretation kb: line_editor kb_inv kb_line kb_write kb_delete clear_keyboard_buf_caller
proof
  fix s :: "'a kbd_scheme" and c :: u8
  assume s: "kb_inv s" and c: "c \<noteq> 0"
  show "\<exists>s'. kb_inv s' \<and>
        (if accepts (kb_line s) c then kb_write c s = Some (0, s') \<and> kb_line s' = kb_line s @ [c]
         else kb_write c s = Some (-1, s') \<and> s' = s)"
  proof (cases "accepts (kb_line s) c")
    case True
    then have "key_idx s < 128" using kb_line_length [OF s] by (auto simp: accepts_def)
    with line_ok_write [of "keyboard_buf s" "key_idx s" c] s c True show ?thesis
      by (simp add: kb_write_eq kb_inv_def kb_line_def)
  qed (use s in \<open>simp add: kb_write_eq\<close>)
next
  fix s :: "'a kbd_scheme"
  assume s: "kb_inv s"
  show "\<exists>s'. kb_inv s' \<and> kb_line s' = butlast (kb_line s) \<and> kb_delete s = Some (if kb_line s = [] then -1 else 0, s')"
  proof (cases "kb_line s = []")
    case False
    then have "0 < key_idx s" by (cases "key_idx s") (auto simp: kb_line_def)
    with line_ok_delete [of "keyboard_buf s" "key_idx s"] s False show ?thesis
      by (simp add: kb_delete_eq kb_inv_def kb_line_def)
  qed (use s in \<open>simp add: kb_delete_eq\<close>)
next
  fix s :: "'a kbd_scheme"
  assume "kb_inv s"
  then show "\<exists>s'. kb_inv s' \<and> kb_line s' = [] \<and> clear_keyboard_buf_caller s = Some (0, s')"
    by (auto simp: kb_clear_eq kb_inv_def line_ok_def kb_line_def)
qed

text \<open>
  C26. The line buffer edits as a terminal line should: any sequence of typed characters, backspaces and
  clears, from an empty buffer, runs without an access outside the 128 bytes and leaves exactly the
  line that the edits describe (a full line refuses further characters but keeps room for the newline),
  NUL-padded to the end of the buffer.
\<close>

theorem line_editing:
  assumes "kb_inv s" "kb_line s = []" "Type 0 \<notin> set es"
  shows "\<exists>s'. run_edits kb_write kb_delete clear_keyboard_buf_caller es s = Some s'
    \<and> keyboard_buf s' = edit_line es [] @ replicate (128 - length (edit_line es [])) 0
    \<and> key_idx s' = length (edit_line es []) \<and> length (edit_line es []) \<le> 128"
proof -
  obtain s' where s': "run_edits kb_write kb_delete clear_keyboard_buf_caller es s = Some s'" "kb_inv s'"
    "kb_line s' = edit_line es []" using kb.run_edits_line [OF assms(1,3)] assms(2) by auto
  have b: "length (keyboard_buf s') = 128" "key_idx s' \<le> 128" "all_nul (drop (key_idx s') (keyboard_buf s'))"
    using s'(2) by (auto simp: kb_inv_def line_ok_def)
  have "keyboard_buf s' = kb_line s' @ drop (key_idx s') (keyboard_buf s')" by (simp add: kb_line_def)
  moreover have "drop (key_idx s') (keyboard_buf s') = replicate (128 - key_idx s') 0"
    using b by (simp add: all_nul_iff)
  ultimately show ?thesis using s' b kb_line_length [OF s'(2)] by auto
qed

subsection \<open>Switching terminals\<close>

lemma apart_disjoint: "apart p q \<Longrightarrow> in_page p a \<Longrightarrow> \<not> in_page q a"
proof -
  assume ap: "apart p q" and a: "in_page p a"
  define x where "x = a - p"
  define y where "y = p - q"
  have y: "4096 \<le> unat y" "4096 \<le> unat (- y)" using ap by (simp_all add: apart_def y_def)
  have x: "unat x < 4096" using a by (simp add: in_page_def x_def)
  have "unat (- y) = 4294967296 - unat y" using y(1) unat_sub_if' [of 0 y] by auto
  then have "unat x + unat y < 4294967296" using x y unat_u32_bound [of y] by linarith
  then have "unat (x + y) = unat x + unat y" by (subst unat_add_lem [THEN iffD1]) simp_all
  then show ?thesis using y by (simp add: in_page_def x_def y_def)
qed

lemma copy_page:
  "in_page d a \<Longrightarrow> copy_region d s 4096 m a = m (s + (a - d))"
  "\<not> in_page d a \<Longrightarrow> copy_region d s 4096 m a = m a"
  by (simp_all add: copy_region_def in_page_def)

lemma in_page_shift: "in_page d a \<Longrightarrow> in_page s (s + (a - d))"
  by (simp add: in_page_def)

lemma memcpy_page: "apart d s \<Longrightarrow> memcpy d s 0x1000 m = copy_region d s 4096 m"
  by (simp add: memcpy_def memcpy_top_region fwd_ok_def apart_def)

lemma apart_sym: "apart p q \<Longrightarrow> apart q p"
  by (simp add: apart_def)

lemma term_pages_apart: "apart (term_vid_addr j) VIDEO" "j < 3 \<Longrightarrow> k < 3 \<Longrightarrow> j \<noteq> k \<Longrightarrow> apart (term_vid_addr j) (term_vid_addr k)"
proof -
  have c: "j = 0 \<or> j = 1 \<or> j = 2" if "j < 3" for j :: nat using that by linarith
  show "apart (term_vid_addr j) VIDEO" by (simp add: apart_def term_vid_addr_def)
  assume "j < 3" "k < 3" "j \<noteq> k"
  then show "apart (term_vid_addr j) (term_vid_addr k)"
    by (auto simp: apart_def term_vid_addr_def dest!: c)
qed

text \<open>Swapping the display against another page and back.\<close>

lemma page_swap_back:
  fixes m :: mem
  assumes "apart p a" "apart p b" "apart a b"
  defines "m1 \<equiv> copy_region p b 4096 (copy_region a p 4096 m)"
  defines "m2 \<equiv> copy_region p a 4096 (copy_region b p 4096 m1)"
  shows "m2 x = (if in_page a x then m (p + (x - a)) else m x)"
proof -
  note d = apart_disjoint [OF assms(1)] apart_disjoint [OF assms(2)] apart_disjoint [OF assms(3)]
    apart_disjoint [OF apart_sym [OF assms(1)]] apart_disjoint [OF apart_sym [OF assms(2)]]
    apart_disjoint [OF apart_sym [OF assms(3)]]
  consider "in_page p x" | "in_page a x" | "in_page b x" | "\<not> in_page p x" "\<not> in_page a x" "\<not> in_page b x" by blast
  then show ?thesis
  proof cases
    case 1
    then have a: "in_page a (a + (x - p))" by (rule in_page_shift)
    have "\<not> in_page a x" "\<not> in_page p (a + (x - p))" "\<not> in_page b (a + (x - p))" using d 1 a by blast+
    with 1 a show ?thesis by (simp add: m2_def m1_def copy_page)
  next
    case 2
    then have "\<not> in_page p x" "\<not> in_page b x" using d by blast+
    with 2 show ?thesis by (simp add: m2_def m1_def copy_page)
  next
    case 3
    then have p: "in_page p (p + (x - b))" by (rule in_page_shift)
    have "\<not> in_page p x" "\<not> in_page a x" using d 3 by blast+
    with 3 p show ?thesis by (simp add: m2_def m1_def copy_page in_page_shift)
  next
    case 4
    then show ?thesis by (simp add: m2_def m1_def copy_page)
  qed
qed

lemma route_video_eq:
  assumes "ta s < 3"
  shows "route_video s = Some (set_pt_user VID_MEM_INDEX (\<lambda>e. e\<lparr>pte_addr_31_12 := of_nat (VID_MEM_INDEX + out_page s)\<rparr>)
     (s\<lparr>video_mem := vid_mem_pages ! out_page s\<rparr>))"
proof -
  have "length vid_mem_pages = 4" by (simp add: vid_mem_pages_def)
  then have "set_vidmem_page (int (out_page s)) s = Some (s\<lparr>video_mem := vid_mem_pages ! out_page s\<rparr>)"
    using assms by (simp add: set_vidmem_page_def out_page_def)
  then show ?thesis using assms by (auto simp: route_video_def out_page_def add.commute)
qed

lemma vid_frame_refl [simp]: "vid_frame f f"
  unfolding vid_frame_def by (rule exI [of _ "pte_addr_31_12 (f VID_MEM_INDEX)"]) simp

lemma vid_frame_trans: "vid_frame f g \<Longrightarrow> vid_frame g h \<Longrightarrow> vid_frame f h"
  by (auto simp: vid_frame_def)

lemma kb_safeD:
  "kb_safe s \<Longrightarrow> length (keyboard_buf s) = 128 \<and> key_idx s \<le> 128"
  "kb_safe s \<Longrightarrow> k < 3 \<Longrightarrow> length (terminal_buf (terminals s k)) = 128 \<and> buf_idx (terminals s k) \<le> 128"
  by (auto simp: kb_safe_def list_all_iff)

lemma terminal_switch_eq:
  assumes "kb_safe s" "ts s < 3" "ta s < 3" "k < 3" "k \<noteq> ts s"
  shows "\<exists>s'. terminal_switch (int k + 1) s = Some (0, s') \<and>
    s' = sti (if term_init_done s
              then set_pt_user VID_MEM_INDEX (\<lambda>e. e\<lparr>pte_addr_31_12 := of_nat (VID_MEM_INDEX + out_page (switched k (cli s)))\<rparr>)
                     ((switched k (cli s))\<lparr>video_mem := vid_mem_pages ! out_page (switched k (cli s))\<rparr>)
              else switched k (cli s))"
proof -
  have k: "k = 0 \<or> k = 1 \<or> k = 2" using assms(4) by linarith
  have ts: "(if int k + 1 = 1 then u\<lparr>ts := 0\<rparr> else if int k + 1 = 2 then u\<lparr>ts := 1\<rparr>
      else if int k + 1 = 3 then u\<lparr>ts := 2\<rparr> else u) = u\<lparr>ts := k\<rparr>" for u :: "'a kbd_scheme"
    using k by auto
  have vid: "(push_bit 12 0xB8 :: u32) = VIDEO" by simp
  note b = kb_safeD(1) [OF assms(1)] kb_safeD(2) [OF assms(1,2)] kb_safeD(2) [OF assms(1,4)]
  note m = memcpy_page [OF term_pages_apart(1)] memcpy_page [OF apart_sym [OF term_pages_apart(1)]]
  let ?u = "switched k (cli s)"
  have "terminal_switch (int k + 1) s =
      do { s \<leftarrow> (if term_init_done s then route_video ?u else Some ?u); Some (0, sti s) }"
    unfolding terminal_switch_def Let_def ts vid m
    using assms(5) b by (auto simp: switched_def cli_def upd_term_def fun_upd_other)
  moreover have "route_video ?u = Some (set_pt_user VID_MEM_INDEX
      (\<lambda>e. e\<lparr>pte_addr_31_12 := of_nat (VID_MEM_INDEX + out_page ?u)\<rparr>)
      (?u\<lparr>video_mem := vid_mem_pages ! out_page ?u\<rparr>))"
    using assms(3) by (intro route_video_eq) (simp add: switched_def cli_def)
  ultimately show ?thesis by simp
qed

lemma terminal_switch_fields:
  assumes "kb_safe s" "ts s < 3" "ta s < 3" "k < 3" "k \<noteq> ts s"
  shows "\<exists>s'. terminal_switch (int k + 1) s = Some (0, s') \<and> ts s' = k \<and> ta s' = ta s
    \<and> terminals s' = (terminals s)(ts s := (terminals s (ts s))\<lparr>terminal_buf := keyboard_buf s, buf_idx := key_idx s\<rparr>)
    \<and> keyboard_buf s' = terminal_buf (terminals s k) \<and> key_idx s' = buf_idx (terminals s k)
    \<and> pmem s' = copy_region VIDEO (term_vid_addr k) 4096 (copy_region (term_vid_addr (ts s)) VIDEO 4096 (pmem s))
    \<and> (term_init_done s \<longrightarrow> video_ok s') \<and> term_init_done s' = term_init_done s
    \<and> (\<not> term_init_done s \<longrightarrow> video_mem s' = video_mem s \<and> pt_user s' = pt_user s)
    \<and> cur_pid s' = cur_pid s \<and> prev_pid s' = prev_pid s \<and> process_rtc s' = process_rtc s
    \<and> terminal_rtc_count s' = terminal_rtc_count s \<and> terminal_rtc_wait s' = terminal_rtc_wait s
    \<and> pd s' = pd s \<and> pt s' = pt s \<and> kbd.more s' = kbd.more s \<and> kb_safe s' \<and> iflag s' \<and> vid_frame (pt_user s) (pt_user s')"
proof -
  from terminal_switch_eq [OF assms] obtain s' where e: "terminal_switch (int k + 1) s = Some (0, s')"
    and s': "s' = sti (if term_init_done s
              then set_pt_user VID_MEM_INDEX (\<lambda>e. e\<lparr>pte_addr_31_12 := of_nat (VID_MEM_INDEX + out_page (switched k (cli s)))\<rparr>)
                     ((switched k (cli s))\<lparr>video_mem := vid_mem_pages ! out_page (switched k (cli s))\<rparr>)
              else switched k (cli s))" by blast
  have "kb_safe s'"
    using kb_safeD [OF assms(1)] assms(2,4,5) s'
    by (auto simp: kb_safe_def list_all_iff switched_def set_pt_user_def cli_def sti_def)
  moreover have "term_init_done s \<longrightarrow> video_ok s'"
    by (simp add: s' video_ok_def out_page_def switched_def set_pt_user_def cli_def sti_def)
  moreover have "vid_frame (pt_user s) (pt_user s')"
  proof (cases "term_init_done s")
    case True
    then show ?thesis unfolding s' vid_frame_def
      by (intro exI [of _ "of_nat (VID_MEM_INDEX + out_page (switched k (cli s)))"]) (simp add: switched_def set_pt_user_def cli_def sti_def)
  qed (simp add: s' switched_def cli_def sti_def)
  ultimately show ?thesis
    using e by (auto simp: s' switched_def set_pt_user_def cli_def sti_def)
qed

text \<open>
  C17. Switching to another terminal and back is lossless: the display, the keyboard buffer with the
  half-typed line and its index are exactly as before, the other terminal's saved page and line are
  unchanged, and in between the display shows the other terminal's page and its line is the one being
  edited.  Only the saved copy of the first terminal's page is refreshed.
\<close>

theorem terminal_switch_roundtrip:
  assumes "kb_safe s" "ts s < 3" "ta s < 3" "k < 3" "k \<noteq> ts s"
  shows "\<exists>s1 s2. terminal_switch (int k + 1) s = Some (0, s1) \<and> terminal_switch (int (ts s) + 1) s1 = Some (0, s2)
    \<and> ts s1 = k \<and> keyboard_buf s1 = terminal_buf (terminals s k)
    \<and> (\<forall>a. in_page VIDEO a \<longrightarrow> pmem s1 a = pmem s (term_vid_addr k + (a - VIDEO)))
    \<and> ts s2 = ts s \<and> keyboard_buf s2 = keyboard_buf s \<and> key_idx s2 = key_idx s
    \<and> terminal_buf (terminals s2 k) = terminal_buf (terminals s k) \<and> buf_idx (terminals s2 k) = buf_idx (terminals s k)
    \<and> (\<forall>a. pmem s2 a = (if in_page (term_vid_addr (ts s)) a then pmem s (VIDEO + (a - term_vid_addr (ts s))) else pmem s a))"
proof -
  let ?A = "term_vid_addr (ts s)" and ?B = "term_vid_addr k"
  from terminal_switch_fields [OF assms] obtain s1 where
    s1: "terminal_switch (int k + 1) s = Some (0, s1)" "ts s1 = k" "ta s1 = ta s" "kb_safe s1"
      "terminals s1 = (terminals s)(ts s := (terminals s (ts s))\<lparr>terminal_buf := keyboard_buf s, buf_idx := key_idx s\<rparr>)"
      "keyboard_buf s1 = terminal_buf (terminals s k)" "key_idx s1 = buf_idx (terminals s k)"
      "pmem s1 = copy_region VIDEO ?B 4096 (copy_region ?A VIDEO 4096 (pmem s))" by blast
  from terminal_switch_fields [of s1 "ts s"] s1(2,3,4) assms obtain s2 where
    s2: "terminal_switch (int (ts s) + 1) s1 = Some (0, s2)" "ts s2 = ts s"
      "terminals s2 = (terminals s1)(k := (terminals s1 k)\<lparr>terminal_buf := keyboard_buf s1, buf_idx := key_idx s1\<rparr>)"
      "keyboard_buf s2 = terminal_buf (terminals s1 (ts s))" "key_idx s2 = buf_idx (terminals s1 (ts s))"
      "pmem s2 = copy_region VIDEO ?A 4096 (copy_region ?B VIDEO 4096 (pmem s1))" by auto
  have ap: "apart VIDEO ?A" "apart VIDEO ?B" "apart ?A ?B"
    using term_pages_apart assms by (auto intro: apart_sym)
  have disp: "pmem s1 a = pmem s (?B + (a - VIDEO))" if "in_page VIDEO a" for a
  proof -
    have "\<not> in_page ?A (?B + (a - VIDEO))" using apart_disjoint [OF apart_sym [OF ap(3)]] in_page_shift [OF that] by blast
    then show ?thesis using that by (simp add: s1(8) copy_page)
  qed
  have "pmem s2 a = (if in_page ?A a then pmem s (VIDEO + (a - ?A)) else pmem s a)" for a
    using page_swap_back [OF ap, of "pmem s" a] by (simp only: s2(6) s1(8))
  then show ?thesis using s1 s2 assms(5) disp by simp
qed

subsection \<open>The interrupt handler\<close>

lemma kb_frame_refl [simp]: "kb_frame s s"
  by (simp add: kb_frame_def)

lemma kb_frame_trans: "kb_frame s t \<Longrightarrow> kb_frame t u \<Longrightarrow> kb_frame s u"
  using vid_frame_trans [of "pt_user s" "pt_user t" "pt_user u"] by (simp add: kb_frame_def)

lemma console_step_trans: "console_step s t \<Longrightarrow> console_step t u \<Longrightarrow> console_step s u"
  by (auto simp: console_step_def intro: kb_frame_trans)

lemma kbd_fields_cong:
  assumes "screen.more s = screen.more s'"
  shows "cur_pid s = cur_pid s'" "prev_pid s = prev_pid s'" "process_rtc s = process_rtc s'"
    "terminal_rtc_count s = terminal_rtc_count s'" "terminal_rtc_wait s = terminal_rtc_wait s'"
    "pd s = pd s'" "pt s = pt s'" "pt_user s = pt_user s'" "keyboard_buf s = keyboard_buf s'" "key_idx s = key_idx s'"
    "term_init_done s = term_init_done s'" "kbd.more s = kbd.more s'"
  using assms by (cases s; cases s'; simp)+

lemma console_step_screen:
  assumes "screen.more s' = screen.more s" "ts s' = ts s" "ta s' = ta s" "video_mem s' = video_mem s"
    and "\<And>k. terminal_buf (terminals s' k) = terminal_buf (terminals s k)"
    and "\<And>k. buf_idx (terminals s' k) = buf_idx (terminals s k)"
    and "\<And>k. active_pid (terminals s' k) = active_pid (terminals s k)"
    and "screen_inv s \<Longrightarrow> screen_inv s'"
  shows "console_step s s'"
proof -
  note f = kbd_fields_cong [OF assms(1)]
  show ?thesis using assms(2-)
    by (auto simp: console_step_def console_inv_def kb_frame_def kb_safe_def video_ok_def out_page_def f)
qed

lemma screen_inv_same_terms:
  "terminals s' = terminals s \<Longrightarrow> ts s' = ts s \<Longrightarrow> ta s' = ta s \<Longrightarrow> screen_inv s \<Longrightarrow> screen_inv s'"
  by (simp add: screen_inv_def)

lemma console_step_put_key: "console_step s (put_key c s)"
  by (rule console_step_screen) (simp_all add: screen_inv_put_key, simp_all add: put_key_def)

lemma console_step_check_cursor: "console_step s (check_cursor s)"
  by (rule console_step_screen) (simp_all add: check_cursor_def)

lemma console_step_remc: "console_step s (remc s)"
  by (rule console_step_screen) (simp_all add: screen_inv_remc, simp_all add: remc_def Let_def upd_term_def)

lemma console_step_clear_screen: "console_step s (clear_screen s)"
  by (rule console_step_screen)
    (simp_all add: screen_inv_clear_screen, simp_all add: clear_screen_def clear_def Let_def upd_term_def)

lemma console_step_machine:
  "console_step s (cli s)" "console_step s (sti s)" "console_step s (send_eoi n s)"
  by (rule console_step_screen, simp_all add: cli_def sti_def send_eoi_eq screen_inv_def)+

lemma console_step_kb_buf:
  assumes "length b = 128" "i \<le> 128"
  shows "console_step s (s\<lparr>keyboard_buf := b, key_idx := i\<rparr>)" "console_step s (s\<lparr>key_idx := i\<rparr>)"
  using assms by (auto simp: console_step_def console_inv_def screen_inv_def kb_safe_def video_ok_def out_page_def kb_frame_def)

text \<open>The buffer operations on a state that is only known to be safe.\<close>

lemma kb_ops_safe:
  assumes "console_inv s"
  shows "\<exists>r s'. kb_write c s = Some (r, s') \<and> console_step s s'" "\<exists>r s'. kb_delete s = Some (r, s') \<and> console_step s s'"
    "\<exists>r s'. clear_keyboard_buf_caller s = Some (r, s') \<and> console_step s s'"
proof -
  have b: "length (keyboard_buf s) = 128" "key_idx s \<le> 128" using assms by (auto simp: console_inv_def kb_safe_def)
  have st: "console_step s (s\<lparr>keyboard_buf := keyboard_buf s, key_idx := key_idx s\<rparr>)"
    by (rule console_step_kb_buf(1) [OF b])
  show "\<exists>r s'. kb_write c s = Some (r, s') \<and> console_step s s'"
    using b st by (auto simp: kb_defs intro!: console_step_kb_buf(1) console_step_kb_buf(2) [OF b(1)])
  show "\<exists>r s'. kb_delete s = Some (r, s') \<and> console_step s s'"
    using b st by (auto simp: kb_defs intro!: console_step_kb_buf(1) console_step_kb_buf(2) [OF b(1)])
  show "\<exists>r s'. clear_keyboard_buf_caller s = Some (r, s') \<and> console_step s s'"
    using b by (auto simp: kb_clear_eq intro!: console_step_kb_buf(1))
qed

lemma console_stepD: "console_step s s' \<Longrightarrow> console_inv s \<Longrightarrow> console_inv s'"
  by (simp add: console_step_def)

lemma console_step_flags:
  "console_step s (s\<lparr>tab := b\<rparr>)" "console_step s (s\<lparr>caps := b\<rparr>)" "console_step s (s\<lparr>l_shift := b\<rparr>)"
  "console_step s (s\<lparr>r_shift := b\<rparr>)" "console_step s (s\<lparr>ctrl := b\<rparr>)" "console_step s (s\<lparr>alt := b\<rparr>)"
  "console_step s (s\<lparr>backspace := b\<rparr>)" "console_step s (s\<lparr>fn_key := i\<rparr>)"
  by (simp_all add: console_step_def console_inv_def screen_inv_def kb_safe_def video_ok_def out_page_def kb_frame_def)

lemma console_step_modifier: "modifier_key k s = Some s' \<Longrightarrow> console_step s s'"
  unfolding modifier_key_def by (simp only: option.inject option.distinct split: if_splits) (auto simp: console_step_flags)

lemma console_step_refl [simp]: "console_step s s"
  by (simp add: console_step_def)

lemma console_step_get_key: "console_step s (snd (get_key k s))"
  by (auto simp: get_key_def Let_def split: option.split dest: console_step_modifier)

lemma tab_loop_safe: "console_inv s \<Longrightarrow> \<exists>s'. tab_loop n s = Some s' \<and> console_step s s'"
proof (induction n arbitrary: s)
  case 0
  then show ?case by (simp add: console_step_def)
next
  case (Suc n)
  let ?sp = "of_char (CHR '' '') :: u8"
  from kb_ops_safe(1) [OF Suc.prems, of ?sp] obtain r t where t: "kb_write ?sp s = Some (r, t)" "console_step s t" by blast
  have u: "console_step s (put_key ?sp t)" by (rule console_step_trans [OF t(2) console_step_put_key])
  from Suc.IH [OF console_stepD [OF u Suc.prems]] obtain s' where
    "tab_loop n (put_key ?sp t) = Some s'" "console_step (put_key ?sp t) s'" by blast
  with t u show ?case by (auto intro: console_step_trans)
qed

lemma ctrl_helper_safe: "console_inv s \<Longrightarrow> \<exists>r s'. ctrl_helper c s = Some (r, s') \<and> console_step s s'"
proof -
  assume s: "console_inv s"
  have st: "console_step s s" by (simp add: console_step_def)
  have c: "console_inv (clear_screen s)" by (rule console_stepD [OF console_step_clear_screen s])
  obtain r t where t: "clear_keyboard_buf_caller (clear_screen s) = Some (r, t)" "console_step (clear_screen s) t"
    using kb_ops_safe(3) [OF c] by blast
  obtain q u where u: "kb_write c s = Some (q, u)" "console_step s u" using kb_ops_safe(1) [OF s] by blast
  show ?thesis
    using st t u console_step_trans [OF console_step_clear_screen t(2)] console_step_trans [OF u(2) console_step_put_key]
    by (simp add: ctrl_helper_def)
qed

lemma terminal_switch_same: "k = ts s \<Longrightarrow> k < 3 \<Longrightarrow> terminal_switch (int k + 1) s = Some (-1, cli s)"
proof -
  assume a: "k = ts s" "k < 3"
  then have "k = 0 \<or> k = 1 \<or> k = 2" by linarith
  then show ?thesis using a by (auto simp: terminal_switch_def cli_def Let_def)
qed

lemma terminal_switch_safe:
  assumes "console_inv s" "1 \<le> fn" "fn \<le> 3"
  shows "\<exists>r s'. terminal_switch fn s = Some (r, s') \<and> console_step s s'"
proof -
  define k where "k = nat (fn - 1)"
  have k: "fn = int k + 1" "k < 3" using assms(2,3) by (auto simp: k_def)
  have b: "kb_safe s" "ts s < 3" "ta s < 3" using assms(1) by (auto simp: console_inv_def screen_inv_def)
  show ?thesis
  proof (cases "k = ts s")
    case True
    then show ?thesis using terminal_switch_same [of k s] k console_step_machine(1) by auto
  next
    case False
    from terminal_switch_fields [OF b k(2) False] obtain s' where
      s': "terminal_switch (int k + 1) s = Some (0, s')" "ts s' = k" "ta s' = ta s"
        "terminals s' = (terminals s)(ts s := (terminals s (ts s))\<lparr>terminal_buf := keyboard_buf s, buf_idx := key_idx s\<rparr>)"
        "term_init_done s \<longrightarrow> video_ok s'" "term_init_done s' = term_init_done s"
        "cur_pid s' = cur_pid s" "prev_pid s' = prev_pid s" "process_rtc s' = process_rtc s"
        "terminal_rtc_count s' = terminal_rtc_count s" "terminal_rtc_wait s' = terminal_rtc_wait s"
        "pd s' = pd s" "pt s' = pt s" "kbd.more s' = kbd.more s" "kb_safe s'" "vid_frame (pt_user s) (pt_user s')"
      by blast
    have "screen_inv s'" using assms(1) s' k by (auto simp: console_inv_def screen_inv_def list_all_iff cursor_ok_def)
    then have "console_inv s'" using s' by (simp add: console_inv_def)
    moreover have "kb_frame s s'" using s' by (auto simp: kb_frame_def)
    ultimately show ?thesis using s' k by (auto simp: console_step_def)
  qed
qed

lemma key_action_safe:
  assumes "console_inv s"
  shows "\<exists>s'. key_action ascii s = Some s' \<and> console_step s s'"
proof -
  obtain r1 a where a: "ctrl_helper ascii s = Some (r1, a)" "console_step s a" using ctrl_helper_safe [OF assms] by blast
  obtain r2 b where b: "kb_write ascii s = Some (r2, b)" "console_step s b" using kb_ops_safe(1) [OF assms] by blast
  have b': "console_step s (put_key ascii (if ascii = NL then check_cursor b else b))"
    using b(2) by (auto intro!: console_step_trans [OF _ console_step_put_key] console_step_trans [OF _ console_step_check_cursor])
  obtain r3 c where c: "kb_delete s = Some (r3, c)" "console_step s c" using kb_ops_safe(2) [OF assms] by blast
  have c': "console_step s (check_cursor (remc c))"
    using c(2) by (auto intro!: console_step_trans [OF _ console_step_check_cursor] console_step_trans [OF _ console_step_remc])
  obtain d where d: "tab_loop TAB_SPACE s = Some d" "console_step s d" using tab_loop_safe [OF assms] by blast
  have eoi: "console_inv (send_eoi IRQ1 s)" by (rule console_stepD [OF console_step_machine(3) assms])
  have "\<exists>r u. alt_helper ascii (send_eoi IRQ1 s) = Some (r, u) \<and> console_step (send_eoi IRQ1 s) u"
    using terminal_switch_safe [OF eoi] by (simp add: alt_helper_def not_less)
  then obtain r4 e where e: "alt_helper ascii (send_eoi IRQ1 s) = Some (r4, e)" "console_step s e"
    using console_step_trans [OF console_step_machine(3)] by blast
  show ?thesis using a b b' c c' d e by (auto simp: key_action_def)
qed

lemma iflag_sti [simp]: "iflag (sti s)"
  by (simp add: sti_def)

lemma keyboard_handler_step:
  assumes "console_inv s"
  shows "\<exists>s'. keyboard_handler scancode s = Some s' \<and> console_step s s' \<and> iflag s'"
proof -
  obtain ascii t where g: "get_key (ucast scancode) (cli s) = (ascii, t)" by (cases "get_key (ucast scancode) (cli s)")
  have t: "console_step s t"
    using console_step_trans [OF console_step_machine(1) console_step_get_key, of s "ucast scancode"] g by simp
  obtain u where u: "key_action ascii t = Some u" "console_step t u"
    using key_action_safe [OF console_stepD [OF t assms]] by blast
  have "console_step s (sti (send_eoi IRQ1 u))"
    using console_step_trans [OF console_step_trans [OF t u(2)]
        console_step_trans [OF console_step_machine(3) console_step_machine(2)]] .
  moreover have "keyboard_handler scancode s = Some (sti (send_eoi IRQ1 u))"
    unfolding keyboard_handler_def Let_def g prod.case u(1) by simp
  ultimately show ?thesis by auto
qed

text \<open>
  C18. The keyboard interrupt is safe for every scan code in every modifier state: it never indexes outside
  a buffer or the terminal table, keeps the console invariant (cursors on the page, buffers and
  indices in bounds, output routed to the visible page of the active terminal), returns with
  interrupts enabled, and changes neither the running process, the process table, the clock, the
  kernel's page tables nor which process a terminal runs.
\<close>

theorem keyboard_handler_safe:
  assumes "console_inv s"
  shows "\<exists>s'. keyboard_handler scancode s = Some s' \<and> console_inv s' \<and> kb_frame s s' \<and> iflag s'"
  using keyboard_handler_step [OF assms, of scancode] assms by (auto simp: console_step_def)

lemma blank_kbd_inv: "console_inv blank_kbd" "kb_safe blank_kbd" "kb_inv blank_kbd" "kb_line blank_kbd = []"
  "ts blank_kbd = 0" "ta blank_kbd = 0"
  by (simp_all add: console_inv_def kb_safe_def kb_inv_def line_ok_def kb_line_def blank_defs list_all_iff screen_inv_def
      cursor_ok_def)

theorem keyboard_handler_safe_witness:
  "\<exists>s'. keyboard_handler 0x1E blank_kbd = Some s' \<and> console_inv s' \<and> kb_frame blank_kbd s' \<and> iflag s'"
  using keyboard_handler_safe [OF blank_kbd_inv(1)] by blast

theorem line_editing_witness:
  "\<exists>s'. run_edits kb_write kb_delete clear_keyboard_buf_caller [Type 108, Type 120, Erase, Type 115, Type 10] blank_kbd = Some s'
    \<and> key_idx s' = 3 \<and> take 3 (keyboard_buf s') = [108, 115, 10]"
  using line_editing [OF blank_kbd_inv(3,4), of "[Type 108, Type 120, Erase, Type 115, Type 10]"]
  by (auto simp: accepts_def)

theorem terminal_switch_roundtrip_witness:
  "\<exists>s1 s2. terminal_switch 3 blank_kbd = Some (0, s1) \<and> terminal_switch 1 s1 = Some (0, s2) \<and> ts s1 = 2 \<and> ts s2 = 0
     \<and> keyboard_buf s2 = keyboard_buf blank_kbd"
  using terminal_switch_roundtrip [OF blank_kbd_inv(2), of 2] by (auto simp: blank_kbd_inv)

end
