(* ===== verification/Terminal.thy ===== *)
theory Terminal
  imports Keyboard
begin

text \<open>
  The terminal device, \<^verbatim>\<open>code/terminal.c\<close>.  A buffer argument is \<open>None\<close> for \<open>NULL\<close>, otherwise the bytes
  from the pointer to the end of the object.  \<open>terminal_read\<close> polls the keyboard buffer with interrupts
  enabled between two polls: \<open>evs\<close> are the interrupt handlers that run while it polls, \<open>late\<close> those that
  run between the last poll and the copy, where interrupts are enabled once more.
\<close>

definition terminal_open :: int where "terminal_open = 0"
definition terminal_close :: int where "terminal_close = 0"

text \<open>The scan for a newline stops at a NUL and at the end of the buffer.\<close>

fun has_newline :: "nat \<Rightarrow> buf \<Rightarrow> bool" where
  "has_newline 0 temp = False"
| "has_newline (Suc n) [] = False"
| "has_newline (Suc n) (c # temp) = (if c = 0 then False else if c = NL then True else has_newline n temp)"

definition typing :: "'a kbd_scheme \<Rightarrow> bool" where
  "typing s \<longleftrightarrow> \<not> (has_newline KEY_BUF_SIZE (keyboard_buf s) \<and> ts s = ta s)"

text \<open>
  The copy loop and the store after it: the bytes stored to \<open>buf[0]\<close>, \<open>buf[1]\<close>, \<dots>.  The loop reads
  \<open>temp[idx]\<close> before it compares \<open>idx\<close> with the count.
\<close>

fun copy_line :: "buf \<Rightarrow> nat \<Rightarrow> buf option" where
  "copy_line [] n = None"
| "copy_line (c # temp) n = (if c \<noteq> NL \<and> 0 < n then map_option (Cons c) (copy_line temp (n - 1)) else Some [c])"

definition terminal_read :: "buf option \<Rightarrow> int \<Rightarrow> ('a kbd_scheme \<Rightarrow> 'a kbd_scheme option) list
    \<Rightarrow> ('a kbd_scheme \<Rightarrow> 'a kbd_scheme option) list \<Rightarrow> 'a kbd_scheme \<Rightarrow> (buf \<times> 'a kbd_scheme outcome) option" where
  "terminal_read ptr nbytes evs late s =
     (case ptr of
        None \<Rightarrow> Some ([], Returned (-1) s)
      | Some b \<Rightarrow>
          if nbytes < 0 then Some (b, Returned (-1) s)
          else do {
            (waiting, s) \<leftarrow> wait_while typing evs (sti s);
            if waiting then Some (b, Blocked s)
            else do {
              s \<leftarrow> each (\<lambda>e. e) late s;
              let s = cli s;
              out \<leftarrow> copy_line (keyboard_buf s) (nat nbytes);
              b \<leftarrow> fill_buf b out;
              (_, s) \<leftarrow> clear_keyboard_buf_caller s;
              Some (b, Returned (int (length out)) (sti s)) } })"

fun write_loop :: "buf \<Rightarrow> nat \<Rightarrow> 'a screen_scheme \<Rightarrow> 'a screen_scheme option" where
  "write_loop b 0 s = Some s"
| "write_loop [] (Suc n) s = None"
| "write_loop (c # b) (Suc n) s = write_loop b n (putc c s)"

definition terminal_write :: "buf option \<Rightarrow> int \<Rightarrow> 'a screen_scheme \<Rightarrow> (int \<times> 'a screen_scheme) option" where
  "terminal_write ptr nbytes s =
     (case ptr of
        None \<Rightarrow> Some (-1, s)
      | Some b \<Rightarrow> if nbytes < 0 then Some (-1, s)
                  else do { s \<leftarrow> write_loop b (nat nbytes) s; Some (nbytes, s) })"

text \<open>No modifier is held: the next key is taken from the lower-case layer.\<close>

definition plain_keys :: "'a kbd_scheme \<Rightarrow> bool" where
  "plain_keys s \<longleftrightarrow> \<not> caps s \<and> \<not> l_shift s \<and> \<not> r_shift s \<and> \<not> ctrl s"

definition key_char :: "u8 \<Rightarrow> u8 option" where
  "key_char k = map_option of_char (map_of keys_lower (ucast k))"

subsection \<open>Writing\<close>

lemma write_loop_eq: "n \<le> length b \<Longrightarrow> write_loop b n s = Some (fold putc (take n b) s)"
  by (induction b n s rule: write_loop.induct) auto

lemma console_step_putc: "console_step s (putc c s)"
  by (rule console_step_screen) (simp_all add: screen_inv_putc, simp_all add: putc_def Let_def cli_def sti_def)

lemma console_step_fold_putc: "console_step s (fold putc cs s)"
proof (induction cs arbitrary: s)
  case (Cons c cs)
  show ?case using console_step_trans [OF console_step_putc Cons.IH] by simp
qed simp

lemma write_loop_None: "length b < n \<Longrightarrow> write_loop b n s = None"
  by (induction b n s rule: write_loop.induct) auto

subsection \<open>Reading\<close>

lemma has_newline_iff: "has_newline n temp \<longleftrightarrow> NL \<in> set (cstr (take n temp))"
  by (induction n temp rule: has_newline.induct) (auto simp: cstr_def)

lemma copy_line_eq:
  assumes "NL \<notin> set l"
  shows "copy_line (l @ NL # r) n = Some (if length l \<le> n then l @ [NL] else take (Suc n) l)"
  using assms
proof (induction l arbitrary: n)
  case (Cons c l)
  then show ?case by (cases n) auto
qed simp

lemma kb_line_buf: "kb_inv s \<Longrightarrow> keyboard_buf s = kb_line s @ replicate (128 - key_idx s) 0"
proof -
  assume "kb_inv s"
  then have "all_nul (drop (key_idx s) (keyboard_buf s))" "length (keyboard_buf s) = 128"
    by (auto simp: kb_inv_def line_ok_def)
  then have "drop (key_idx s) (keyboard_buf s) = replicate (128 - key_idx s) 0" by (simp add: all_nul_iff)
  then show ?thesis by (metis append_take_drop_id kb_line_def)
qed

lemma cstr_kb: "kb_inv s \<Longrightarrow> cstr (keyboard_buf s) = kb_line s"
proof -
  assume s: "kb_inv s"
  then have "0 \<notin> set (kb_line s)" by (auto simp: kb_inv_def line_ok_def kb_line_def)
  then show ?thesis unfolding kb_line_buf [OF s]
    by (cases "128 - key_idx s") (auto simp: cstr_no_nul)
qed

lemma typing_iff: "kb_inv s \<Longrightarrow> typing s \<longleftrightarrow> \<not> (NL \<in> set (kb_line s) \<and> ts s = ta s)"
proof -
  assume s: "kb_inv s"
  then have "take 128 (keyboard_buf s) = keyboard_buf s" by (simp add: kb_inv_def line_ok_def)
  then show ?thesis by (simp add: typing_def has_newline_iff cstr_kb [OF s])
qed

subsection \<open>From the key to the line\<close>

lemma keys_lower_facts:
  "list_all (\<lambda>(k, c). (of_char c :: u8) \<noteq> 0) keys_lower"
  "list_all (\<lambda>(k, c). k \<notin> {0x0E, 0x8E, 0x0F, 0x8F, 0x3A, 0x2A, 0xAA, 0x36, 0xB6, 0x1D, 0x9D, 0x38, 0xB8, 0x3B, 0x3C, 0x3D,
     0xBB, 0xBC, 0xBD}) keys_lower"
  by code_simp+

lemma get_key_plain:
  assumes "plain_keys s" "key_char k = Some c"
  shows "get_key (ucast k) s = (c, s)" "c \<noteq> 0"
proof -
  from assms(2) obtain ch where ch: "map_of keys_lower (ucast k) = Some ch" "c = of_char ch"
    by (auto simp: key_char_def)
  from map_of_SomeD [OF ch(1)] have m: "(ucast k, ch) \<in> set keys_lower" .
  with keys_lower_facts(1) ch(2) show "c \<noteq> 0" by (auto simp: list_all_iff)
  from m keys_lower_facts(2) have "modifier_key (ucast k) s = None"
    unfolding list_all_iff modifier_key_def by fastforce
  then show "get_key (ucast k) s = (c, s)"
    using assms(1) ch by (simp add: get_key_def plain_keys_def Let_def)
qed

text \<open>What echoing changes is only on the screen.\<close>

lemma kbd_screen_cong:
  assumes "screen.more s' = screen.more s"
  shows "kb_inv s' = kb_inv s" "kb_line s' = kb_line s" "plain_keys s' = plain_keys s"
proof -
  have "caps s' = caps s" "l_shift s' = l_shift s" "r_shift s' = r_shift s" "ctrl s' = ctrl s"
    using assms by (cases s; cases s'; simp)+
  then show "plain_keys s' = plain_keys s" by (simp add: plain_keys_def)
  show "kb_inv s' = kb_inv s" "kb_line s' = kb_line s"
    using kbd_fields_cong [OF assms] by (simp_all add: kb_inv_def kb_line_def)
qed

lemma check_cursor_frame [simp]:
  "screen.more (check_cursor s) = screen.more s" "ts (check_cursor s) = ts s" "ta (check_cursor s) = ta s"
  by (simp_all add: check_cursor_def)

lemma key_press:
  assumes "kb_inv s" "plain_keys s" "key_char k = Some c" "accepts (kb_line s) c"
  shows "\<exists>s'. keyboard_handler k s = Some s' \<and> kb_inv s' \<and> plain_keys s' \<and> kb_line s' = kb_line s @ [c]
     \<and> ts s' = ts s \<and> ta s' = ta s"
proof -
  have c: "kb_inv (cli s)" "kb_line (cli s) = kb_line s" "plain_keys (cli s)"
    using kbd_screen_cong [of "cli s" s] assms(1,2) by (simp_all add: cli_def)
  note g = get_key_plain [OF c(3) assms(3)]
  from kb.type_law [OF c(1) g(2)] obtain t where
    t: "kb_inv t" "kb_write c (cli s) = Some (0, t)" "kb_line t = kb_line s @ [c]"
    using assms(4) c(2) by (auto split: if_splits)
  have "t = (cli s)\<lparr>keyboard_buf := (keyboard_buf (cli s))[key_idx (cli s) := c], key_idx := Suc (key_idx (cli s))\<rparr>"
    using t(2) kb_write_eq [OF c(1), of c] assms(4) c(2) by simp
  then have fr: "plain_keys t" "ts t = ts s" "ta t = ta s" using c(3) by (simp_all add: plain_keys_def cli_def)
  define u where "u = put_key c (if c = NL then check_cursor t else t)"
  have k: "key_action c (cli s) = Some u"
    using g(2) c(3) t(2) by (simp add: key_action_def plain_keys_def u_def)
  have m: "screen.more (sti (send_eoi IRQ1 u)) = screen.more t" by (simp add: u_def sti_def)
  have "keyboard_handler k s = Some (sti (send_eoi IRQ1 u))"
    by (simp add: keyboard_handler_def g(1) k)
  moreover have "ts (sti (send_eoi IRQ1 u)) = ts s" "ta (sti (send_eoi IRQ1 u)) = ta s"
    using fr by (simp_all add: u_def sti_def)
  ultimately show ?thesis using kbd_screen_cong [OF m] t fr by auto
qed

text \<open>Polling while a line is typed: nothing is returned before the newline, everything after it.\<close>

lemma poll_line:
  assumes "kb_inv s" "plain_keys s" "ts s = ta s" "NL \<notin> set (kb_line s)"
    and "map key_char ks = map Some cs" "NL \<notin> set cs" "length (kb_line s) + length cs < 128"
  shows "\<exists>s'. wait_while typing (map keyboard_handler (ks @ [0x1C])) s = Some (False, s') \<and> kb_inv s'
     \<and> kb_line s' = kb_line s @ cs @ [NL]"
  using assms
proof (induction ks arbitrary: s cs)
  case Nil
  have nl: "key_char 0x1C = Some NL" by code_simp
  have "accepts (kb_line s) NL" using Nil.prems by (auto simp: accepts_def)
  from key_press [OF Nil.prems(1,2) nl this] obtain t where
    t: "keyboard_handler 0x1C s = Some t" "kb_inv t" "kb_line t = kb_line s @ [NL]" "ts t = ts s" "ta t = ta s" by blast
  have "typing s" "\<not> typing t" using Nil.prems t by (simp_all add: typing_iff)
  then show ?case using t Nil.prems by simp
next
  case (Cons k ks)
  then obtain c cs' where cs: "cs = c # cs'" "key_char k = Some c" "map key_char ks = map Some cs'" by (cases cs) auto
  have "accepts (kb_line s) c" using Cons.prems cs by (auto simp: accepts_def)
  from key_press [OF Cons.prems(1,2) cs(2) this] obtain t where
    t: "keyboard_handler k s = Some t" "kb_inv t" "plain_keys t" "kb_line t = kb_line s @ [c]" "ts t = ts s" "ta t = ta s"
    by blast
  have "typing s" using Cons.prems by (simp add: typing_iff)
  moreover have "\<exists>s'. wait_while typing (map keyboard_handler (ks @ [0x1C])) t = Some (False, s') \<and> kb_inv s'
     \<and> kb_line s' = kb_line t @ cs' @ [NL]"
    using Cons.prems cs t by (intro Cons.IH) auto
  ultimately show ?case using t cs by auto
qed

text \<open>
  A typed line reaches the reader: when the shown terminal is the active one and the user types a
  line of up to 127 characters and Enter into an empty buffer, a pending \<open>terminal_read\<close> with a large
  enough buffer returns exactly the typed characters and the newline, in order, with their number, and
  the line buffer is empty again.
\<close>

theorem typed_line_is_read:
  assumes "kb_inv s" "plain_keys s" "ts s = ta s" "kb_line s = []"
    and "map key_char ks = map Some cs" "NL \<notin> set cs" "length cs < 128"
    and "int (length cs) \<le> nbytes" "length cs < length b"
  shows "\<exists>s'. terminal_read (Some b) nbytes (map keyboard_handler (ks @ [0x1C])) [] s
      = Some (cs @ NL # drop (Suc (length cs)) b, Returned (int (length cs) + 1) s')
     \<and> kb_line s' = [] \<and> kb_inv s'"
proof -
  have s: "kb_inv (sti s)" "kb_line (sti s) = []" "plain_keys (sti s)" "ts (sti s) = ta (sti s)"
    using kbd_screen_cong [of "sti s" s] assms(1-4) by (simp_all add: sti_def)
  from poll_line [OF s(1,3,4) _ assms(5,6)] s(2) assms(7) obtain t where
    t: "wait_while typing (map keyboard_handler (ks @ [0x1C])) (sti s) = Some (False, t)" "kb_inv t"
      "kb_line t = cs @ [NL]" by auto
  have ct: "keyboard_buf (cli t) = keyboard_buf t" "length (keyboard_buf t) = 128"
    using t(2) by (simp_all add: cli_def kb_inv_def line_ok_def)
  have "keyboard_buf t = cs @ NL # replicate (128 - key_idx t) 0" using kb_line_buf [OF t(2)] t(3) by simp
  then have cp: "copy_line (keyboard_buf t) (nat nbytes) = Some (cs @ [NL])"
    using copy_line_eq [OF assms(6)] assms(8) by simp
  let ?s' = "sti ((cli t)\<lparr>keyboard_buf := replicate 128 0, key_idx := 0\<rparr>)"
  have "terminal_read (Some b) nbytes (map keyboard_handler (ks @ [0x1C])) [] s
      = Some (cs @ NL # drop (Suc (length cs)) b, Returned (int (length cs) + 1) ?s')"
    using t(1) cp ct assms(8,9) by (simp add: terminal_read_def kb_clear_eq Let_def)
  moreover have "kb_line ?s' = []" "kb_inv ?s'"
    by (simp_all add: kb_line_def kb_inv_def line_ok_clear sti_def)
  ultimately show ?thesis by blast
qed


lemma blank_kbd_plain: "plain_keys blank_kbd" "ts blank_kbd = ta blank_kbd"
  by (simp_all add: plain_keys_def blank_defs)

lemma key_char_ls: "map key_char [0x26, 0x1F] = map Some [108, 115]"
  by code_simp

theorem typed_line_is_read_witness:
  "\<exists>s'. terminal_read (Some [7, 7, 7, 7]) 3 (map keyboard_handler [0x26, 0x1F, 0x1C]) [] blank_kbd
      = Some ([108, 115, 10, 7], Returned 3 s')"
  using typed_line_is_read [OF blank_kbd_inv(3) blank_kbd_plain blank_kbd_inv(4) key_char_ls, of 3 "[7, 7, 7, 7]"] by auto


end
