(* ===== verification/Processes.thy ===== *)
theory Processes
  imports Terminal
begin

text \<open>
  Processes and file descriptors: the structures of \<^verbatim>\<open>code/processes.h\<close> and \<^verbatim>\<open>code/file_system.h\<close>, the
  tables of \<open>process_init\<close> (\<^verbatim>\<open>code/processes.c\<close>) and the system calls of \<^verbatim>\<open>code/system_call.c\<close> that
  work on descriptors and on the process control block.

  The control block of process \<open>pid\<close> lies at \<open>8 MB - (pid + 1) * 8 KB\<close>; \<open>pcbs\<close> holds the six blocks by
  process number, and a block of any other number lies outside them: reaching for it is \<open>None\<close>.
  A function pointer is the name of the function; the tables are part of the state, as \<open>process_init\<close>
  fills them at boot.
\<close>

datatype open_fn = File_open | Dir_open | Rtc_open | Terminal_open | Invalid_open
datatype close_fn = File_close | Dir_close | Rtc_close | Terminal_close | Invalid_close
datatype read_fn = File_read | Dir_read | Rtc_read | Terminal_read | Invalid_read
datatype write_fn = File_write | Dir_write | Rtc_write | Terminal_write | Invalid_write

record f_op_t =
  op_open :: open_fn
  op_close :: close_fn
  op_read :: read_fn
  op_write :: write_fn

text \<open>The addresses of the seven tables, and the null pointer.\<close>

datatype fops = File_opt | Dir_opt | Rtc_opt | Terminal_opt | Stdin_opt | Stdout_opt | Null_opt | Null_ptr

record fd_t =
  file_op_table_ptr :: fops
  fd_inode_num :: u32
  file_pos :: u32
  fd_flags :: u32

record pcb_t =
  file_descriptor_table :: "fd_t list"
  parent_pid :: int
  pcb_ebp :: u32
  pcb_esp :: u32
  cur_ebp :: u32
  cur_esp :: u32
  cmd_args :: buf

record proc = kbd +
  pcbs :: "int \<Rightarrow> pcb_t"
  pid_array :: "int list"
  optab :: "fops \<Rightarrow> f_op_t option"
  tss_ss0 :: u16
  tss_esp0 :: u32
  fs_img :: buf
  read_index :: u32
  terminal_init :: int

abbreviation NUM_MAX_FILES :: int where "NUM_MAX_FILES \<equiv> 8"
abbreviation MIN_FD_INDEX :: int where "MIN_FD_INDEX \<equiv> 2"
abbreviation MAX_FD_INDEX :: int where "MAX_FD_INDEX \<equiv> 7"

definition pcb_addr :: "int \<Rightarrow> u32" where
  "pcb_addr pid = 0x800000 - word_of_int (pid + 1) * 0x2000"

definition get_pcb :: "int \<Rightarrow> 'a proc_scheme \<Rightarrow> pcb_t option" where
  "get_pcb pid s = (if 0 \<le> pid \<and> pid < MAX_PID then Some (pcbs s pid) else None)"

definition upd_pcb :: "int \<Rightarrow> (pcb_t \<Rightarrow> pcb_t) \<Rightarrow> 'a proc_scheme \<Rightarrow> 'a proc_scheme" where
  "upd_pcb pid f s = s\<lparr>pcbs := (pcbs s)(pid := f (pcbs s pid))\<rparr>"

definition fdt_of :: "int \<Rightarrow> 'a proc_scheme \<Rightarrow> fd_t list" where
  "fdt_of pid s = file_descriptor_table (pcbs s pid)"

definition set_fd :: "int \<Rightarrow> nat \<Rightarrow> fd_t \<Rightarrow> 'a proc_scheme \<Rightarrow> 'a proc_scheme" where
  "set_fd pid i e s = upd_pcb pid (\<lambda>p. p\<lparr>file_descriptor_table := (file_descriptor_table p)[i := e]\<rparr>) s"

definition process_init :: "'a proc_scheme \<Rightarrow> 'a proc_scheme" where
  "process_init s =
     (let s = s\<lparr>optab := (optab s)
        (File_opt \<mapsto> \<lparr>op_open = File_open, op_close = File_close, op_read = File_read, op_write = File_write\<rparr>,
         Dir_opt \<mapsto> \<lparr>op_open = Dir_open, op_close = Dir_close, op_read = Dir_read, op_write = Dir_write\<rparr>,
         Rtc_opt \<mapsto> \<lparr>op_open = Rtc_open, op_close = Rtc_close, op_read = Rtc_read, op_write = Rtc_write\<rparr>,
         Terminal_opt \<mapsto> \<lparr>op_open = Terminal_open, op_close = Terminal_close, op_read = Terminal_read, op_write = Terminal_write\<rparr>,
         Stdin_opt \<mapsto> \<lparr>op_open = Terminal_open, op_close = Terminal_close, op_read = Terminal_read, op_write = Invalid_write\<rparr>,
         Stdout_opt \<mapsto> \<lparr>op_open = Terminal_open, op_close = Terminal_close, op_read = Invalid_read, op_write = Terminal_write\<rparr>,
         Null_opt \<mapsto> \<lparr>op_open = Invalid_open, op_close = Invalid_close, op_read = Invalid_read, op_write = Invalid_write\<rparr>)\<rparr>
      in upd_term 0 (\<lambda>t. t\<lparr>cursor_y := 1, cursor_x := 7\<rparr>) s)"

definition invalid_open_close :: int where "invalid_open_close = -1"
definition invalid_read_write :: int where "invalid_read_write = -1"

subsection \<open>The calls through a table\<close>

text \<open>Storing bytes through a user pointer; the null page is not mapped.\<close>

definition store_user :: "buf option \<Rightarrow> buf \<Rightarrow> buf option" where
  "store_user ptr bs = (case ptr of None \<Rightarrow> (if bs = [] then Some [] else None) | Some b \<Rightarrow> fill_buf b bs)"

definition call_open :: "open_fn \<Rightarrow> buf \<Rightarrow> 'a proc_scheme \<Rightarrow> (int \<times> 'a proc_scheme) option" where
  "call_open f fname s =
     (case f of
        File_open \<Rightarrow> map_option (\<lambda>r. (r, s)) (file_open (fs_img s) fname)
      | Dir_open \<Rightarrow> map_option (\<lambda>(r, i). (r, s\<lparr>read_index := i\<rparr>)) (dir_open (fs_img s) fname)
      | Rtc_open \<Rightarrow> rtc_open s
      | Terminal_open \<Rightarrow> Some (terminal_open, s)
      | Invalid_open \<Rightarrow> Some (invalid_open_close, s))"

definition call_close :: "close_fn \<Rightarrow> 'a proc_scheme \<Rightarrow> (int \<times> 'a proc_scheme) option" where
  "call_close f s =
     (case f of
        File_close \<Rightarrow> Some (file_close, s)
      | Dir_close \<Rightarrow> Some (fst dir_close, s\<lparr>read_index := snd dir_close\<rparr>)
      | Rtc_close \<Rightarrow> rtc_close s
      | Terminal_close \<Rightarrow> Some (terminal_close, s)
      | Invalid_close \<Rightarrow> Some (invalid_open_close, s))"

type_synonym 's handlers = "('s \<Rightarrow> 's option) list"

definition call_read :: "read_fn \<Rightarrow> fd_t \<Rightarrow> buf option \<Rightarrow> int \<Rightarrow> 'a proc_scheme handlers \<Rightarrow> 'a proc_scheme handlers
    \<Rightarrow> 'a proc_scheme \<Rightarrow> (buf \<times> 'a proc_scheme outcome) option" where
  "call_read f e ptr nbytes evs late s =
     (case f of
        File_read \<Rightarrow> do {
          (r, bs) \<leftarrow> file_read (fs_img s) (fd_inode_num e) (file_pos e) nbytes;
          b \<leftarrow> store_user ptr bs;
          Some (b, Returned r s) }
      | Dir_read \<Rightarrow> do {
          (r, bs, i) \<leftarrow> dir_read (fs_img s) (read_index s) nbytes;
          b \<leftarrow> store_user ptr bs;
          Some (b, Returned r (s\<lparr>read_index := i\<rparr>)) }
      | Rtc_read \<Rightarrow> do { r \<leftarrow> rtc_read evs s; b \<leftarrow> store_user ptr []; Some (b, r) }
      | Terminal_read \<Rightarrow> terminal_read ptr nbytes evs late s
      | Invalid_read \<Rightarrow> do { b \<leftarrow> store_user ptr []; Some (b, Returned invalid_read_write s) })"

definition call_write :: "write_fn \<Rightarrow> buf option \<Rightarrow> int \<Rightarrow> 'a proc_scheme \<Rightarrow> (int \<times> 'a proc_scheme) option" where
  "call_write f ptr nbytes s =
     (case f of
        File_write \<Rightarrow> Some (file_write [] nbytes, s)
      | Dir_write \<Rightarrow> Some (dir_write [] nbytes, s)
      | Rtc_write \<Rightarrow> do { b \<leftarrow> ptr; rtc_write b nbytes s }
      | Terminal_write \<Rightarrow> terminal_write ptr nbytes s
      | Invalid_write \<Rightarrow> Some (invalid_read_write, s))"

subsection \<open>The descriptor system calls\<close>

definition sys_read :: "int \<Rightarrow> buf option \<Rightarrow> int \<Rightarrow> 'a proc_scheme handlers \<Rightarrow> 'a proc_scheme handlers
    \<Rightarrow> 'a proc_scheme \<Rightarrow> (buf \<times> 'a proc_scheme outcome) option" where
  "sys_read fd ptr nbytes evs late s =
     (if fd < 0 \<or> fd > NUM_MAX_FILES then do { b \<leftarrow> store_user ptr []; Some (b, Returned (-1) s) }
      else do {
        let pid = cur_pid s;
        p \<leftarrow> get_pcb pid s;
        e \<leftarrow> rd_int (file_descriptor_table p) fd;
        if fd_flags e = 0 then do { b \<leftarrow> store_user ptr []; Some (b, Returned (-1) s) }
        else do {
          t \<leftarrow> optab s (file_op_table_ptr e);
          (b, r) \<leftarrow> call_read (op_read t) e ptr nbytes evs late s;
          (case r of
             Blocked s \<Rightarrow> Some (b, Blocked s)
           | Returned k s \<Rightarrow>
               let e = fdt_of pid s ! nat fd
               in Some (b, Returned k (set_fd pid (nat fd) (e\<lparr>file_pos := file_pos e + word_of_int k\<rparr>) s))) } })"

definition sys_write :: "int \<Rightarrow> buf option \<Rightarrow> int \<Rightarrow> 'a proc_scheme \<Rightarrow> (int \<times> 'a proc_scheme) option" where
  "sys_write fd ptr nbytes s =
     (if fd < 0 \<or> fd > NUM_MAX_FILES then Some (-1, s)
      else do {
        p \<leftarrow> get_pcb (cur_pid s) s;
        e \<leftarrow> rd_int (file_descriptor_table p) fd;
        if fd_flags e = 0 then Some (-1, s)
        else do {
          t \<leftarrow> optab s (file_op_table_ptr e);
          call_write (op_write t) ptr nbytes s } })"

text \<open>The search for a free descriptor: \<open>fd\<close> runs from 2 while it is below 8 and in use.\<close>

function find_fd :: "fd_t list \<Rightarrow> int \<Rightarrow> int option" where
  "find_fd fdt fd =
     (if fd < NUM_MAX_FILES then do { e \<leftarrow> rd_int fdt fd; if fd_flags e \<noteq> 0 then find_fd fdt (fd + 1) else Some fd }
      else Some fd)"
  by pat_completeness auto
termination
  by (relation "measure (\<lambda>(fdt, fd). nat (8 - fd))") auto

declare find_fd.simps [simp del]

definition open_entry :: "fops \<Rightarrow> u32 \<Rightarrow> fd_t" where
  "open_entry t ino = \<lparr>file_op_table_ptr = t, fd_inode_num = ino, file_pos = 0, fd_flags = 1\<rparr>"

definition closed_entry :: fd_t where
  "closed_entry = \<lparr>file_op_table_ptr = Null_opt, fd_inode_num = -1, file_pos = -1, fd_flags = 0\<rparr>"

definition sys_open :: "buf \<Rightarrow> 'a proc_scheme \<Rightarrow> (int \<times> 'a proc_scheme) option" where
  "sys_open filename s = do {
     r \<leftarrow> read_dentry_by_name (fs_img s) filename;
     case r of
       Inl _ \<Rightarrow> Some (-1, s)
     | Inr d \<Rightarrow> do {
         p \<leftarrow> get_pcb (cur_pid s) s;
         fd \<leftarrow> find_fd (file_descriptor_table p) MIN_FD_INDEX;
         if fd \<ge> NUM_MAX_FILES then Some (-1, s)
         else if file_type d = 0 then do {
           let s = set_fd (cur_pid s) (nat fd) (open_entry Rtc_opt (inode_num d)) s;
           t \<leftarrow> optab s Rtc_opt;
           (_, s) \<leftarrow> call_open (op_open t) filename s;
           Some (fd, s) }
         else if file_type d = 1 then Some (fd, set_fd (cur_pid s) (nat fd) (open_entry Dir_opt (inode_num d)) s)
         else if file_type d = 2 then Some (fd, set_fd (cur_pid s) (nat fd) (open_entry File_opt (inode_num d)) s)
         else Some (fd, s) } }"

definition sys_close :: "int \<Rightarrow> 'a proc_scheme \<Rightarrow> (int \<times> 'a proc_scheme) option" where
  "sys_close fd s =
     (if fd < MIN_FD_INDEX \<or> fd > MAX_FD_INDEX then Some (-1, s)
      else do {
        let pid = cur_pid s;
        p \<leftarrow> get_pcb pid s;
        e \<leftarrow> rd_int (file_descriptor_table p) fd;
        if fd_flags e = 0 then Some (-1, s)
        else do {
          t \<leftarrow> optab s (file_op_table_ptr e);
          (_, s) \<leftarrow> call_close (op_close t) s;
          Some (0, set_fd pid (nat fd) closed_entry s) } })"

text \<open>\<open>sys_getargs\<close> returns the value and the buffer after the call.\<close>

definition sys_getargs :: "buf option \<Rightarrow> int \<Rightarrow> 'a proc_scheme \<Rightarrow> (int \<times> buf) option" where
  "sys_getargs ptr nbytes s = do {
     p \<leftarrow> get_pcb (cur_pid s) s;
     arg_strlen \<leftarrow> strlen (cmd_args p);
     if arg_strlen = 0 \<or> int arg_strlen > nbytes - 1 then do { b \<leftarrow> store_user ptr []; Some (-1, b) }
     else do { b \<leftarrow> store_user ptr (take arg_strlen (cmd_args p) @ [0]); Some (0, b) } }"

text \<open>\<open>sys_vidmap\<close> gets the user's pointer as an address; the second component is the value stored there.\<close>

definition sys_vidmap :: "u32 \<Rightarrow> 'a paging_scheme \<Rightarrow> int \<times> u32 option" where
  "sys_vidmap screen_start s =
     (if \<not> pte_p (pt_user s VID_MEM_INDEX) \<or> screen_start = 0 then (-1, None)
      else if screen_start < 0x8000000 \<or> screen_start \<ge> 0x8000000 + 0x800000 then (-1, None)
      else (0, Some ((of_nat PROGRAM_IMG_IDX + 1) * 0x400000 + push_bit 12 (of_nat VID_MEM_INDEX))))"

definition sys_sethandler :: "int \<Rightarrow> u32 \<Rightarrow> int" where "sys_sethandler signum handler = -1"
definition sys_sigreturn :: int where "sys_sigreturn = -1"

subsection \<open>Invariants and the client of a file\<close>

text \<open>The tables hold what \<open>process_init\<close> puts there.\<close>

definition tables_ready :: "'a proc_scheme \<Rightarrow> bool" where
  "tables_ready s \<longleftrightarrow> optab (process_init s) = optab s"

definition pcb_ok :: "pcb_t \<Rightarrow> bool" where
  "pcb_ok p \<longleftrightarrow> length (file_descriptor_table p) = 8 \<and> length (cmd_args p) = 128 \<and> 0 \<in> set (cmd_args p)
     \<and> list_all (\<lambda>e. fd_flags e = 0 \<or> file_op_table_ptr e \<noteq> Null_ptr) (file_descriptor_table p)"

definition cur_ok :: "'a proc_scheme \<Rightarrow> bool" where
  "cur_ok s \<longleftrightarrow> tables_ready s \<and> 0 \<le> cur_pid s \<and> cur_pid s < MAX_PID \<and> pcb_ok (pcbs s (cur_pid s))"

text \<open>The read loop of a program: \<open>n\<close> bytes at a time into a buffer of that size, until a call returns 0.\<close>

fun read_file :: "int \<Rightarrow> nat \<Rightarrow> nat \<Rightarrow> 'a proc_scheme \<Rightarrow> (buf \<times> 'a proc_scheme) option" where
  "read_file fd n 0 s = None"
| "read_file fd n (Suc fuel) s = do {
     (b, r) \<leftarrow> sys_read fd (Some (replicate n 0)) (int n) [] [] s;
     case r of
       Blocked s \<Rightarrow> None
     | Returned k s \<Rightarrow>
         if k \<le> 0 then Some ([], s)
         else do { (rest, s) \<leftarrow> read_file fd n fuel s; Some (take (nat k) b @ rest, s) } }"

text \<open>The descriptor \<open>fd\<close> of the current process denotes the file \<open>ino\<close> at position \<open>pos\<close>.\<close>

definition file_at :: "int \<Rightarrow> u32 \<Rightarrow> u32 \<Rightarrow> 'a proc_scheme \<Rightarrow> bool" where
  "file_at fd ino pos s \<longleftrightarrow> cur_ok s \<and> 0 \<le> fd \<and> fd < 8
     \<and> fdt_of (cur_pid s) s ! nat fd = \<lparr>file_op_table_ptr = File_opt, fd_inode_num = ino, file_pos = pos, fd_flags = 1\<rparr>"

text \<open>The process state at boot, before any process runs, over a given file system image.\<close>

definition blank_pcb :: pcb_t where
  "blank_pcb = \<lparr>file_descriptor_table = replicate 8 \<lparr>file_op_table_ptr = Null_ptr, fd_inode_num = 0, file_pos = 0, fd_flags = 0\<rparr>,
     parent_pid = 0, pcb_ebp = 0, pcb_esp = 0, cur_ebp = 0, cur_esp = 0, cmd_args = replicate 128 0\<rparr>"

definition boot_proc :: "buf \<Rightarrow> proc" where
  "boot_proc img = process_init (kbd.extend blank_kbd
     \<lparr>pcbs = (\<lambda>_. blank_pcb), pid_array = replicate 6 0, optab = (\<lambda>_. None), tss_ss0 = 0x18, tss_esp0 = 0x800000,
      fs_img = img, read_index = 0, terminal_init = 1\<rparr>)"

lemma tables_readyD:
  assumes "tables_ready s"
  shows "optab s File_opt = Some \<lparr>op_open = File_open, op_close = File_close, op_read = File_read, op_write = File_write\<rparr>"
    "optab s Dir_opt = Some \<lparr>op_open = Dir_open, op_close = Dir_close, op_read = Dir_read, op_write = Dir_write\<rparr>"
    "optab s Rtc_opt = Some \<lparr>op_open = Rtc_open, op_close = Rtc_close, op_read = Rtc_read, op_write = Rtc_write\<rparr>"
    "optab s Stdin_opt = Some \<lparr>op_open = Terminal_open, op_close = Terminal_close, op_read = Terminal_read, op_write = Invalid_write\<rparr>"
    "optab s Stdout_opt = Some \<lparr>op_open = Terminal_open, op_close = Terminal_close, op_read = Invalid_read, op_write = Terminal_write\<rparr>"
    "optab s Terminal_opt = Some \<lparr>op_open = Terminal_open, op_close = Terminal_close, op_read = Terminal_read, op_write = Terminal_write\<rparr>"
    "optab s Null_opt = Some \<lparr>op_open = Invalid_open, op_close = Invalid_close, op_read = Invalid_read, op_write = Invalid_write\<rparr>"
proof -
  have e: "optab s x = optab (process_init s) x" for x using assms by (simp add: tables_ready_def)
  show "optab s File_opt = Some \<lparr>op_open = File_open, op_close = File_close, op_read = File_read, op_write = File_write\<rparr>"
    "optab s Dir_opt = Some \<lparr>op_open = Dir_open, op_close = Dir_close, op_read = Dir_read, op_write = Dir_write\<rparr>"
    "optab s Rtc_opt = Some \<lparr>op_open = Rtc_open, op_close = Rtc_close, op_read = Rtc_read, op_write = Rtc_write\<rparr>"
    "optab s Stdin_opt = Some \<lparr>op_open = Terminal_open, op_close = Terminal_close, op_read = Terminal_read, op_write = Invalid_write\<rparr>"
    "optab s Stdout_opt = Some \<lparr>op_open = Terminal_open, op_close = Terminal_close, op_read = Invalid_read, op_write = Terminal_write\<rparr>"
    "optab s Terminal_opt = Some \<lparr>op_open = Terminal_open, op_close = Terminal_close, op_read = Terminal_read, op_write = Terminal_write\<rparr>"
    "optab s Null_opt = Some \<lparr>op_open = Invalid_open, op_close = Invalid_close, op_read = Invalid_read, op_write = Invalid_write\<rparr>"
    by (simp_all add: e, simp_all add: process_init_def Let_def upd_term_def)
qed

lemma tables_ready_init: "tables_ready (process_init s)"
  by (simp add: tables_ready_def process_init_def upd_term_def Let_def)

lemma optab_some: "tables_ready s \<Longrightarrow> t \<noteq> Null_ptr \<Longrightarrow> \<exists>f. optab s t = Some f"
  using tables_readyD [of s] by (cases t) auto

lemma cur_okD:
  assumes "cur_ok s"
  shows "get_pcb (cur_pid s) s = Some (pcbs s (cur_pid s))" "length (fdt_of (cur_pid s) s) = 8" "tables_ready s"
    "file_descriptor_table (pcbs s (cur_pid s)) = fdt_of (cur_pid s) s"
    "i < 8 \<Longrightarrow> fd_flags (fdt_of (cur_pid s) s ! i) = 0 \<or> file_op_table_ptr (fdt_of (cur_pid s) s ! i) \<noteq> Null_ptr"
  using assms by (auto simp: cur_ok_def get_pcb_def pcb_ok_def fdt_of_def list_all_length)

lemma upd_pcb_simps [simp]:
  "pcbs (upd_pcb pid f s) = (pcbs s)(pid := f (pcbs s pid))" "cur_pid (upd_pcb pid f s) = cur_pid s"
  "optab (upd_pcb pid f s) = optab s" "fs_img (upd_pcb pid f s) = fs_img s" "pid_array (upd_pcb pid f s) = pid_array s"
  "prev_pid (upd_pcb pid f s) = prev_pid s" "terminals (upd_pcb pid f s) = terminals s" "ta (upd_pcb pid f s) = ta s"
  "ts (upd_pcb pid f s) = ts s" "pmem (upd_pcb pid f s) = pmem s" "read_index (upd_pcb pid f s) = read_index s"
  "tables_ready (upd_pcb pid f s) = tables_ready s"
  by (simp_all add: upd_pcb_def tables_ready_def process_init_def upd_term_def Let_def)

lemma set_fd_simps [simp]:
  "cur_pid (set_fd pid i e s) = cur_pid s" "fs_img (set_fd pid i e s) = fs_img s" "optab (set_fd pid i e s) = optab s"
  "pcbs (set_fd pid i e s) pid' = (if pid' = pid
     then (pcbs s pid)\<lparr>file_descriptor_table := (file_descriptor_table (pcbs s pid))[i := e]\<rparr> else pcbs s pid')"
  by (simp_all add: set_fd_def)

lemma find_fd_least:
  assumes "length fdt = 8" "0 \<le> fd" "fd \<le> 8"
  shows "\<exists>k. find_fd fdt fd = Some k \<and> fd \<le> k \<and> k \<le> 8 \<and> (\<forall>j. fd \<le> j \<longrightarrow> j < k \<longrightarrow> fd_flags (fdt ! nat j) \<noteq> 0)
     \<and> (k < 8 \<longrightarrow> fd_flags (fdt ! nat k) = 0)"
  using assms(2,3)
proof (induction "nat (8 - fd)" arbitrary: fd)
  case 0
  then show ?case by (subst find_fd.simps) auto
next
  case (Suc n)
  show ?case
  proof (cases "fd < 8")
    case True
    then have e: "rd_int fdt fd = Some (fdt ! nat fd)" using Suc.prems assms(1) by simp
    show ?thesis
    proof (cases "fd_flags (fdt ! nat fd) = 0")
      case False
      obtain k where k: "find_fd fdt (fd + 1) = Some k" "fd + 1 \<le> k" "k \<le> 8"
        "\<forall>j. fd + 1 \<le> j \<longrightarrow> j < k \<longrightarrow> fd_flags (fdt ! nat j) \<noteq> 0" "k < 8 \<longrightarrow> fd_flags (fdt ! nat k) = 0"
      proof -
        have "n = nat (8 - (fd + 1))" using Suc.hyps(2) by linarith
        then show ?thesis using Suc.hyps(1) [of "fd + 1"] Suc.prems True that by fastforce
      qed
      have "\<forall>j. fd \<le> j \<longrightarrow> j < k \<longrightarrow> fd_flags (fdt ! nat j) \<noteq> 0"
        using k(4) False by (metis add1_zle_eq order_le_less)
      then show ?thesis using True e False k by (subst find_fd.simps) auto
    next
      case t: True
      then show ?thesis using True e Suc.prems by (subst find_fd.simps) auto
    qed
  next
    case False
    then show ?thesis using Suc.prems by (subst find_fd.simps) auto
  qed
qed

text \<open>
  C28. Opening a regular file that the directory has: the call returns the lowest free descriptor of the
  current process from 2 on, which then denotes that file at position 0, and no other descriptor,
  process or component changes; when all six descriptors are in use it returns \<open>-1\<close> and changes nothing.
\<close>

theorem sys_open_file:
  assumes "cur_ok s" "read_dentry_by_name (fs_img s) fname = Some (Inr d)" "file_type d = 2"
  shows "(\<exists>fd. 2 \<le> fd \<and> fd < 8 \<and> fd_flags (fdt_of (cur_pid s) s ! nat fd) = 0
        \<and> (\<forall>j. 2 \<le> j \<and> j < fd \<longrightarrow> fd_flags (fdt_of (cur_pid s) s ! nat j) \<noteq> 0)
        \<and> sys_open fname s = Some (fd, set_fd (cur_pid s) (nat fd) (open_entry File_opt (inode_num d)) s))
     \<or> (\<forall>j. 2 \<le> j \<and> j < 8 \<longrightarrow> fd_flags (fdt_of (cur_pid s) s ! nat j) \<noteq> 0) \<and> sys_open fname s = Some (-1, s)"
proof -
  note c = cur_okD [OF assms(1)]
  obtain k where k: "find_fd (fdt_of (cur_pid s) s) 2 = Some k" "2 \<le> k" "k \<le> 8"
    "\<forall>j. 2 \<le> j \<longrightarrow> j < k \<longrightarrow> fd_flags (fdt_of (cur_pid s) s ! nat j) \<noteq> 0"
    "k < 8 \<longrightarrow> fd_flags (fdt_of (cur_pid s) s ! nat k) = 0"
    using find_fd_least [OF c(2), of 2] by auto
  have "sys_open fname s = (if k \<ge> 8 then Some (-1, s)
      else Some (k, set_fd (cur_pid s) (nat k) (open_entry File_opt (inode_num d)) s))"
    using assms(2,3) c(1,4) k(1) by (simp add: sys_open_def)
  then show ?thesis using k by (cases "k < 8") auto
qed

subsection \<open>Reading through a descriptor\<close>

lemma pcb_ok_set_fd:
  assumes "pcb_ok p" "file_op_table_ptr e \<noteq> Null_ptr \<or> fd_flags e = 0"
  shows "pcb_ok (p\<lparr>file_descriptor_table := (file_descriptor_table p)[i := e]\<rparr>)"
  using assms by (auto simp: pcb_ok_def list_all_iff dest!: set_update_subset_insert [THEN subsetD])

lemma cur_ok_set_fd:
  assumes "cur_ok s" "file_op_table_ptr e \<noteq> Null_ptr \<or> fd_flags e = 0"
  shows "cur_ok (set_fd (cur_pid s) i e s)"
  using assms by (simp add: cur_ok_def set_fd_def pcb_ok_set_fd)

text \<open>A file read through the system call is \<open>file_read\<close> at the descriptor's position, which moves by the result.\<close>

lemma sys_read_file:
  assumes "file_at fd ino pos s" "file_read (fs_img s) ino pos n = Some (k, bs)" "length bs \<le> length b"
  shows "\<exists>s'. sys_read fd (Some b) n evs late s = Some (bs @ drop (length bs) b, Returned k s')
    \<and> file_at fd ino (pos + word_of_int k) s' \<and> fs_img s' = fs_img s
    \<and> s' = set_fd (cur_pid s) (nat fd)
        \<lparr>file_op_table_ptr = File_opt, fd_inode_num = ino, file_pos = pos + word_of_int k, fd_flags = 1\<rparr> s"
proof -
  have fa: "cur_ok s" "0 \<le> fd" "fd < 8" using assms(1) by (simp_all add: file_at_def)
  let ?e = "\<lparr>file_op_table_ptr = File_opt, fd_inode_num = ino, file_pos = pos, fd_flags = 1\<rparr>"
  let ?e' = "\<lparr>file_op_table_ptr = File_opt, fd_inode_num = ino, file_pos = pos + word_of_int k, fd_flags = 1\<rparr>"
  have e: "fdt_of (cur_pid s) s ! nat fd = ?e" using assms(1) by (simp add: file_at_def)
  note c = cur_okD [OF fa(1)]
  have i: "nat fd < 8" using fa by simp
  have r: "rd_int (file_descriptor_table (pcbs s (cur_pid s))) fd = Some ?e" using c fa i e by simp
  have "sys_read fd (Some b) n evs late s =
      Some (bs @ drop (length bs) b, Returned k (set_fd (cur_pid s) (nat fd) ?e' s))"
    using fa r c(1) e assms(2,3) tables_readyD(1) [OF c(3)]
    by (simp add: sys_read_def Let_def call_read_def store_user_def)
  moreover have "cur_ok (set_fd (cur_pid s) (nat fd) ?e' s)" by (rule cur_ok_set_fd [OF fa(1)]) simp
  ultimately show ?thesis
    using fa c(2) i by (auto simp: file_at_def set_fd_def fdt_of_def)
qed

lemma file_read_len: "fs_wf img \<Longrightarrow> unat ino < img32 img 4 \<Longrightarrow> 0 \<le> n \<Longrightarrow> n < 4294967296 \<Longrightarrow>
  \<exists>k bs. file_read img ino pos n = Some (k, bs) \<and> length bs \<le> nat n \<and> (k > 0 \<longrightarrow> k = int (length bs))"
proof -
  assume a: "fs_wf img" "unat ino < img32 img 4" "0 \<le> n" "n < 4294967296"
  have "unat (of_nat (nat n) :: u32) = nat n" using a(4) by (intro unat_of_nat_u32) linarith
  moreover have "(word_of_int n :: u32) = of_nat (nat n)" using a(3) by simp
  ultimately have "unat (word_of_int n :: u32) = nat n" by metis
  then show ?thesis using a by (auto simp: file_read_def read_data_eq Let_def)
qed

lemma read_file_chunks:
  assumes "fs_wf (fs_img s)" "unat ino < img32 (fs_img s) 4" "n < 4294967296"
    and "file_at fd ino pos s" "read_chunks (\<lambda>pos. file_read (fs_img s) ino pos (int n)) fuel pos = Some bs"
  shows "\<exists>s'. read_file fd n fuel s = Some (bs, s')"
  using assms
proof (induction fuel arbitrary: s pos bs)
  case (Suc fuel)
  obtain k cs where kc: "file_read (fs_img s) ino pos (int n) = Some (k, cs)" "length cs \<le> n" "k > 0 \<longrightarrow> k = int (length cs)"
    using file_read_len [OF Suc.prems(1,2), of "int n" pos] Suc.prems(3) by auto
  obtain s' where s': "sys_read fd (Some (replicate n 0)) (int n) [] [] s = Some (cs @ drop (length cs) (replicate n 0), Returned k s')"
    "file_at fd ino (pos + word_of_int k) s'" "fs_img s' = fs_img s"
    using sys_read_file [OF Suc.prems(4) kc(1), of "replicate n 0"] kc(2) by auto
  show ?case
  proof (cases "k \<le> 0")
    case True
    then show ?thesis using s'(1) kc(1) Suc.prems(5) by simp
  next
    case False
    then obtain rest where rest: "read_chunks (\<lambda>pos. file_read (fs_img s) ino pos (int n)) fuel (pos + word_of_int k) = Some rest"
      "bs = cs @ rest" using Suc.prems(5) kc(1) by (auto split: bind_splits)
    then obtain s'' where "read_file fd n fuel s' = Some (rest, s'')"
      using Suc.IH [of s' "pos + word_of_int k" rest] s' Suc.prems by auto
    then show ?thesis using s'(1) kc False rest(2) by auto
  qed
qed simp

text \<open>
  C19. A program reads a file completely through the system calls: from a descriptor at position 0, a loop of
  \<open>sys_read\<close> calls of any positive size terminates and yields exactly the content of the file; the
  position the kernel keeps for the descriptor makes the chunks follow each other.
\<close>

theorem sys_read_whole_file:
  assumes "fs_wf (fs_img s)" "unat ino < img32 (fs_img s) 4" "file_at fd ino 0 s" "0 < n" "n < 2147483648"
    and "file_len (fs_img s) (unat ino) < fuel"
  shows "\<exists>s'. read_file fd n fuel s = Some (file_content (fs_img s) (unat ino), s')"
proof -
  have "unat (of_nat n :: u32) = n" using assms(5) by simp
  then have "(of_nat n :: u32) \<noteq> 0" using assms(4) by (metis unat_0 less_irrefl)
  then have "0 < (of_nat n :: u32)" by (simp add: word_gt_0)
  with fs_file.read_chunks_all [of "(fs_img s, ino)" "of_nat n" fuel] assms
  have "read_chunks (\<lambda>pos. file_read (fs_img s) ino pos (int n)) fuel 0 = Some (file_content (fs_img s) (unat ino))"
    by (simp add: file_read_def)
  from read_file_chunks [OF assms(1,2) _ assms(3) this] assms(5) show ?thesis by simp
qed

text \<open>
  A failed read spoils the position: a read with a negative count on a freshly opened file returns \<open>-1\<close>
  and moves the position from 0 to \<open>2 ^ 32 - 1\<close>, since the result is added to it unconditionally;
  afterwards every read of that descriptor fails, whatever the file holds.
\<close>

theorem failed_read_moves_position:
  assumes "file_at fd ino 0 s" "n < 0" "fs_wf (fs_img s)" "unat ino < img32 (fs_img s) 4"
  shows "\<exists>s'. sys_read fd (Some b) n evs late s = Some (b, Returned (-1) s') \<and> file_at fd ino 0xFFFFFFFF s'
    \<and> (\<forall>m b'. 0 \<le> m \<longrightarrow> (\<exists>s''. sys_read fd (Some b') m evs late s' = Some (b', Returned (-1) s'')))"
proof -
  have "file_read (fs_img s) ino 0 n = Some (-1, [])" using assms(2) by (simp add: file_read_def)
  from sys_read_file [OF assms(1) this, of b evs late] obtain s' where
    s': "sys_read fd (Some b) n evs late s = Some (b, Returned (-1) s')" "file_at fd ino (0 + word_of_int (-1)) s'" "fs_img s' = fs_img s"
    by auto
  have e: "(0 + word_of_int (-1)) = (0xFFFFFFFF :: u32)" by simp
  note s' = s'(1) s'(2) [unfolded e] s'(3)
  have "file_len (fs_img s) (unat ino) < 0xFFFFFFFF"
    using inode_okD(1) [OF fs_wf_inode [OF assms(3,4)]] by simp
  then have "file_read (fs_img s') ino 0xFFFFFFFF m = Some (-1, [])" if "0 \<le> m" for m
    using that assms(3,4) s'(3) by (simp add: file_read_def read_data_eq)
  then have "\<exists>s''. sys_read fd (Some b') m evs late s' = Some (b', Returned (-1) s'')" if "0 \<le> m" for m b'
    using sys_read_file [OF s'(2), of m "-1" "[]" b' evs late] that by auto
  then show ?thesis using s' by blast
qed

text \<open>
  The bound of the descriptor check is one too large: descriptor 8 passes it in \<open>sys_read\<close> and
  \<open>sys_write\<close> and reads behind the eight entries of the table.
\<close>

theorem descriptor_8_out_of_bounds:
  assumes "cur_ok s"
  shows "sys_read 8 ptr n evs late s = None \<and> sys_write 8 ptr n s = None"
proof -
  note c = cur_okD [OF assms]
  have "rd_int (file_descriptor_table (pcbs s (cur_pid s))) 8 = None" using c(2,4) by (simp add: rd_int_def)
  then show ?thesis using c(1) by (simp add: sys_read_def sys_write_def Let_def)
qed

lemma boot_proc_ok:
  "cur_ok (boot_proc img)" "fs_img (boot_proc img) = img" "cur_pid (boot_proc img) = 0"
proof -
  have "tables_ready (boot_proc img)" unfolding boot_proc_def by (rule tables_ready_init)
  then show "cur_ok (boot_proc img)"
    by (simp add: cur_ok_def) (simp add: boot_proc_def process_init_def upd_term_def Let_def kbd.extend_def blank_defs
        pcb_ok_def blank_pcb_def list_all_iff)
  show "fs_img (boot_proc img) = img" "cur_pid (boot_proc img) = 0"
    by (simp_all add: boot_proc_def process_init_def upd_term_def Let_def kbd.extend_def blank_defs)
qed

lemma boot_proc_file_at: "file_at 2 0 0 (set_fd 0 2 (open_entry File_opt 0) (boot_proc tiny_img))"
proof -
  have "cur_ok (set_fd (cur_pid (boot_proc tiny_img)) 2 (open_entry File_opt 0) (boot_proc tiny_img))"
    by (rule cur_ok_set_fd [OF boot_proc_ok(1)]) (simp add: open_entry_def)
  moreover have "length (file_descriptor_table (pcbs (boot_proc tiny_img) 0)) = 8"
    using cur_okD(2) [OF boot_proc_ok(1)] by (simp add: fdt_of_def boot_proc_ok)
  ultimately show ?thesis by (simp add: file_at_def boot_proc_ok fdt_of_def set_fd_def open_entry_def)
qed

theorem sys_read_whole_file_witness:
  "\<exists>s'. read_file 2 2 4 (set_fd 0 2 (open_entry File_opt 0) (boot_proc tiny_img)) = Some ([65, 66, 67], s')"
  using sys_read_whole_file [of "set_fd 0 2 (open_entry File_opt 0) (boot_proc tiny_img)" 0 2 2 4]
  by (simp add: boot_proc_file_at tiny_img_wf tiny_img_words tiny_img_content boot_proc_ok)

theorem failed_read_moves_position_witness:
  "\<exists>s'. sys_read 2 (Some [1, 2]) (-1) [] [] (set_fd 0 2 (open_entry File_opt 0) (boot_proc tiny_img)) =
      Some ([1, 2], Returned (-1) s') \<and> file_at 2 0 0xFFFFFFFF s'"
  using failed_read_moves_position [OF boot_proc_file_at, of "-1" "[1, 2]" "[]" "[]"]
  by (auto simp: tiny_img_wf tiny_img_words boot_proc_ok)

theorem descriptor_8_out_of_bounds_witness: "sys_write 8 None 0 (boot_proc []) = None"
  using descriptor_8_out_of_bounds [OF boot_proc_ok(1)] by blast

theorem sys_open_file_witness:
  "\<exists>fd s'. sys_open [104, 105, 0] (boot_proc tiny_img) = Some (fd, s') \<and> fd = 2"
proof -
  have l: "lookup_entry tiny_img [104, 105] = Some 0"
    using tiny_img_names by (simp add: lookup_entry_def dir_names_def tiny_img_words)
  have d: "rd_dentry tiny_img 0 = Some \<lparr>file_name = [104, 105] @ replicate 30 0, file_type = 2, inode_num = 0\<rparr>"
    by (simp add: rd_dentry_def dentry_off_def rd32_def rd_def length_tiny_img)
      (simp add: tiny_img_def nth_append le32_def)
  have "read_dentry_by_name (fs_img (boot_proc tiny_img)) [104, 105, 0] =
      Some (Inr \<lparr>file_name = [104, 105] @ replicate 30 0, file_type = 2, inode_num = 0\<rparr>)"
    using read_dentry_by_name_eq [OF tiny_img_wf, of "[104, 105, 0]"] l d by (simp add: boot_proc_ok cstr_def)
  from sys_open_file [OF boot_proc_ok(1) this] have
    "(\<exists>fd. 2 \<le> fd \<and> fd < 8 \<and> (\<forall>j. 2 \<le> j \<and> j < fd \<longrightarrow> fd_flags (fdt_of 0 (boot_proc tiny_img) ! nat j) \<noteq> 0)
        \<and> (\<exists>s'. sys_open [104, 105, 0] (boot_proc tiny_img) = Some (fd, s')))
     \<or> (\<forall>j. 2 \<le> j \<and> j < 8 \<longrightarrow> fd_flags (fdt_of 0 (boot_proc tiny_img) ! nat j) \<noteq> 0)"
    by (auto simp: boot_proc_ok)
  moreover have "fd_flags (fdt_of 0 (boot_proc tiny_img) ! nat 2) = 0"
    by (simp add: fdt_of_def boot_proc_def process_init_def upd_term_def Let_def kbd.extend_def blank_pcb_def)
  ultimately show ?thesis by (metis dual_order.irrefl less_le numeral_less_iff order_refl semiring_norm(76,78,79,81))
qed

end
