(* ===== verification/Exec.thy ===== *)
theory Exec
  imports Processes
begin

text \<open>
  Creating and ending processes: \<open>sys_execute\<close>, \<open>halt_helper\<close> and \<open>sys_halt\<close> of
  \<^verbatim>\<open>code/system_call.c\<close>.  These functions do not return like others: a successful execute ends in
  an \<open>iret\<close> to the new program and a halt in a return from the frame of the parent's execute call, so their
  result is one of three ways to continue.
\<close>

datatype ctl =
    Ret int                 \<comment> \<open>an ordinary return\<close>
  | Enter_user u32 u32      \<comment> \<open>\<open>iret\<close> to user mode: instruction and stack pointer\<close>
  | Leave_frame u32 u32     \<comment> \<open>\<open>leave; ret\<close> in the frame at \<open>ebp\<close>, with \<open>eax\<close>\<close>

abbreviation FILE_STR_LEN :: nat where "FILE_STR_LEN \<equiv> 128"
abbreviation CMD_LINE_LEN :: nat where "CMD_LINE_LEN \<equiv> 128"
abbreviation KERNEL_DS :: u16 where "KERNEL_DS \<equiv> 0x18"
abbreviation SPACE :: u8 where "SPACE \<equiv> 0x20"

subsection \<open>Parsing the command\<close>

function skip_spaces :: "buf \<Rightarrow> nat \<Rightarrow> nat option" where
  "skip_spaces command f_idx =
     (if f_idx < length command
      then (if command ! f_idx = SPACE then skip_spaces command (f_idx + 1) else Some f_idx)
      else None)"
  by pat_completeness auto
termination
  by (relation "measure (\<lambda>(command, f_idx). length command - f_idx)") auto

function copy_name :: "buf \<Rightarrow> nat \<Rightarrow> nat \<Rightarrow> nat \<Rightarrow> (buf \<times> nat) option" where
  "copy_name command len i f_idx =
     (if i < FILE_STR_LEN \<and> f_idx < len then do {
        c \<leftarrow> rd command f_idx;
        if c = SPACE \<or> c = NL \<or> c = 0 then Some ([], f_idx)
        else do { (cs, f) \<leftarrow> copy_name command len (i + 1) (f_idx + 1); Some (c # cs, f) } }
      else Some ([], f_idx))"
  by pat_completeness auto
termination
  by (relation "measure (\<lambda>(command, len, i, f_idx). len - f_idx)") auto

function copy_args :: "buf \<Rightarrow> nat \<Rightarrow> nat \<Rightarrow> nat \<Rightarrow> buf option" where
  "copy_args command len i f_idx =
     (if i < CMD_LINE_LEN \<and> f_idx < len then do {
        c \<leftarrow> rd command f_idx;
        if c = 0 then Some []
        else do { cs \<leftarrow> copy_args command len (i + 1) (f_idx + 1); Some (c # cs) } }
      else Some [])"
  by pat_completeness auto
termination
  by (relation "measure (\<lambda>(command, len, i, f_idx). len - f_idx)") auto

declare skip_spaces.simps [simp del] copy_name.simps [simp del] copy_args.simps [simp del]

text \<open>
  The name and the arguments.  The terminator of the arguments is stored at their length in an array of
  128 bytes; that of the name fits, as \<open>f_cmd\<close> has 129.
\<close>

definition parse_command :: "buf \<Rightarrow> (buf \<times> buf) option" where
  "parse_command command = do {
     len \<leftarrow> strlen command;
     f_idx \<leftarrow> skip_spaces command 0;
     (name, f_idx) \<leftarrow> copy_name command len 0 f_idx;
     args \<leftarrow> copy_args command len 0 (f_idx + 1);
     if length args < CMD_LINE_LEN then Some (name, args) else None }"

subsection \<open>Execute\<close>

text \<open>The loop that looks for a free process number; 6 when there is none.\<close>

function find_pid :: "int list \<Rightarrow> nat \<Rightarrow> nat option" where
  "find_pid arr i = (if i < 6 then do { v \<leftarrow> rd arr i; if v = 0 then Some i else find_pid arr (i + 1) } else Some i)"
  by pat_completeness auto
termination
  by (relation "measure (\<lambda>(arr, i). 6 - i)") auto

declare find_pid.simps [simp del]

text \<open>
  \<open>read_data\<close> into the program page at \<open>0x8048000\<close>: the bytes go to the frame of the process, and the
  page ends 4 MB after \<open>0x8000000\<close>.
\<close>

definition load_image :: "int \<Rightarrow> buf \<Rightarrow> 'a proc_scheme \<Rightarrow> 'a proc_scheme option" where
  "load_image pid bs s =
     (if length bs \<le> 0x400000 - 0x48000 then Some (s\<lparr>pmem := mem_store (program_phys pid 0x48000) bs (pmem s)\<rparr>) else None)"

definition std_entry :: "fops \<Rightarrow> fd_t" where
  "std_entry t = \<lparr>file_op_table_ptr = t, fd_inode_num = 0, file_pos = 0, fd_flags = 1\<rparr>"

text \<open>The initial control block: descriptors, parent, arguments.\<close>

definition init_pcb :: "int \<Rightarrow> buf \<Rightarrow> 'a proc_scheme \<Rightarrow> 'a proc_scheme option" where
  "init_pcb pid args s = do {
     p \<leftarrow> get_pcb pid s;
     fdt \<leftarrow> fill_buf (file_descriptor_table p) (std_entry Stdin_opt # std_entry Stdout_opt # replicate 6 closed_entry);
     a \<leftarrow> fill_buf (cmd_args p) (args @ [0]);
     Some (upd_pcb pid (\<lambda>p. p\<lparr>file_descriptor_table := fdt, parent_pid := prev_pid s, cmd_args := a\<rparr>) s) }"

definition kernel_stack :: "int \<Rightarrow> u32" where
  "kernel_stack pid = 0x800000 - word_of_int pid * 0x2000 - 4"

definition mem32 :: "mem \<Rightarrow> u32 \<Rightarrow> u32" where
  "mem32 m a = le32 (m a) (m (a + 1)) (m (a + 2)) (m (a + 3))"

text \<open>From the choice of the process number on: the part of \<open>sys_execute\<close> that changes the state.\<close>

definition start_process :: "nat \<Rightarrow> u32 \<Rightarrow> buf \<Rightarrow> 'a proc_scheme \<Rightarrow> (ctl \<times> 'a proc_scheme) option" where
  "start_process active_term inode args s = do {
     let pid = cur_pid s;
     let s = map_program pid s;
     let s = set_pt_user VID_MEM_INDEX (\<lambda>e. e\<lparr>pte_p := True\<rparr>) s;
     nbytes \<leftarrow> rd32 (fs_img s) (unat ((inode + 1) * BLOCK_SIZE));
     (_, bs) \<leftarrow> read_data (fs_img s) inode 0 nbytes;
     s \<leftarrow> load_image pid bs s;
     s \<leftarrow> init_pcb pid args s;
     let s = upd_term active_term (\<lambda>t. t\<lparr>active_pid := pid\<rparr>) s;
     let s = upd_pcb pid (\<lambda>p. p\<lparr>pcb_ebp := ebp s, pcb_esp := esp s, cur_esp := kernel_stack pid, cur_ebp := kernel_stack pid\<rparr>) s;
     let s = s\<lparr>tss_ss0 := KERNEL_DS, tss_esp0 := kernel_stack pid\<rparr>;
     let user_eip = mem32 (pmem s) (program_phys pid (0x48000 + 24));
     let user_esp = 0x8000000 + 0x400000 - 4;
     Some (Enter_user user_eip user_esp, s\<lparr>iflag := True\<rparr>) }"

definition sys_execute :: "buf \<Rightarrow> 'a proc_scheme \<Rightarrow> (ctl \<times> 'a proc_scheme) option" where
  "sys_execute command s = do {
     let s = cli s;
     let active_term = get_active_terminal s;
     (name, args) \<leftarrow> parse_command command;
     r \<leftarrow> read_dentry_by_name (fs_img s) (name @ [0]);
     case r of
       Inl _ \<Rightarrow> Some (Ret (-1), s)
     | Inr d \<Rightarrow> do {
         (n, elf) \<leftarrow> read_data (fs_img s) (inode_num d) 0 4;
         if n \<noteq> 4 then Some (Ret (-1), s)
         else if elf \<noteq> [0x7F, 0x45, 0x4C, 0x46] then Some (Ret (-1), s)
         else do {
           let s = s\<lparr>prev_pid := cur_pid s\<rparr>;
           i \<leftarrow> find_pid (pid_array s) 0;
           let s = (if i < 6 then s\<lparr>cur_pid := int i, pid_array := (pid_array s)[i := 1]\<rparr> else s);
           let s = (if cur_pid s \<le> 2 then s\<lparr>prev_pid := -1\<rparr> else s);
           if i = 6 then Some (Ret 69, s)
           else start_process active_term (inode_num d) args s } } }"

subsection \<open>Halt\<close>

definition null_entry :: fd_t where
  "null_entry = \<lparr>file_op_table_ptr = Null_ptr, fd_inode_num = 0, file_pos = 0, fd_flags = 0\<rparr>"

definition shell_cmd :: buf where "shell_cmd = bytes ''shell'' @ [0]"

text \<open>Back to the parent of process \<open>pid\<close>, whose control block was \<open>p\<close>.\<close>

definition return_to_parent :: "nat \<Rightarrow> int \<Rightarrow> pcb_t \<Rightarrow> u32 \<Rightarrow> 'a proc_scheme \<Rightarrow> (ctl \<times> 'a proc_scheme) option" where
  "return_to_parent active_term pid p status s = do {
     let parent = parent_pid p;
     pp \<leftarrow> get_pcb parent s;
     let s = s\<lparr>prev_pid := parent_pid pp\<rparr>;
     let s = map_program parent s;
     let s = set_fd pid 1 null_entry (set_fd pid 0 null_entry s);
     s \<leftarrow> each (\<lambda>i s. map_option snd (sys_close i s)) [2, 3, 4, 5, 6, 7] s;
     let s = s\<lparr>cur_pid := parent\<rparr>;
     tb \<leftarrow> fill_buf (terminal_buf (terminals s active_term)) (replicate FILE_STR_LEN 0);
     let s = upd_term active_term (\<lambda>t. t\<lparr>active_pid := parent, terminal_buf := tb\<rparr>) s;
     s \<leftarrow> (if ts s = active_term then map_option snd (clear_keyboard_buf_caller s) else Some s);
     let s = s\<lparr>tss_ss0 := KERNEL_DS, tss_esp0 := kernel_stack parent\<rparr>;
     let s = (sti s)\<lparr>ebp := pcb_ebp p, esp := pcb_ebp p\<rparr>;
     Some (Leave_frame (pcb_ebp p) status, s) }"

definition halt_helper :: "u32 \<Rightarrow> 'a proc_scheme \<Rightarrow> (ctl \<times> 'a proc_scheme) option" where
  "halt_helper status s = do {
     let s = cli s;
     let active_term = get_active_terminal s;
     let pid = cur_pid s;
     arr \<leftarrow> wr_int (pid_array s) pid 0;
     let s = s\<lparr>pid_array := arr\<rparr>;
     p \<leftarrow> get_pcb pid s;
     if parent_pid p = -1 then do {
       (c, s) \<leftarrow> sys_execute shell_cmd (s\<lparr>cur_pid := -1, prev_pid := -1\<rparr>);
       Some (case c of Ret _ \<Rightarrow> Ret (-1) | _ \<Rightarrow> c, s) }
     else return_to_parent active_term pid p status s }"

definition sys_halt :: "u8 \<Rightarrow> 'a proc_scheme \<Rightarrow> (ctl \<times> 'a proc_scheme) option" where
  "sys_halt status s = do {
     (c, s) \<leftarrow> halt_helper (ucast status) s;
     Some (case c of Ret _ \<Rightarrow> Ret 0 | _ \<Rightarrow> c, s) }"

subsection \<open>Specification\<close>

definition name_char :: "u8 \<Rightarrow> bool" where
  "name_char c \<longleftrightarrow> c \<noteq> SPACE \<and> c \<noteq> NL \<and> c \<noteq> 0"

text \<open>The lowest free process number.\<close>

definition least_free :: "int list \<Rightarrow> nat \<Rightarrow> bool" where
  "least_free arr i \<longleftrightarrow> i < 6 \<and> arr ! i = 0 \<and> list_all (\<lambda>j. arr ! j \<noteq> 0) [0..<i]"

text \<open>An address outside the 4 MB frame of a process.\<close>

definition outside_frame :: "int \<Rightarrow> u32 \<Rightarrow> bool" where
  "outside_frame pid a \<longleftrightarrow> 0x400000 \<le> unat (a - program_phys pid 0)"

text \<open>The control block of a process that has just been started.\<close>

definition fresh_pcb :: "int \<Rightarrow> int \<Rightarrow> buf \<Rightarrow> u32 \<Rightarrow> u32 \<Rightarrow> pcb_t \<Rightarrow> pcb_t" where
  "fresh_pcb pid parent args ebp0 esp0 p =
     \<lparr>file_descriptor_table = std_entry Stdin_opt # std_entry Stdout_opt # replicate 6 closed_entry, parent_pid = parent,
      pcb_ebp = ebp0, pcb_esp = esp0, cur_ebp = kernel_stack pid, cur_esp = kernel_stack pid,
      cmd_args = args @ 0 # drop (Suc (length args)) (cmd_args p)\<rparr>"

text \<open>The entry point of a program, at offset 24 of the file.\<close>

definition entry_point :: "buf \<Rightarrow> u32" where
  "entry_point bs = le32 (bs ! 24) (bs ! 25) (bs ! 26) (bs ! 27)"

text \<open>The state in which the program \<open>bs\<close> starts as the current process.\<close>

definition started :: "nat \<Rightarrow> buf \<Rightarrow> buf \<Rightarrow> 'a proc_scheme \<Rightarrow> 'a proc_scheme" where
  "started active_term bs args s =
     (let pid = cur_pid s
      in s\<lparr>iflag := True,
           pmem := mem_store (program_phys pid 0x48000) bs (pmem s),
           terminals := (terminals s)(active_term := (terminals s active_term)\<lparr>active_pid := pid\<rparr>),
           pd := pd (map_program pid s),
           pt_user := (pt_user s)(VID_MEM_INDEX := (pt_user s VID_MEM_INDEX)\<lparr>pte_p := True\<rparr>),
           pcbs := (pcbs s)(pid := fresh_pcb pid (prev_pid s) args (ebp s) (esp s) (pcbs s pid)),
           tss_ss0 := KERNEL_DS, tss_esp0 := kernel_stack pid\<rparr>)"

text \<open>The inode of the program of that name: a file of the image with the four magic bytes at its start.\<close>

definition exec_file :: "buf \<Rightarrow> buf \<Rightarrow> u32 option" where
  "exec_file img name =
     (case read_dentry_by_name img (name @ [0]) of
        Some (Inr d) \<Rightarrow>
          (if unat (inode_num d) < img32 img 4
              \<and> take 4 (file_content img (unat (inode_num d))) = [0x7F, 0x45, 0x4C, 0x46] then Some (inode_num d) else None)
      | _ \<Rightarrow> None)"

text \<open>The process table and the six control blocks.\<close>

definition procs_ok :: "'a proc_scheme \<Rightarrow> bool" where
  "procs_ok s \<longleftrightarrow> tables_ready s \<and> length (pid_array s) = 6 \<and> length (process_rtc s) = 6
     \<and> list_all (\<lambda>pid. pcb_ok (pcbs s (int pid))) [0..<6]"

text \<open>The state \<open>sys_execute\<close> starts process \<open>i\<close> from.\<close>

definition chosen :: "nat \<Rightarrow> 'a proc_scheme \<Rightarrow> 'a proc_scheme" where
  "chosen i s = (cli s)\<lparr>cur_pid := int i, prev_pid := (if i \<le> 2 then -1 else cur_pid s), pid_array := (pid_array s)[i := 1]\<rparr>"

text \<open>The state after a process without a parent has been taken out of the table.\<close>

definition freed :: "nat \<Rightarrow> 'a proc_scheme \<Rightarrow> 'a proc_scheme" where
  "freed i s = (cli s)\<lparr>pid_array := (pid_array s)[i := 0], cur_pid := -1, prev_pid := -1\<rparr>"

text \<open>
  What closing descriptors of process \<open>pid\<close> may change: its descriptor table, in which entries only become
  free, the directory index and the clock rates.
\<close>

definition fd_only :: "int \<Rightarrow> 'a proc_scheme \<Rightarrow> 'a proc_scheme \<Rightarrow> bool" where
  "fd_only pid s s' \<longleftrightarrow> (\<exists>fdt ri pr. s' = s\<lparr>process_rtc := pr, read_index := ri,
       pcbs := (pcbs s)(pid := (pcbs s pid)\<lparr>file_descriptor_table := fdt\<rparr>)\<rparr>
     \<and> length pr = length (process_rtc s) \<and> (list_all freq_ok (process_rtc s) \<longrightarrow> list_all freq_ok pr)
     \<and> (pcb_ok (pcbs s pid) \<longrightarrow> pcb_ok ((pcbs s pid)\<lparr>file_descriptor_table := fdt\<rparr>))
     \<and> length fdt = length (fdt_of pid s)
     \<and> (\<forall>j. fd_flags (fdt_of pid s ! j) = 0 \<longrightarrow> fd_flags (fdt ! j) = 0))"

text \<open>
  The two halves of a halt around the closing of the descriptors: the process leaves the table and the
  parent's memory is mapped; the parent becomes the current and the active process.
\<close>

definition detached :: "int \<Rightarrow> 'a proc_scheme \<Rightarrow> 'a proc_scheme" where
  "detached parent s = map_program parent
     ((cli s)\<lparr>pid_array := (pid_array s)[nat (cur_pid s) := 0], prev_pid := parent_pid (pcbs s parent)\<rparr>)"

definition handed_back :: "nat \<Rightarrow> int \<Rightarrow> u32 \<Rightarrow> 'a proc_scheme \<Rightarrow> 'a proc_scheme" where
  "handed_back active_term parent e t =
     t\<lparr>iflag := True, esp := e, ebp := e,
       terminals := (terminals t)(active_term := (terminals t active_term)\<lparr>active_pid := parent, terminal_buf := replicate 128 0\<rparr>),
       cur_pid := parent, keyboard_buf := (if ts t = active_term then replicate 128 0 else keyboard_buf t),
       key_idx := (if ts t = active_term then 0 else key_idx t), tss_ss0 := KERNEL_DS, tss_esp0 := kernel_stack parent\<rparr>"

text \<open>Every descriptor of a process is free.\<close>

definition all_closed :: "fd_t list \<Rightarrow> bool" where
  "all_closed fdt \<longleftrightarrow> list_all (\<lambda>e. fd_flags e = 0) fdt"

text \<open>The directory index is 0, or will be once the descriptors \<open>is\<close> are closed, one of which denotes the directory.\<close>

definition dir_held :: "int list \<Rightarrow> 'a proc_scheme \<Rightarrow> bool" where
  "dir_held is s \<longleftrightarrow> read_index s = 0
     \<or> list_ex (\<lambda>i. fd_flags (fdt_of (cur_pid s) s ! nat i) \<noteq> 0 \<and> file_op_table_ptr (fdt_of (cur_pid s) s ! nat i) = Dir_opt) is"

text \<open>
  An image with one executable file, \<open>shell\<close>, of 28 bytes: the magic bytes and the entry point \<open>0x804801C\<close> at
  offset 24; and a state in which process 3 runs as the child of process 0.
\<close>

definition shell_img :: buf where
  "shell_img = [1, 0, 0, 0, 1, 0, 0, 0, 1, 0, 0, 0] @ replicate 52 0
     @ [115, 104, 101, 108, 108] @ replicate 27 0 @ [2, 0, 0, 0, 0, 0, 0, 0] @ replicate 3992 0
     @ [28, 0, 0, 0, 0, 0, 0, 0] @ replicate 4088 0
     @ [0x7F, 0x45, 0x4C, 0x46] @ replicate 20 0 @ [0x1C, 0x80, 0x04, 0x08] @ replicate 4068 0"

definition child_state :: proc where
  "child_state = (boot_proc shell_img)\<lparr>cur_pid := 3, pid_array := [1, 1, 1, 1, 0, 0],
     pcbs := (\<lambda>_. blank_pcb)(3 := blank_pcb\<lparr>pcb_ebp := 0x7FFF00\<rparr>)\<rparr>"

subsection \<open>Parsing\<close>

lemma skip_spaces_eq: "c \<noteq> SPACE \<Longrightarrow> skip_spaces (pre @ replicate k SPACE @ c # r) (length pre) = Some (length pre + k)"
proof (induction k arbitrary: pre)
  case 0
  then show ?case by (subst skip_spaces.simps) (simp add: nth_append)
next
  case (Suc k)
  have "skip_spaces (pre @ replicate (Suc k) SPACE @ c # r) (length pre) =
      skip_spaces ((pre @ [SPACE]) @ replicate k SPACE @ c # r) (length (pre @ [SPACE]))"
    by (subst skip_spaces.simps) (simp add: nth_append)
  then show ?case using Suc.IH [OF Suc.prems, of "pre @ [SPACE]"] by simp
qed

lemma copy_name_eq:
  assumes "list_all name_char name" "\<not> name_char c" "i + length name \<le> 128" "length pre + length name \<le> len"
    and "c \<noteq> 0 \<or> len = length pre + length name"
  shows "copy_name (pre @ name @ c # r) len i (length pre) = Some (name, length pre + length name)"
  using assms
proof (induction name arbitrary: pre i)
  case Nil
  then show ?case by (subst copy_name.simps) (auto simp: name_char_def nth_append)
next
  case (Cons x name)
  have "copy_name ((pre @ [x]) @ name @ c # r) len (Suc i) (length (pre @ [x])) = Some (name, length (pre @ [x]) + length name)"
    using Cons.prems by (intro Cons.IH) auto
  moreover have "rd (pre @ (x # name) @ c # r) (length pre) = Some x" by (simp add: nth_append)
  ultimately show ?case using Cons.prems by (subst copy_name.simps) (auto simp: name_char_def)
qed

lemma copy_args_eq:
  assumes "0 \<notin> set args" "i + length args \<le> 128"
  shows "copy_args (pre @ args @ 0 # r) (length pre + length args) i (length pre) = Some args"
  using assms
proof (induction args arbitrary: pre i)
  case Nil
  then show ?case by (subst copy_args.simps) simp
next
  case (Cons x args)
  have "copy_args ((pre @ [x]) @ args @ 0 # r) (length (pre @ [x]) + length args) (Suc i) (length (pre @ [x])) = Some args"
    using Cons.prems by (intro Cons.IH) auto
  moreover have "rd (pre @ (x # args) @ 0 # r) (length pre) = Some x" by (simp add: nth_append)
  ultimately show ?case using Cons.prems by (subst copy_args.simps) auto
qed

lemma parse_with_args:
  assumes "list_all name_char name" "name \<noteq> []" "length name \<le> 128" "0 \<notin> set args" "length args < 128"
  shows "parse_command (replicate k SPACE @ name @ SPACE # args @ 0 # r) = Some (name, args)"
proof -
  let ?cmd = "replicate k SPACE @ name @ SPACE # args @ 0 # r"
  let ?len = "k + length name + 1 + length args"
  obtain c n where n: "name = c # n" using assms(2) by (cases name) auto
  have nn: "0 \<notin> set name" "c \<noteq> SPACE" using assms(1) n by (auto simp: name_char_def list_all_iff)
  have "strlen ((replicate k SPACE @ name @ SPACE # args) @ 0 # r) = Some ?len"
    using nn(1) assms(4) by (subst strlen_nul) auto
  then have l: "strlen ?cmd = Some ?len" by simp
  have sk: "skip_spaces ?cmd 0 = Some k"
    using skip_spaces_eq [OF nn(2), of "[]" k "n @ SPACE # args @ 0 # r"] n by simp
  have nm: "copy_name ?cmd ?len 0 k = Some (name, k + length name)"
    using copy_name_eq [OF assms(1), of SPACE 0 "replicate k SPACE" ?len "args @ 0 # r"] assms(3)
    by (simp add: name_char_def)
  have "copy_args ((replicate k SPACE @ name @ [SPACE]) @ args @ 0 # r)
      (length (replicate k SPACE @ name @ [SPACE]) + length args) 0 (length (replicate k SPACE @ name @ [SPACE])) = Some args"
    using assms(4,5) by (intro copy_args_eq) auto
  then have ar: "copy_args ?cmd ?len 0 (k + length name + 1) = Some args" by simp
  show ?thesis using l sk nm ar assms(5) by (simp add: parse_command_def)
qed

lemma parse_no_args:
  assumes "list_all name_char name" "name \<noteq> []" "length name \<le> 128"
  shows "parse_command (replicate k SPACE @ name @ 0 # r) = Some (name, [])"
proof -
  let ?cmd = "replicate k SPACE @ name @ 0 # r"
  obtain c n where n: "name = c # n" using assms(2) by (cases name) auto
  have nn: "0 \<notin> set name" "c \<noteq> SPACE" using assms(1) n by (auto simp: name_char_def list_all_iff)
  have "strlen ((replicate k SPACE @ name) @ 0 # r) = Some (k + length name)"
    using nn(1) by (subst strlen_nul) auto
  then have l: "strlen ?cmd = Some (k + length name)" by simp
  have sk: "skip_spaces ?cmd 0 = Some k"
    using skip_spaces_eq [OF nn(2), of "[]" k "n @ 0 # r"] n by simp
  have nm: "copy_name ?cmd (k + length name) 0 k = Some (name, k + length name)"
    using copy_name_eq [OF assms(1), of 0 0 "replicate k SPACE" "k + length name" r] assms(3)
    by (simp add: name_char_def)
  have "copy_args ?cmd (k + length name) 0 (k + length name + 1) = Some []" by (subst copy_args.simps) simp
  then show ?thesis using l sk nm by (simp add: parse_command_def)
qed

text \<open>
  A command line is split as the shell means it: leading blanks are skipped, the first word is the
  file name, one blank is dropped and everything up to the terminator is the argument string, for every
  name of at most 128 and every argument string of at most 127 characters; nothing is read past the
  terminator.
\<close>

theorem parse_command_splits:
  assumes "list_all name_char name" "name \<noteq> []" "length name \<le> 128" "0 \<notin> set args" "length args < 128"
  shows "parse_command (replicate k SPACE @ name @ SPACE # args @ 0 # r) = Some (name, args)
     \<and> parse_command (replicate k SPACE @ name @ 0 # r) = Some (name, [])"
  using assms by (simp add: parse_with_args parse_no_args)

theorem parse_command_splits_witness:
  "parse_command [32, 99, 97, 116, 32, 102, 0] = Some ([99, 97, 116], [102])"
  using parse_command_splits [of "[99, 97, 116]" "[102]" 1 "[]"] by (simp add: name_char_def)

text \<open>
  An argument string of 128 characters or more overruns the argument array on the kernel stack:
  its terminator is stored behind the 128 bytes.
\<close>

theorem long_arguments_overrun:
  assumes "list_all name_char name" "name \<noteq> []" "length name \<le> 128" "0 \<notin> set args" "length args = 128"
  shows "sys_execute (name @ SPACE # args @ 0 # r) s = None"
proof -
  let ?cmd = "name @ SPACE # args @ 0 # r"
  let ?len = "length name + 1 + length args"
  obtain c n where n: "name = c # n" using assms(2) by (cases name) auto
  have nn: "0 \<notin> set name" "c \<noteq> SPACE" using assms(1) n by (auto simp: name_char_def list_all_iff)
  have "strlen ((name @ SPACE # args) @ 0 # r) = Some ?len" using nn(1) assms(4) by (subst strlen_nul) auto
  then have l: "strlen ?cmd = Some ?len" by simp
  have sk: "skip_spaces ?cmd 0 = Some 0" using skip_spaces_eq [OF nn(2), of "[]" 0 "n @ SPACE # args @ 0 # r"] n by simp
  have nm: "copy_name ?cmd ?len 0 0 = Some (name, length name)"
    using copy_name_eq [OF assms(1), of SPACE 0 "[]" ?len "args @ 0 # r"] assms(3) by (simp add: name_char_def)
  have "copy_args ((name @ [SPACE]) @ args @ 0 # r) (length (name @ [SPACE]) + length args) 0 (length (name @ [SPACE])) = Some args"
    using assms(4,5) by (intro copy_args_eq) auto
  then have "copy_args ?cmd ?len 0 (length name + 1) = Some args" by simp
  then have "parse_command ?cmd = None" using l sk nm assms(5) by (simp add: parse_command_def)
  then show ?thesis by (simp add: sys_execute_def Let_def)
qed

theorem long_arguments_overrun_witness: "sys_execute ([108, 115] @ SPACE # replicate 128 97 @ [0]) (boot_proc []) = None"
  using long_arguments_overrun [of "[108, 115]" "replicate 128 97" "[]"] by (simp add: name_char_def)

subsection \<open>Starting a process\<close>

lemma find_pid_from:
  assumes "length arr = 6"
  shows "i \<le> 6 \<Longrightarrow> \<exists>k. find_pid arr i = Some k \<and> i \<le> k \<and> k \<le> 6 \<and> (\<forall>j. i \<le> j \<longrightarrow> j < k \<longrightarrow> arr ! j \<noteq> 0)
     \<and> (k < 6 \<longrightarrow> arr ! k = 0)"
proof (induction "6 - i" arbitrary: i)
  case 0
  then show ?case by (subst find_pid.simps) auto
next
  case (Suc n)
  then have i: "i < 6" by simp
  show ?case
  proof (cases "arr ! i = 0")
    case True
    then show ?thesis using i assms by (subst find_pid.simps) auto
  next
    case False
    obtain k where k: "find_pid arr (Suc i) = Some k" "Suc i \<le> k" "k \<le> 6"
      "\<forall>j. Suc i \<le> j \<longrightarrow> j < k \<longrightarrow> arr ! j \<noteq> 0" "k < 6 \<longrightarrow> arr ! k = 0"
    proof -
      have "n = 6 - Suc i" using Suc.hyps(2) by linarith
      then show ?thesis using Suc.hyps(1) [of "Suc i"] i that by auto
    qed
    have "\<forall>j. i \<le> j \<longrightarrow> j < k \<longrightarrow> arr ! j \<noteq> 0" using k(4) False by (metis le_eq_less_or_eq Suc_leI)
    then show ?thesis using i assms k False by (subst find_pid.simps) auto
  qed
qed

lemma find_pid_least:
  assumes "length arr = 6"
  shows "(\<exists>i. least_free arr i \<and> find_pid arr 0 = Some i) \<or> find_pid arr 0 = Some 6 \<and> list_all (\<lambda>v. v \<noteq> 0) arr"
proof -
  obtain k where k: "find_pid arr 0 = Some k" "k \<le> 6" "\<forall>j. j < k \<longrightarrow> arr ! j \<noteq> 0" "k < 6 \<longrightarrow> arr ! k = 0"
    using find_pid_from [OF assms, of 0] by auto
  show ?thesis
  proof (cases "k < 6")
    case True
    then have "least_free arr k" using k by (simp add: least_free_def list_all_iff)
    with k(1) show ?thesis by blast
  next
    case False
    then have "k = 6" using k(2) by simp
    then show ?thesis using k(1,3) assms by (simp add: list_all_length)
  qed
qed

lemma find_pid_eq:
  assumes "length arr = 6" "least_free arr i"
  shows "find_pid arr 0 = Some i"
  using find_pid_least [OF assms(1)]
proof
  assume "\<exists>i. least_free arr i \<and> find_pid arr 0 = Some i"
  then obtain j where j: "least_free arr j" "find_pid arr 0 = Some j" by blast
  have "\<not> i < j" "\<not> j < i" using assms(2) j(1) by (auto simp: least_free_def list_all_iff)
  with j(2) show ?thesis by simp
next
  assume "find_pid arr 0 = Some 6 \<and> list_all (\<lambda>v. v \<noteq> 0) arr"
  then show ?thesis using assms by (auto simp: least_free_def list_all_length)
qed

lemma read_whole:
  assumes "fs_wf img" "unat ino < img32 img 4"
  shows "rd32 img (unat ((ino + 1) * BLOCK_SIZE)) = Some (of_nat (file_len img (unat ino)))"
    "read_data img ino 0 (of_nat (file_len img (unat ino))) = Some (int (file_len img (unat ino)), file_content img (unat ino))"
proof -
  show "rd32 img (unat ((ino + 1) * BLOCK_SIZE)) = Some (of_nat (file_len img (unat ino)))"
    by (rule inode_addr(2) [OF assms])
  have "unat (of_nat (file_len img (unat ino)) :: u32) = file_len img (unat ino)"
    by (rule unat_of_nat_u32) (simp add: file_len_def)
  then show "read_data img ino 0 (of_nat (file_len img (unat ino))) = Some (int (file_len img (unat ino)), file_content img (unat ino))"
    by (simp add: read_data_eq [OF assms] Let_def)
qed

lemma mem32_store:
  assumes "k + 3 < length bs" "length bs \<le> 4294967296"
  shows "mem32 (mem_store a bs m) (a + of_nat k) = le32 (bs ! k) (bs ! (k + 1)) (bs ! (k + 2)) (bs ! (k + 3))"
  using mem_store_nth [of k bs a m] mem_store_nth [of "k + 1" bs a m] mem_store_nth [of "k + 2" bs a m]
    mem_store_nth [of "k + 3" bs a m] assms
  by (simp add: mem32_def add.assoc add.commute add.left_commute)

lemma start_process_eq:
  assumes "fs_wf (fs_img s)" "unat ino < img32 (fs_img s) 4" "file_len (fs_img s) (unat ino) \<le> 0x3B8000"
    and "0 \<le> cur_pid s" "cur_pid s < 6" "length (fdt_of (cur_pid s) s) = 8" "length (cmd_args (pcbs s (cur_pid s))) = 128"
    and "length args < 128"
  shows "\<exists>eip. start_process at ino args s =
    Some (Enter_user eip 0x83FFFFC, started at (file_content (fs_img s) (unat ino)) args s)
    \<and> (28 \<le> file_len (fs_img s) (unat ino) \<longrightarrow> eip = entry_point (file_content (fs_img s) (unat ino)))"
proof -
  let ?bs = "file_content (fs_img s) (unat ino)"
  note r = read_whole [OF assms(1,2)]
  have li: "load_image (cur_pid s) ?bs u = Some (u\<lparr>pmem := mem_store (program_phys (cur_pid s) 0x48000) ?bs (pmem u)\<rparr>)"
    for u :: "'a proc_scheme" using assms(3) by (simp add: load_image_def)
  have ip: "init_pcb (cur_pid s) args u = Some (upd_pcb (cur_pid s) (\<lambda>p. p\<lparr>file_descriptor_table :=
        std_entry Stdin_opt # std_entry Stdout_opt # replicate 6 closed_entry, parent_pid := prev_pid s,
        cmd_args := args @ 0 # drop (Suc (length args)) (cmd_args (pcbs s (cur_pid s)))\<rparr>) u)"
    if "pcbs u = pcbs s" "prev_pid u = prev_pid s" for u :: "'a proc_scheme"
    using assms(4-8) that by (simp add: init_pcb_def get_pcb_def fdt_of_def fill_buf_def)
  have pc: "p\<lparr>file_descriptor_table := a, parent_pid := b, cmd_args := c, pcb_ebp := d, pcb_esp := e, cur_esp := f, cur_ebp := g\<rparr>
      = \<lparr>file_descriptor_table = a, parent_pid = b, pcb_ebp = d, pcb_esp = e, cur_ebp = g, cur_esp = f, cmd_args = c\<rparr>"
    for p :: pcb_t and a b c d e f g by (cases p) simp
  let ?pid = "cur_pid s"
  define u0 where "u0 = set_pt_user VID_MEM_INDEX (\<lambda>e. e\<lparr>pte_p := True\<rparr>) (map_program ?pid s)"
  define u1 where "u1 = u0\<lparr>pmem := mem_store (program_phys ?pid 0x48000) ?bs (pmem u0)\<rparr>"
  define u2 where "u2 = upd_pcb ?pid (\<lambda>p. p\<lparr>file_descriptor_table :=
        std_entry Stdin_opt # std_entry Stdout_opt # replicate 6 closed_entry, parent_pid := prev_pid s,
        cmd_args := args @ 0 # drop (Suc (length args)) (cmd_args (pcbs s ?pid))\<rparr>) u1"
  define u3 where "u3 = upd_term at (\<lambda>t. t\<lparr>active_pid := ?pid\<rparr>) u2"
  define u4 where "u4 = upd_pcb ?pid (\<lambda>p. p\<lparr>pcb_ebp := ebp u3, pcb_esp := esp u3, cur_esp := kernel_stack ?pid,
        cur_ebp := kernel_stack ?pid\<rparr>) u3"
  define u5 where "u5 = u4\<lparr>tss_ss0 := KERNEL_DS, tss_esp0 := kernel_stack ?pid\<rparr>"
  have f: "fs_img u0 = fs_img s" "pcbs u1 = pcbs s" "prev_pid u1 = prev_pid s"
    by (simp_all add: u1_def u0_def set_pt_user_def map_program_def set_pd_def Let_def)
  have "start_process at ino args s = Some (Enter_user (mem32 (pmem u5) (program_phys ?pid (0x48000 + 24))) (0x8000000 + 0x400000 - 4),
      u5\<lparr>iflag := True\<rparr>)"
    unfolding start_process_def Let_def u0_def [symmetric] f(1) r Option.bind.simps prod.case li u1_def [symmetric]
      ip [OF f(2,3)] u2_def [symmetric] u3_def [symmetric] u4_def [symmetric] u5_def [symmetric] ..
  moreover have "u5\<lparr>iflag := True\<rparr> = started at ?bs args s"
    by (rule proc.equality)
      (simp_all add: u5_def u4_def u3_def u2_def u1_def u0_def started_def Let_def upd_pcb_def upd_term_def fresh_pcb_def
        map_program_def set_pd_def set_pt_user_def pc)
  moreover have "mem32 (pmem u5) (program_phys ?pid (0x48000 + 24)) = entry_point ?bs" if "28 \<le> file_len (fs_img s) (unat ino)"
  proof -
    have "pmem u5 = mem_store (program_phys ?pid 0x48000) ?bs (pmem s)"
      by (simp add: u5_def u4_def u3_def u2_def u1_def u0_def upd_pcb_def upd_term_def map_program_def set_pd_def set_pt_user_def Let_def)
    then show ?thesis using mem32_store [of 24 ?bs "program_phys ?pid 0x48000" "pmem s"] that assms(3)
      by (simp add: entry_point_def program_phys_def)
  qed
  ultimately show ?thesis by auto
qed

lemma procs_okD:
  assumes "procs_ok s" "0 \<le> pid" "pid < 6"
  shows "pcb_ok (pcbs s pid)" "length (fdt_of pid s) = 8" "length (cmd_args (pcbs s pid)) = 128"
    "get_pcb pid s = Some (pcbs s pid)"
proof -
  have "list_all (\<lambda>pid. pcb_ok (pcbs s (int pid))) [0..<6]" using assms(1) by (simp add: procs_ok_def)
  moreover have "nat pid \<in> set [0..<6]" using assms(2,3) by simp
  ultimately have "pcb_ok (pcbs s (int (nat pid)))" unfolding list_all_iff by blast
  then show p: "pcb_ok (pcbs s pid)" using assms(2) by simp
  then show "length (fdt_of pid s) = 8" "length (cmd_args (pcbs s pid)) = 128" by (simp_all add: pcb_ok_def fdt_of_def)
  show "get_pcb pid s = Some (pcbs s pid)" using assms(2,3) by (simp add: get_pcb_def)
qed

lemma find_dentry_some:
  assumes "fs_wf img" "0 \<in> set fname"
  shows "\<exists>r. read_dentry_by_name img fname = Some r \<and> (\<forall>e. r = Inl e \<longrightarrow> e = -1)"
proof (cases "lookup_entry img (cstr fname)")
  case (Some k)
  with lookup_entry_Some [OF this] fs_wf_entry(3) [OF assms(1), of k] obtain d where "rd_dentry img k = Some d" by blast
  then show ?thesis using Some by (auto simp: read_dentry_by_name_eq [OF assms])
qed (simp add: read_dentry_by_name_eq [OF assms])

lemma elf_read:
  assumes "fs_wf img"
  shows "\<exists>n elf. read_data img ino 0 4 = Some (n, elf)
     \<and> (n = 4 \<and> elf = [0x7F, 0x45, 0x4C, 0x46]
        \<longleftrightarrow> unat ino < img32 img 4 \<and> take 4 (file_content img (unat ino)) = [0x7F, 0x45, 0x4C, 0x46])"
proof (cases "unat ino < img32 img 4")
  case True
  have "min (file_len img (unat ino)) 4 = 4"
    if "take 4 (file_content img (unat ino)) = [0x7F, 0x45, 0x4C, 0x46]"
    using arg_cong [OF that, of length] by simp
  with True show ?thesis by (auto simp: read_data_eq [OF assms True] Let_def)
qed (simp add: read_data_bad_inode [OF assms])

lemma sys_execute_eq:
  assumes "fs_wf (fs_img s)" "procs_ok s" "parse_command command = Some (name, args)"
  shows "exec_file (fs_img s) name = None \<Longrightarrow> sys_execute command s = Some (Ret (-1), cli s)"
    and "exec_file (fs_img s) name = Some ino \<Longrightarrow> least_free (pid_array s) i \<Longrightarrow>
      sys_execute command s = start_process (ta s) ino args (chosen i s)"
    and "exec_file (fs_img s) name = Some ino \<Longrightarrow> list_all (\<lambda>v. v \<noteq> 0) (pid_array s) \<Longrightarrow>
      sys_execute command s = Some (Ret 69, (cli s)\<lparr>prev_pid := if cur_pid s \<le> 2 then -1 else cur_pid s\<rparr>)"
proof -
  have l: "length (pid_array s) = 6" using assms(2) by (simp add: procs_ok_def)
  obtain r where r: "read_dentry_by_name (fs_img s) (name @ [0]) = Some r"
    using find_dentry_some [OF assms(1), of "name @ [0]"] by auto
  note d = sys_execute_def Let_def get_active_terminal_def exec_file_def assms(3) r
  have f: "fs_img (cli s) = fs_img s" "pid_array (cli s) = pid_array s" "cur_pid (cli s) = cur_pid s" "ta (cli s) = ta s"
    by (simp_all add: cli_def)
  { assume "exec_file (fs_img s) name = None"
    then show "sys_execute command s = Some (Ret (-1), cli s)"
    proof (cases r)
      case (Inr d)
      from elf_read [OF assms(1), of "inode_num d"] obtain n elf where
        "read_data (fs_img s) (inode_num d) 0 4 = Some (n, elf)" "\<not> (n = 4 \<and> elf = [0x7F, 0x45, 0x4C, 0x46])"
        using \<open>exec_file (fs_img s) name = None\<close> Inr r by (auto simp: exec_file_def split: if_splits)
      then show ?thesis using Inr by (auto simp: d f)
    qed (simp add: d f) }
  { assume e: "exec_file (fs_img s) name = Some ino"
    then obtain dn where dn: "r = Inr dn" "inode_num dn = ino" by (auto simp: exec_file_def r split: sum.splits if_splits)
    have elf: "read_data (fs_img s) ino 0 4 = Some (4, [0x7F, 0x45, 0x4C, 0x46])"
      using elf_read [OF assms(1), of ino] e dn by (auto simp: exec_file_def r split: if_splits)
    have x: "sys_execute command s = do {
        i \<leftarrow> find_pid (pid_array s) 0;
        let s = (cli s)\<lparr>prev_pid := cur_pid s\<rparr>;
        let s = (if i < 6 then s\<lparr>cur_pid := int i, pid_array := (pid_array s)[i := 1]\<rparr> else s);
        let s = (if cur_pid s \<le> 2 then s\<lparr>prev_pid := -1\<rparr> else s);
        if i = 6 then Some (Ret 69, s) else start_process (ta s) ino args s }"
      using elf dn by (simp add: sys_execute_def Let_def get_active_terminal_def assms(3) r f if_distrib [of ta] cong: if_cong)
    show "sys_execute command s = start_process (ta s) ino args (chosen i s)" if "least_free (pid_array s) i"
    proof -
      have i: "i < 6" "find_pid (pid_array s) 0 = Some i"
        using that find_pid_eq [OF l] by (simp_all add: least_free_def)
      have "(if int i \<le> 2 then (cli s)\<lparr>prev_pid := cur_pid s, cur_pid := int i, pid_array := (pid_array s)[i := 1]\<rparr>\<lparr>prev_pid := -1\<rparr>
          else (cli s)\<lparr>prev_pid := cur_pid s, cur_pid := int i, pid_array := (pid_array s)[i := 1]\<rparr>) = chosen i s"
        by (rule proc.equality) (simp_all add: chosen_def)
      moreover have "ta (chosen i s) = ta s" by (simp add: chosen_def cli_def)
      ultimately show ?thesis unfolding x using i f by (simp add: Let_def if_distrib [of ta] cong: if_cong)
    qed
    show "sys_execute command s = Some (Ret 69, (cli s)\<lparr>prev_pid := if cur_pid s \<le> 2 then -1 else cur_pid s\<rparr>)"
      if "list_all (\<lambda>v. v \<noteq> 0) (pid_array s)"
    proof -
      have "find_pid (pid_array s) 0 = Some 6"
        using that find_pid_least [OF l] l by (auto simp: least_free_def list_all_length)
      then show ?thesis unfolding x using f by (simp add: Let_def)
    qed }
qed

lemma image_inside_frame:
  assumes "length bs \<le> 0x3B8000" "outside_frame pid a"
  shows "mem_store (program_phys pid 0x48000) bs m a = m a"
proof (rule mem_store_other)
  fix j assume j: "j < length bs"
  show "a \<noteq> program_phys pid 0x48000 + of_nat j"
  proof
    assume "a = program_phys pid 0x48000 + of_nat j"
    then have "a - program_phys pid 0 = of_nat (0x48000 + j)" by (simp add: program_phys_def)
    moreover have "0x48000 + j < 0x400000" using j assms(1) by simp
    ultimately have "unat (a - program_phys pid 0) < 0x400000" by (simp only: unat_of_nat_u32)
    then show False using assms(2) by (simp add: outside_frame_def)
  qed
qed

lemma started_fields [simp]:
  "cur_pid (started at bs args s) = cur_pid s" "prev_pid (started at bs args s) = prev_pid s"
  "pid_array (started at bs args s) = pid_array s" "ts (started at bs args s) = ts s" "ta (started at bs args s) = ta s"
  "iflag (started at bs args s)" "pmem (started at bs args s) = mem_store (program_phys (cur_pid s) 0x48000) bs (pmem s)"
  "pcbs (started at bs args s) = (pcbs s)(cur_pid s := fresh_pcb (cur_pid s) (prev_pid s) args (ebp s) (esp s) (pcbs s (cur_pid s)))"
  "terminals (started at bs args s) = (terminals s)(at := (terminals s at)\<lparr>active_pid := cur_pid s\<rparr>)"
  "fs_img (started at bs args s) = fs_img s" "optab (started at bs args s) = optab s"
  "process_rtc (started at bs args s) = process_rtc s" "tss_esp0 (started at bs args s) = kernel_stack (cur_pid s)"
  "keyboard_buf (started at bs args s) = keyboard_buf s" "key_idx (started at bs args s) = key_idx s"
  "video_mem (started at bs args s) = video_mem s" "term_init_done (started at bs args s) = term_init_done s"
  "terminal_init (started at bs args s) = terminal_init s" "ebp (started at bs args s) = ebp s" "esp (started at bs args s) = esp s"
  "pt (started at bs args s) = pt s" "pd (started at bs args s) = pd (map_program (cur_pid s) s)"
  "pt_user (started at bs args s) = (pt_user s)(VID_MEM_INDEX := (pt_user s VID_MEM_INDEX)\<lparr>pte_p := True\<rparr>)"
  "terminal_rtc_count (started at bs args s) = terminal_rtc_count s" "terminal_rtc_wait (started at bs args s) = terminal_rtc_wait s"
  by (simp_all add: started_def Let_def)

lemma chosen_fields [simp]:
  "cur_pid (chosen i s) = int i" "prev_pid (chosen i s) = (if i \<le> 2 then -1 else cur_pid s)"
  "pid_array (chosen i s) = (pid_array s)[i := 1]" "pcbs (chosen i s) = pcbs s" "fs_img (chosen i s) = fs_img s"
  "terminals (chosen i s) = terminals s" "ta (chosen i s) = ta s" "ts (chosen i s) = ts s" "pmem (chosen i s) = pmem s"
  "pd (chosen i s) = pd s" "pt (chosen i s) = pt s" "pt_user (chosen i s) = pt_user s" "ebp (chosen i s) = ebp s"
  "esp (chosen i s) = esp s" "optab (chosen i s) = optab s" "process_rtc (chosen i s) = process_rtc s"
  "keyboard_buf (chosen i s) = keyboard_buf s" "key_idx (chosen i s) = key_idx s" "video_mem (chosen i s) = video_mem s"
  "term_init_done (chosen i s) = term_init_done s" "terminal_init (chosen i s) = terminal_init s"
  "terminal_rtc_count (chosen i s) = terminal_rtc_count s" "terminal_rtc_wait (chosen i s) = terminal_rtc_wait s"
  by (simp_all add: chosen_def cli_def)

text \<open>The successful path in one equation.\<close>

lemma sys_execute_started:
  assumes "fs_wf (fs_img s)" "procs_ok s" "parse_command command = Some (name, args)"
    and "exec_file (fs_img s) name = Some ino" "least_free (pid_array s) i" "file_len (fs_img s) (unat ino) \<le> 0x3B8000"
  shows "\<exists>eip. sys_execute command s =
    Some (Enter_user eip 0x83FFFFC, started (ta s) (file_content (fs_img s) (unat ino)) args (chosen i s))
    \<and> (28 \<le> file_len (fs_img s) (unat ino) \<longrightarrow> eip = entry_point (file_content (fs_img s) (unat ino)))"
proof -
  have i: "i < 6" using assms(5) by (simp add: least_free_def)
  have ino: "unat ino < img32 (fs_img s) 4"
    using assms(4) by (auto simp: exec_file_def split: option.splits sum.splits if_splits)
  have al: "length args < 128"
    using assms(3) by (auto simp: parse_command_def split: bind_splits prod.splits if_splits)
  have p: "length (fdt_of (int i) s) = 8" "length (cmd_args (pcbs s (int i))) = 128"
    using procs_okD [OF assms(2), of "int i"] i by simp_all
  show ?thesis
    using start_process_eq [of "chosen i s" ino args "ta s"] assms(1,6) ino al p i
    by (simp add: sys_execute_eq(2) [OF assms(1-5)] fdt_of_def)
qed


text \<open>
  C20. Arguments reach the program: after a command with a non-empty argument string has been executed,
  \<open>sys_getargs\<close> in the new process delivers exactly that string, terminated, to any buffer that has room
  for it.
\<close>

theorem execute_then_getargs:
  assumes "fs_wf (fs_img s)" "procs_ok s" "list_all name_char name" "name \<noteq> []" "length name \<le> 128"
    and "0 \<notin> set args" "length args < 128" "args \<noteq> []"
    and "exec_file (fs_img s) name = Some ino" "least_free (pid_array s) i" "file_len (fs_img s) (unat ino) \<le> 0x3B8000"
    and "int (length args) < nbytes" "length args < length b"
  shows "\<exists>eip s'. sys_execute (name @ SPACE # args @ 0 # r) s = Some (Enter_user eip 0x83FFFFC, s')
    \<and> sys_getargs (Some b) nbytes s' = Some (0, args @ 0 # drop (Suc (length args)) b)"
proof -
  have p: "parse_command (name @ SPACE # args @ 0 # r) = Some (name, args)"
    using parse_with_args [OF assms(3-7), of 0 r] by simp
  let ?s' = "started (ta s) (file_content (fs_img s) (unat ino)) args (chosen i s)"
  obtain eip where e: "sys_execute (name @ SPACE # args @ 0 # r) s = Some (Enter_user eip 0x83FFFFC, ?s')"
    using sys_execute_started [OF assms(1,2) p assms(9-11)] by blast
  have i: "i < 6" using assms(10) by (simp add: least_free_def)
  let ?a = "args @ 0 # drop (Suc (length args)) (cmd_args (pcbs s (int i)))"
  have "get_pcb (cur_pid ?s') ?s' = Some (fresh_pcb (int i) (prev_pid (chosen i s)) args (ebp s) (esp s) (pcbs s (int i)))"
    using i by (simp add: get_pcb_def)
  moreover have "strlen ?a = Some (length args)" using assms(6) by simp
  ultimately have "sys_getargs (Some b) nbytes ?s' = Some (0, args @ 0 # drop (Suc (length args)) b)"
    using assms(8,12,13) by (simp add: sys_getargs_def fresh_pcb_def store_user_def)
  with e show ?thesis by blast
qed

text \<open>
  A refused execute: an unknown name or a file that is not executable gives \<open>-1\<close> and changes nothing but
  the interrupt flag; with all six process numbers in use the result is 69, and the previous process
  number has been overwritten although no process was started.
\<close>

theorem execute_refused:
  assumes "fs_wf (fs_img s)" "procs_ok s" "parse_command command = Some (name, args)"
    and "exec_file (fs_img s) name = None \<or> list_all (\<lambda>v. v \<noteq> 0) (pid_array s)"
  shows "sys_execute command s =
    (if exec_file (fs_img s) name = None then Some (Ret (-1), cli s)
     else Some (Ret 69, (cli s)\<lparr>prev_pid := if cur_pid s \<le> 2 then -1 else cur_pid s\<rparr>))"
  using sys_execute_eq [OF assms(1-3)] assms(4) by (cases "exec_file (fs_img s) name") auto

subsection \<open>Halting\<close>

lemma list_all_update: "list_all P xs \<Longrightarrow> P v \<Longrightarrow> list_all P (xs[i := v])"
  by (auto simp: list_all_iff dest!: set_update_subset_insert [THEN subsetD])

lemma fd_only_refl: "fd_only pid s s"
  by (auto simp: fd_only_def fdt_of_def intro!: exI [of _ "file_descriptor_table (pcbs s pid)"] exI [of _ "read_index s"]
      exI [of _ "process_rtc s"])

lemma fd_only_trans: "fd_only pid s t \<Longrightarrow> fd_only pid t u \<Longrightarrow> fd_only pid s u"
proof -
  assume "fd_only pid s t" "fd_only pid t u"
  then obtain fdt ri pr fdt' ri' pr' where
    t: "t = s\<lparr>process_rtc := pr, read_index := ri, pcbs := (pcbs s)(pid := (pcbs s pid)\<lparr>file_descriptor_table := fdt\<rparr>)\<rparr>"
      "length pr = length (process_rtc s)" "list_all freq_ok (process_rtc s) \<longrightarrow> list_all freq_ok pr"
      "pcb_ok (pcbs s pid) \<longrightarrow> pcb_ok ((pcbs s pid)\<lparr>file_descriptor_table := fdt\<rparr>)" "length fdt = length (fdt_of pid s)"
      "\<forall>j. fd_flags (fdt_of pid s ! j) = 0 \<longrightarrow> fd_flags (fdt ! j) = 0"
    and u: "u = t\<lparr>process_rtc := pr', read_index := ri', pcbs := (pcbs t)(pid := (pcbs t pid)\<lparr>file_descriptor_table := fdt'\<rparr>)\<rparr>"
      "length pr' = length (process_rtc t)" "list_all freq_ok (process_rtc t) \<longrightarrow> list_all freq_ok pr'"
      "pcb_ok (pcbs t pid) \<longrightarrow> pcb_ok ((pcbs t pid)\<lparr>file_descriptor_table := fdt'\<rparr>)" "length fdt' = length (fdt_of pid t)"
      "\<forall>j. fd_flags (fdt_of pid t ! j) = 0 \<longrightarrow> fd_flags (fdt' ! j) = 0"
    unfolding fd_only_def by blast
  show ?thesis unfolding fd_only_def
    by (rule exI [of _ fdt'], rule exI [of _ ri'], rule exI [of _ pr']) (use t u in \<open>simp add: fdt_of_def\<close>)
qed

lemma fd_onlyD:
  assumes "fd_only pid s s'"
  shows "cur_pid s' = cur_pid s" "prev_pid s' = prev_pid s" "pid_array s' = pid_array s" "terminals s' = terminals s"
    "ts s' = ts s" "ta s' = ta s" "pmem s' = pmem s" "pd s' = pd s" "pt s' = pt s" "pt_user s' = pt_user s"
    "keyboard_buf s' = keyboard_buf s" "key_idx s' = key_idx s" "fs_img s' = fs_img s" "optab s' = optab s"
    "video_mem s' = video_mem s" "term_init_done s' = term_init_done s" "terminal_init s' = terminal_init s"
    "length (process_rtc s') = length (process_rtc s)" "list_all freq_ok (process_rtc s) \<Longrightarrow> list_all freq_ok (process_rtc s')"
    "pid' \<noteq> pid \<Longrightarrow> pcbs s' pid' = pcbs s pid'" "parent_pid (pcbs s' pid) = parent_pid (pcbs s pid)"
    "pcb_ok (pcbs s pid) \<Longrightarrow> pcb_ok (pcbs s' pid)" "terminal_rtc_count s' = terminal_rtc_count s"
    "terminal_rtc_wait s' = terminal_rtc_wait s" "tables_ready s' = tables_ready s"
    "length (fdt_of pid s') = length (fdt_of pid s)" "fd_flags (fdt_of pid s ! j) = 0 \<Longrightarrow> fd_flags (fdt_of pid s' ! j) = 0"
proof -
  from assms obtain fdt ri pr where e: "s' = s\<lparr>process_rtc := pr, read_index := ri,
       pcbs := (pcbs s)(pid := (pcbs s pid)\<lparr>file_descriptor_table := fdt\<rparr>)\<rparr>"
     "length pr = length (process_rtc s)" "list_all freq_ok (process_rtc s) \<longrightarrow> list_all freq_ok pr"
     "pcb_ok (pcbs s pid) \<longrightarrow> pcb_ok ((pcbs s pid)\<lparr>file_descriptor_table := fdt\<rparr>)" "length fdt = length (fdt_of pid s)"
     "\<forall>j. fd_flags (fdt_of pid s ! j) = 0 \<longrightarrow> fd_flags (fdt ! j) = 0" unfolding fd_only_def by blast
  show "length (process_rtc s') = length (process_rtc s)" "list_all freq_ok (process_rtc s) \<Longrightarrow> list_all freq_ok (process_rtc s')"
    "pcb_ok (pcbs s pid) \<Longrightarrow> pcb_ok (pcbs s' pid)" "length (fdt_of pid s') = length (fdt_of pid s)"
    "fd_flags (fdt_of pid s ! j) = 0 \<Longrightarrow> fd_flags (fdt_of pid s' ! j) = 0"
    using e by (simp_all add: fdt_of_def)
qed (use assms in \<open>auto simp: fd_only_def tables_ready_def process_init_def upd_term_def Let_def\<close>)

lemma fd_only_set_fd:
  assumes "file_op_table_ptr e \<noteq> Null_ptr \<or> fd_flags e = 0" "fd_flags e = 0"
  shows "fd_only pid s (set_fd pid i e s)"
proof -
  have "s\<lparr>pcbs := (pcbs s)(pid := (pcbs s pid)\<lparr>file_descriptor_table := (fdt_of pid s)[i := e]\<rparr>)\<rparr> =
      s\<lparr>process_rtc := process_rtc s, read_index := read_index s,
        pcbs := (pcbs s)(pid := (pcbs s pid)\<lparr>file_descriptor_table := (fdt_of pid s)[i := e]\<rparr>)\<rparr>" by simp
  moreover have "fd_flags ((fdt_of pid s)[i := e] ! j) = 0" if "fd_flags (fdt_of pid s ! j) = 0" for j
    using that assms(2) by (cases "i < length (fdt_of pid s)") (auto simp: nth_list_update list_update_beyond)
  moreover have "pcb_ok ((pcbs s pid)\<lparr>file_descriptor_table := (fdt_of pid s)[i := e]\<rparr>)" if "pcb_ok (pcbs s pid)"
    using pcb_ok_set_fd [OF that assms(1), of i] by (simp add: fdt_of_def)
  ultimately show ?thesis
    unfolding fd_only_def set_fd_def upd_pcb_def fdt_of_def [symmetric]
    by (intro exI [of _ "(fdt_of pid s)[i := e]"] exI [of _ "read_index s"] exI [of _ "process_rtc s"]) simp
qed

lemma fd_only_device:
  assumes "length pr = length (process_rtc s)" "list_all freq_ok (process_rtc s) \<longrightarrow> list_all freq_ok pr"
  shows "fd_only pid s (s\<lparr>process_rtc := pr, read_index := ri\<rparr>)"
proof -
  have "s\<lparr>process_rtc := pr, read_index := ri\<rparr> = s\<lparr>process_rtc := pr, read_index := ri,
      pcbs := (pcbs s)(pid := (pcbs s pid)\<lparr>file_descriptor_table := fdt_of pid s\<rparr>)\<rparr>"
    by (simp add: fdt_of_def)
  then show ?thesis unfolding fd_only_def using assms
    by (intro exI [of _ "fdt_of pid s"] exI [of _ ri] exI [of _ pr]) (simp add: fdt_of_def)
qed

lemma call_close_ok:
  assumes "0 \<le> cur_pid s" "cur_pid s < 6" "length (process_rtc s) = 6"
  shows "\<exists>r s'. call_close f s = Some (r, s') \<and> fd_only pid s s'"
proof -
  have r: "\<exists>r s'. rtc_close s = Some (r, s') \<and> fd_only pid s s'"
  proof -
    have "rtc_close s = Some (0, s\<lparr>process_rtc := (process_rtc s)[nat (cur_pid s) := 1024], read_index := read_index s\<rparr>)"
      using assms by (simp add: rtc_close_def set_process_rtc_def get_cur_pid_def)
    moreover have "fd_only pid s (s\<lparr>process_rtc := (process_rtc s)[nat (cur_pid s) := 1024], read_index := read_index s\<rparr>)"
      by (rule fd_only_device) (simp_all add: list_all_update freq_ok_def)
    ultimately show ?thesis by blast
  qed
  have d: "fd_only pid s (s\<lparr>read_index := i\<rparr>)" for i
    using fd_only_device [of "process_rtc s" s pid i] by simp
  show ?thesis using r d fd_only_refl by (cases f) (auto simp: call_close_def)
qed

lemma sys_close_ok:
  assumes "cur_ok s" "length (process_rtc s) = 6" "2 \<le> fd" "fd \<le> 7"
  shows "\<exists>r s'. sys_close fd s = Some (r, s') \<and> fd_only (cur_pid s) s s' \<and> fd_flags (fdt_of (cur_pid s) s' ! nat fd) = 0"
proof -
  note c = cur_okD [OF assms(1)]
  have b: "0 \<le> cur_pid s" "cur_pid s < 6" using assms(1) by (simp_all add: cur_ok_def)
  let ?e = "fdt_of (cur_pid s) s ! nat fd"
  have e: "rd_int (fdt_of (cur_pid s) s) fd = Some ?e" using c(2) assms(3,4) by simp
  show ?thesis
  proof (cases "fd_flags ?e = 0")
    case True
    then have "sys_close fd s = Some (-1, s)" using assms(3,4) c(1,4) e by (simp add: sys_close_def Let_def)
    then show ?thesis using True fd_only_refl by blast
  next
    case False
    then have "file_op_table_ptr ?e \<noteq> Null_ptr" using c(5) [of "nat fd"] assms(3,4) by auto
    then obtain tb where tb: "optab s (file_op_table_ptr ?e) = Some tb" using optab_some [OF c(3)] by blast
    obtain r t where t: "call_close (op_close tb) s = Some (r, t)" "fd_only (cur_pid s) s t"
      using call_close_ok [OF b assms(2)] by blast
    have "sys_close fd s = Some (0, set_fd (cur_pid s) (nat fd) closed_entry t)"
      using False assms(3,4) c(1,4) e tb t(1) by (simp add: sys_close_def Let_def)
    moreover have "fd_only (cur_pid s) s (set_fd (cur_pid s) (nat fd) closed_entry t)"
      by (rule fd_only_trans [OF t(2) fd_only_set_fd]) (simp_all add: closed_entry_def)
    moreover have "fd_flags (fdt_of (cur_pid s) (set_fd (cur_pid s) (nat fd) closed_entry t) ! nat fd) = 0"
      using fd_onlyD(26) [OF t(2)] c(2) assms(3,4) by (simp add: fdt_of_def closed_entry_def)
    ultimately show ?thesis by blast
  qed
qed

lemma cur_ok_fd_only: "cur_ok s \<Longrightarrow> fd_only (cur_pid s) s s' \<Longrightarrow> cur_ok s'"
  unfolding cur_ok_def by (simp add: fd_onlyD(1,25,22))

lemma sys_close_dir:
  assumes "cur_ok s" "2 \<le> i" "i \<le> 7" "sys_close i s = Some (r, t)" "dir_held (i # is) s"
  shows "dir_held is t"
proof -
  note c = cur_okD [OF assms(1)]
  let ?e = "fdt_of (cur_pid s) s ! nat i"
  have e: "rd_int (fdt_of (cur_pid s) s) i = Some ?e" using c(2) assms(2,3) by simp
  show ?thesis
  proof (cases "fd_flags ?e = 0")
    case True
    then have "t = s" using assms(2-4) c(1,4) e by (simp add: sys_close_def Let_def)
    then show ?thesis using True assms(5) by (simp add: dir_held_def)
  next
    case False
    then have "file_op_table_ptr ?e \<noteq> Null_ptr" using c(5) [of "nat i"] assms(2,3) by auto
    then obtain tb where tb: "optab s (file_op_table_ptr ?e) = Some tb" using optab_some [OF c(3)] by blast
    obtain q u where u: "call_close (op_close tb) s = Some (q, u)" "t = set_fd (cur_pid s) (nat i) closed_entry u"
      using False assms(2-4) c(1,4) e tb by (auto simp: sys_close_def Let_def split: bind_splits)
    have p: "pcbs u = pcbs s" "cur_pid u = cur_pid s" "read_index u = (if op_close tb = Dir_close then 0 else read_index s)"
      using u(1) by (auto simp: call_close_def dir_close_def rtc_close_def set_process_rtc_def split: close_fn.splits bind_splits if_splits)
    show ?thesis
    proof (cases "op_close tb = Dir_close")
      case True
      then show ?thesis using p u(2) by (simp add: dir_held_def) (simp add: set_fd_def)
    next
      case no: False
      then have "file_op_table_ptr ?e \<noteq> Dir_opt" using tb tables_readyD(2) [OF c(3)] by auto
      then have d: "dir_held is s" using assms(5) by (simp add: dir_held_def)
      have "fdt_of (cur_pid s) t ! nat j = fdt_of (cur_pid s) s ! nat j" if "file_op_table_ptr (fdt_of (cur_pid s) s ! nat j) = Dir_opt" for j
        using that \<open>file_op_table_ptr ?e \<noteq> Dir_opt\<close> p u(2) by (cases "nat j = nat i") (auto simp: fdt_of_def)
      moreover have "read_index t = read_index s" "cur_pid t = cur_pid s" using p no u(2) by (simp_all add: set_fd_def)
      ultimately show ?thesis using d unfolding dir_held_def list_ex_iff by metis
    qed
  qed
qed

lemma close_all:
  assumes "cur_ok s" "length (process_rtc s) = 6" "\<forall>i \<in> set is. 2 \<le> i \<and> i \<le> 7"
  shows "\<exists>s'. each (\<lambda>i s. map_option snd (sys_close i s)) is s = Some s' \<and> fd_only (cur_pid s) s s'
     \<and> (\<forall>i \<in> set is. fd_flags (fdt_of (cur_pid s) s' ! nat i) = 0) \<and> (dir_held is s \<longrightarrow> read_index s' = 0)"
  using assms
proof (induction "is" arbitrary: s)
  case Nil
  then show ?case using fd_only_refl by (simp add: dir_held_def)
next
  case (Cons i "is")
  obtain r t where t: "sys_close i s = Some (r, t)" "fd_only (cur_pid s) s t" "fd_flags (fdt_of (cur_pid s) t ! nat i) = 0"
    using sys_close_ok [OF Cons.prems(1,2), of i] Cons.prems(3) by auto
  have p: "cur_pid t = cur_pid s" "length (process_rtc t) = 6" using fd_onlyD(1,18) [OF t(2)] Cons.prems(2) by simp_all
  obtain s' where s': "each (\<lambda>i s. map_option snd (sys_close i s)) is t = Some s'" "fd_only (cur_pid t) t s'"
    "\<forall>i \<in> set is. fd_flags (fdt_of (cur_pid t) s' ! nat i) = 0" "dir_held is t \<longrightarrow> read_index s' = 0"
    using Cons.IH [OF cur_ok_fd_only [OF Cons.prems(1) t(2)] p(2)] Cons.prems(3) by auto
  have "fd_flags (fdt_of (cur_pid s) s' ! nat i) = 0" using fd_onlyD(27) [OF s'(2)] t(3) p(1) by simp
  moreover have "dir_held (i # is) s \<longrightarrow> read_index s' = 0"
    using sys_close_dir [OF Cons.prems(1) _ _ t(1), of "is"] Cons.prems(3) s'(4) by simp
  ultimately show ?case using t s' p(1) fd_only_trans [OF t(2), of s'] by auto
qed

lemma tables_ready_cong: "optab s' = optab s \<Longrightarrow> tables_ready s' = tables_ready s"
  by (simp add: tables_ready_def process_init_def upd_term_def Let_def)

lemma cur_ok_procs: "procs_ok s \<Longrightarrow> 0 \<le> cur_pid s \<Longrightarrow> cur_pid s < 6 \<Longrightarrow> cur_ok s"
  using procs_okD(1) [of s "cur_pid s"] by (simp add: cur_ok_def procs_ok_def)

lemma procs_okI:
  assumes "tables_ready s" "length (pid_array s) = 6" "length (process_rtc s) = 6" "\<And>pid. 0 \<le> pid \<Longrightarrow> pid < 6 \<Longrightarrow> pcb_ok (pcbs s pid)"
  shows "procs_ok s"
  using assms by (auto simp: procs_ok_def list_all_iff)

text \<open>What a step of the console cannot change of the processes.\<close>

lemma kb_frame_proc:
  fixes s :: "'a proc_scheme"
  assumes "kb_frame s s'"
  shows "pcbs s' = pcbs s" "pid_array s' = pid_array s" "optab s' = optab s" "fs_img s' = fs_img s" "read_index s' = read_index s"
    "terminal_init s' = terminal_init s" "cur_pid s' = cur_pid s" "prev_pid s' = prev_pid s" "ta s' = ta s" "pd s' = pd s"
    "tss_esp0 s' = tss_esp0 s" "process_rtc s' = process_rtc s" "active_pid (terminals s' k) = active_pid (terminals s k)"
proof -
  have "kbd.more s' = kbd.more s" using assms by (simp add: kb_frame_def)
  then show "pcbs s' = pcbs s" "pid_array s' = pid_array s" "optab s' = optab s" "fs_img s' = fs_img s" "read_index s' = read_index s"
    "terminal_init s' = terminal_init s" "tss_esp0 s' = tss_esp0 s"
    by (cases s; cases s'; simp)+
  have "(\<lambda>k. active_pid (terminals s' k)) = (\<lambda>k. active_pid (terminals s k))" using assms by (simp add: kb_frame_def)
  then show "active_pid (terminals s' k) = active_pid (terminals s k)" by (rule fun_cong)
qed (use assms in \<open>simp_all add: kb_frame_def\<close>)

lemma procs_ok_frame: "kb_frame s s' \<Longrightarrow> procs_ok s \<Longrightarrow> procs_ok (s' :: 'a proc_scheme)"
  using tables_ready_cong [OF kb_frame_proc(3), of s s'] by (simp add: procs_ok_def kb_frame_proc)

text \<open>The descriptors of the halting process, all of them closed, and everything else as it was.\<close>

lemma release_fds:
  assumes "procs_ok s" "0 \<le> cur_pid s" "cur_pid s < 6"
  shows "\<exists>s'. each (\<lambda>i s. map_option snd (sys_close i s)) [2, 3, 4, 5, 6, 7]
      (set_fd (cur_pid s) 1 null_entry (set_fd (cur_pid s) 0 null_entry s)) = Some s'
    \<and> fd_only (cur_pid s) s s' \<and> all_closed (fdt_of (cur_pid s) s') \<and> (dir_held [2, 3, 4, 5, 6, 7] s \<longrightarrow> read_index s' = 0)"
proof -
  let ?p = "cur_pid s"
  let ?t = "set_fd ?p 1 null_entry (set_fd ?p 0 null_entry s)"
  have n: "file_op_table_ptr null_entry \<noteq> Null_ptr \<or> fd_flags null_entry = 0" "fd_flags null_entry = 0"
    by (simp_all add: null_entry_def)
  have f: "fd_only ?p s ?t" by (rule fd_only_trans [OF fd_only_set_fd [OF n] fd_only_set_fd [OF n]])
  have c: "cur_ok ?t" by (rule cur_ok_fd_only [OF cur_ok_procs [OF assms] f])
  have l: "length (process_rtc ?t) = 6" "cur_pid ?t = ?p" using fd_onlyD(18) [OF f] assms(1) by (simp_all add: procs_ok_def)
  obtain s' where s': "each (\<lambda>i s. map_option snd (sys_close i s)) [2, 3, 4, 5, 6, 7] ?t = Some s'" "fd_only ?p ?t s'"
    "\<forall>i \<in> set [2, 3, 4, 5, 6, 7]. fd_flags (fdt_of ?p s' ! nat i) = 0" "dir_held [2, 3, 4, 5, 6, 7] ?t \<longrightarrow> read_index s' = 0"
    using close_all [OF c l(1), of "[2, 3, 4, 5, 6, 7]"] l(2) by auto
  have l8: "length (fdt_of ?p s) = 8" using procs_okD(2) [OF assms] .
  then have "fd_flags (fdt_of ?p ?t ! 0) = 0" "fd_flags (fdt_of ?p ?t ! 1) = 0"
    by (simp_all add: fdt_of_def null_entry_def)
  then have "fd_flags (fdt_of ?p s' ! 0) = 0" "fd_flags (fdt_of ?p s' ! 1) = 0"
    using fd_onlyD(27) [OF s'(2)] by blast+
  moreover have "length (fdt_of ?p s') = 8" using fd_onlyD(26) [OF fd_only_trans [OF f s'(2)]] l8 by simp
  moreover have "j = 0 \<or> j = 1 \<or> j = nat 2 \<or> j = nat 3 \<or> j = nat 4 \<or> j = nat 5 \<or> j = nat 6 \<or> j = nat 7" if "j < 8" for j
    using that by simp linarith
  ultimately have "all_closed (fdt_of ?p s')"
    using s'(3) unfolding all_closed_def list_all_length by fastforce
  moreover have "dir_held [2, 3, 4, 5, 6, 7] ?t = dir_held [2, 3, 4, 5, 6, 7] s"
    by (simp add: dir_held_def fdt_of_def) (simp add: set_fd_def)
  ultimately show ?thesis using s'(1,4) fd_only_trans [OF f s'(2)] by auto
qed

lemma handed_back_fields:
  "cur_pid (handed_back at parent e t) = parent" "prev_pid (handed_back at parent e t) = prev_pid t"
  "pid_array (handed_back at parent e t) = pid_array t" "pcbs (handed_back at parent e t) = pcbs t" "pd (handed_back at parent e t) = pd t"
  "pt (handed_back at parent e t) = pt t" "pt_user (handed_back at parent e t) = pt_user t" "pmem (handed_back at parent e t) = pmem t"
  "tss_esp0 (handed_back at parent e t) = kernel_stack parent" "iflag (handed_back at parent e t)"
  "terminals (handed_back at parent e t) = (terminals t)(at := (terminals t at)\<lparr>active_pid := parent, terminal_buf := replicate 128 0\<rparr>)"
  "ts (handed_back at parent e t) = ts t" "ta (handed_back at parent e t) = ta t" "video_mem (handed_back at parent e t) = video_mem t"
  "optab (handed_back at parent e t) = optab t" "fs_img (handed_back at parent e t) = fs_img t"
  "process_rtc (handed_back at parent e t) = process_rtc t" "terminal_init (handed_back at parent e t) = terminal_init t"
  "term_init_done (handed_back at parent e t) = term_init_done t" "terminal_rtc_count (handed_back at parent e t) = terminal_rtc_count t"
  "terminal_rtc_wait (handed_back at parent e t) = terminal_rtc_wait t"
  "keyboard_buf (handed_back at parent e t) = (if ts t = at then replicate 128 0 else keyboard_buf t)"
  "key_idx (handed_back at parent e t) = (if ts t = at then 0 else key_idx t)"
  "read_index (handed_back at parent e t) = read_index t"
  by (simp_all add: handed_back_def upd_term_def sti_def)

lemma detached_fields:
  "pcbs (detached parent s) = pcbs s" "optab (detached parent s) = optab s" "pid_array (detached parent s) = (pid_array s)[nat (cur_pid s) := 0]"
  "process_rtc (detached parent s) = process_rtc s" "cur_pid (detached parent s) = cur_pid s"
  "prev_pid (detached parent s) = parent_pid (pcbs s parent)" "terminals (detached parent s) = terminals s" "ts (detached parent s) = ts s"
  "ta (detached parent s) = ta s" "pmem (detached parent s) = pmem s" "keyboard_buf (detached parent s) = keyboard_buf s"
  "key_idx (detached parent s) = key_idx s" "pd (detached parent s) = pd (map_program parent s)" "pt (detached parent s) = pt s"
  "pt_user (detached parent s) = pt_user s" "video_mem (detached parent s) = video_mem s" "fs_img (detached parent s) = fs_img s"
  "terminal_init (detached parent s) = terminal_init s" "term_init_done (detached parent s) = term_init_done s"
  "terminal_rtc_count (detached parent s) = terminal_rtc_count s" "terminal_rtc_wait (detached parent s) = terminal_rtc_wait s"
  "read_index (detached parent s) = read_index s"
  by (simp_all add: detached_def map_program_def set_pd_def Let_def cli_def)

lemma halt_parent_eq:
  assumes "procs_ok s" "kb_safe s" "ta s < 3" "0 \<le> cur_pid s" "cur_pid s < 6"
    and "parent_pid (pcbs s (cur_pid s)) = parent" "0 \<le> parent" "parent < 6"
  shows "\<exists>t. halt_helper status s = Some (Leave_frame (pcb_ebp (pcbs s (cur_pid s))) status,
      handed_back (ta s) parent (pcb_ebp (pcbs s (cur_pid s))) t)
    \<and> fd_only (cur_pid s) (detached parent s) t \<and> all_closed (fdt_of (cur_pid s) t)
    \<and> (dir_held [2, 3, 4, 5, 6, 7] s \<longrightarrow> read_index t = 0)"
proof -
  let ?p = "cur_pid s"
  let ?pcb = "pcbs s ?p"
  let ?s2 = "detached parent s"
  note d = detached_fields [of parent s]
  define s1 where "s1 = (cli s)\<lparr>pid_array := (pid_array s)[nat ?p := 0]\<rparr>"
  have s2: "map_program parent (s1\<lparr>prev_pid := parent_pid (pcbs s parent)\<rparr>) = ?s2" by (simp add: s1_def detached_def)
  have l6: "length (pid_array s) = 6" using assms(1) by (simp add: procs_ok_def)
  have "procs_ok ?s2"
    by (rule procs_okI) (use d assms(1) l6 tables_ready_cong [OF d(2)] procs_okD(1) [OF assms(1)] in \<open>simp_all add: procs_ok_def\<close>)
  then obtain t where t: "each (\<lambda>i s. map_option snd (sys_close i s)) [2, 3, 4, 5, 6, 7]
      (set_fd ?p 1 null_entry (set_fd ?p 0 null_entry ?s2)) = Some t" "fd_only ?p ?s2 t" "all_closed (fdt_of ?p t)" "dir_held [2, 3, 4, 5, 6, 7] ?s2 \<longrightarrow> read_index t = 0"
    using release_fds [of ?s2] assms(4,5) d(5) by auto
  have dh: "dir_held [2, 3, 4, 5, 6, 7] ?s2 = dir_held [2, 3, 4, 5, 6, 7] s" by (simp add: dir_held_def fdt_of_def d)
  note f = fd_onlyD [OF t(2)]
  have tb: "length (terminal_buf (terminals t (ta s))) = 128" "length (keyboard_buf t) = 128"
    using kb_safeD(1) [OF assms(2)] kb_safeD(2) [OF assms(2,3)] f(4,11) d(7,11) by simp_all
  define u where "u = upd_term (ta s) (\<lambda>x. x\<lparr>active_pid := parent, terminal_buf := replicate 128 0\<rparr>) (t\<lparr>cur_pid := parent\<rparr>)"
  define v where "v = (if ts u = ta s then u\<lparr>keyboard_buf := replicate 128 0, key_idx := 0\<rparr> else u)"
  have v: "(if ts u = ta s then map_option snd (clear_keyboard_buf_caller u) else Some u) = Some v"
    using tb(2) by (simp add: v_def u_def upd_term_def kb_clear_eq)
  have w: "(sti (v\<lparr>tss_ss0 := KERNEL_DS, tss_esp0 := kernel_stack parent\<rparr>))\<lparr>ebp := e, esp := e\<rparr> = handed_back (ta s) parent e t" for e
    by (rule proc.equality) (simp_all add: v_def u_def handed_back_def upd_term_def sti_def)
  have gp: "get_pcb parent s1 = Some (pcbs s parent)" "get_pcb ?p s1 = Some ?pcb"
    using assms(4,5,7,8) by (simp_all add: get_pcb_def s1_def cli_def)
  have fb: "fill_buf (terminal_buf (terminals (t\<lparr>cur_pid := parent\<rparr>) (ta s))) (replicate FILE_STR_LEN 0) = Some (replicate 128 0)"
    using tb(1) by simp
  have r: "return_to_parent (ta s) ?p ?pcb status s1 = Some (Leave_frame (pcb_ebp ?pcb) status, handed_back (ta s) parent (pcb_ebp ?pcb) t)"
    unfolding return_to_parent_def Let_def assms(6) gp Option.bind.simps s2 t(1) fb u_def [symmetric] v w ..
  have a: "get_active_terminal (cli s) = ta s" "cur_pid (cli s) = ?p" "pid_array (cli s) = pid_array s"
    by (simp_all add: get_active_terminal_def cli_def)
  have "halt_helper status s = Some (Leave_frame (pcb_ebp ?pcb) status, handed_back (ta s) parent (pcb_ebp ?pcb) t)"
    unfolding halt_helper_def Let_def a using assms(4-7) l6 gp r by (simp add: s1_def)
  then show ?thesis using t(2-4) dh by blast
qed

lemma halt_to_parent:
  assumes "procs_ok s" "kb_safe s" "ta s < 3" "0 \<le> cur_pid s" "cur_pid s < 6"
    and "parent_pid (pcbs s (cur_pid s)) = parent" "0 \<le> parent" "parent < 6"
  shows "\<exists>s'. halt_helper status s = Some (Leave_frame (pcb_ebp (pcbs s (cur_pid s))) status, s')
    \<and> cur_pid s' = parent \<and> prev_pid s' = parent_pid (pcbs s parent) \<and> pid_array s' = (pid_array s)[nat (cur_pid s) := 0]
    \<and> all_closed (fdt_of (cur_pid s) s') \<and> (\<forall>q. q \<noteq> cur_pid s \<longrightarrow> pcbs s' q = pcbs s q)
    \<and> active_pid (terminals s' (ta s)) = parent \<and> (\<forall>k. k \<noteq> ta s \<longrightarrow> terminals s' k = terminals s k)
    \<and> pd s' = pd (map_program parent s) \<and> tss_esp0 s' = kernel_stack parent \<and> pmem s' = pmem s
    \<and> (ts s = ta s \<longrightarrow> kb_line s' = []) \<and> iflag s'"
proof -
  from halt_parent_eq [OF assms, of status] obtain t where t: "halt_helper status s = Some (Leave_frame (pcb_ebp (pcbs s (cur_pid s))) status,
      handed_back (ta s) parent (pcb_ebp (pcbs s (cur_pid s))) t)" "fd_only (cur_pid s) (detached parent s) t" "all_closed (fdt_of (cur_pid s) t)"
    by blast
  show ?thesis
    using t(1,3) fd_onlyD [OF t(2)] detached_fields [of parent s] by (simp add: handed_back_fields kb_line_def fdt_of_def)
qed

text \<open>
  C10. Halting a program returns to its parent: the status goes to the frame of the parent's execute call,
  the process number is free again, all eight descriptors are closed, the parent is the current process
  and the active one of the terminal, its memory is mapped and its kernel stack set, the memory and
  the control blocks of all other processes are untouched, and a half-typed line is discarded.
\<close>

theorem halt_returns_to_parent:
  assumes "procs_ok s" "kb_safe s" "ta s < 3" "0 \<le> cur_pid s" "cur_pid s < 6"
    and "parent_pid (pcbs s (cur_pid s)) = parent" "0 \<le> parent" "parent < 6"
  shows "\<exists>s'. halt_helper status s = Some (Leave_frame (pcb_ebp (pcbs s (cur_pid s))) status, s')
    \<and> cur_pid s' = parent \<and> prev_pid s' = parent_pid (pcbs s parent) \<and> pid_array s' = (pid_array s)[nat (cur_pid s) := 0]
    \<and> all_closed (fdt_of (cur_pid s) s') \<and> (\<forall>q. q \<noteq> cur_pid s \<longrightarrow> pcbs s' q = pcbs s q)
    \<and> active_pid (terminals s' (ta s)) = parent \<and> (\<forall>k. k \<noteq> ta s \<longrightarrow> terminals s' k = terminals s k)
    \<and> pd s' = pd (map_program parent s) \<and> tss_esp0 s' = kernel_stack parent \<and> pmem s' = pmem s
    \<and> (ts s = ta s \<longrightarrow> kb_line s' = []) \<and> iflag s'"
  by (rule halt_to_parent [OF assms])

lemma least_free_restart:
  "length arr = 6 \<Longrightarrow> i < 6 \<Longrightarrow> list_all (\<lambda>j. arr ! j \<noteq> 0) [0..<i] \<Longrightarrow> least_free (arr[i := 0]) i"
  by (auto simp: least_free_def list_all_iff)

lemma parse_shell: "parse_command shell_cmd = Some ([115, 104, 101, 108, 108], [])"
proof -
  have "shell_cmd = replicate 0 SPACE @ [115, 104, 101, 108, 108] @ [0]" by (simp add: shell_cmd_def bytes_def)
  then show ?thesis using parse_no_args [of "[115, 104, 101, 108, 108]" 0 "[]"] by (simp add: name_char_def)
qed

text \<open>The state a base shell is restarted from.\<close>

lemma halt_base:
  assumes "fs_wf (fs_img s)" "procs_ok s" "cur_pid s = int i" "i < 6" "parent_pid (pcbs s (int i)) = -1"
    and "exec_file (fs_img s) (bytes ''shell'') = Some ino" "file_len (fs_img s) (unat ino) \<le> 0x3B8000"
    and "list_all (\<lambda>j. pid_array s ! j \<noteq> 0) [0..<i]"
  shows "\<exists>eip. halt_helper status s = Some (Enter_user eip 0x83FFFFC,
    started (ta s) (file_content (fs_img s) (unat ino)) [] (chosen i (freed i s)))"
proof -
  have l: "length (pid_array s) = 6" using assms(2) by (simp add: procs_ok_def)
  have f: "fs_img (freed i s) = fs_img s" "ta (freed i s) = ta s" "pid_array (freed i s) = (pid_array s)[i := 0]"
    "optab (freed i s) = optab s" "process_rtc (freed i s) = process_rtc s" "pcbs (freed i s) = pcbs s"
    by (simp_all add: freed_def cli_def)
  have n: "bytes ''shell'' = [115, 104, 101, 108, 108]" by (simp add: bytes_def)
  have "procs_ok (freed i s)"
    using assms(2) tables_ready_cong [OF f(4)] by (simp add: procs_ok_def f)
  moreover have "least_free (pid_array (freed i s)) i" using least_free_restart [OF l assms(4,8)] by (simp add: f)
  ultimately obtain eip where e: "sys_execute shell_cmd (freed i s) = Some (Enter_user eip 0x83FFFFC,
      started (ta s) (file_content (fs_img s) (unat ino)) [] (chosen i (freed i s)))"
    using sys_execute_started [of "freed i s" shell_cmd "[115, 104, 101, 108, 108]" "[]" ino i] assms(1,6,7) parse_shell
    by (auto simp: f n)
  have "halt_helper status s = do { (c, s) \<leftarrow> sys_execute shell_cmd (freed i s); Some (case c of Ret _ \<Rightarrow> Ret (-1) | _ \<Rightarrow> c, s) }"
    using assms(3-5) l by (simp add: halt_helper_def Let_def cli_def get_pcb_def freed_def)
  then show ?thesis using e by simp
qed

text \<open>
  C11. A terminal never loses its shell: halting a process without a parent (whatever its status) starts the
  shell again in the same process number and on the same terminal, with fresh descriptors and no
  arguments, provided the numbers below it are in use, as they are once the three terminals run.
\<close>

theorem base_shell_restarts:
  assumes "fs_wf (fs_img s)" "procs_ok s" "cur_pid s = int i" "i < 6" "parent_pid (pcbs s (int i)) = -1"
    and "exec_file (fs_img s) (bytes ''shell'') = Some ino" "file_len (fs_img s) (unat ino) \<le> 0x3B8000"
    and "list_all (\<lambda>j. pid_array s ! j \<noteq> 0) [0..<i]" "i \<le> 2"
  shows "\<exists>eip s'. halt_helper status s = Some (Enter_user eip 0x83FFFFC, s') \<and> cur_pid s' = int i
    \<and> pid_array s' = (pid_array s)[i := 1] \<and> parent_pid (pcbs s' (int i)) = -1
    \<and> active_pid (terminals s' (ta s)) = int i \<and> cstr (cmd_args (pcbs s' (int i))) = []
    \<and> fdt_of (int i) s' = [std_entry Stdin_opt, std_entry Stdout_opt] @ replicate 6 closed_entry
    \<and> (\<forall>q. q \<noteq> int i \<longrightarrow> pcbs s' q = pcbs s q)"
proof -
  obtain eip where "halt_helper status s = Some (Enter_user eip 0x83FFFFC,
      started (ta s) (file_content (fs_img s) (unat ino)) [] (chosen i (freed i s)))"
    using halt_base [OF assms(1-8)] by blast
  then show ?thesis using assms(9) by (simp add: freed_def cli_def fresh_pcb_def fdt_of_def cstr_def)
qed

subsection \<open>Instances\<close>

lemma length_shell_img: "length shell_img = 12288"
  by (simp add: shell_img_def)

lemma shell_img_words:
  "img32 shell_img 0 = 1" "img32 shell_img 4 = 1" "img32 shell_img 8 = 1" "img32 shell_img 4096 = 28" "img32 shell_img 4100 = 0"
  by (simp_all add: img32_def rd32_def rd_def length_shell_img) (simp_all add: shell_img_def nth_append le32_def)

lemma shell_img_wf: "fs_wf shell_img"
  by (simp add: fs_wf_def inode_ok_def shell_img_words length_shell_img file_len_def file_block_def)

lemma shell_img_content: "file_len shell_img 0 = 28"
  "take 4 (file_content shell_img 0) = [0x7F, 0x45, 0x4C, 0x46]"
  by (simp_all add: file_content_def file_len_def file_block_def content_byte_def shell_img_words upt_rec)
    (simp_all add: shell_img_def nth_append)

lemma shell_img_exec: "exec_file shell_img [115, 104, 101, 108, 108] = Some 0"
proof -
  have l: "lookup_entry shell_img [115, 104, 101, 108, 108] = Some 0"
    by (simp add: lookup_entry_def entry_name_def dentry_off_def shell_img_words) (simp add: shell_img_def cstr_def)
  have d: "rd_dentry shell_img 0 = Some \<lparr>file_name = [115, 104, 101, 108, 108] @ replicate 27 0, file_type = 2, inode_num = 0\<rparr>"
    by (simp add: rd_dentry_def dentry_off_def rd32_def rd_def length_shell_img)
      (simp add: shell_img_def nth_append le32_def)
  have "read_dentry_by_name shell_img ([115, 104, 101, 108, 108] @ [0]) =
      Some (Inr \<lparr>file_name = [115, 104, 101, 108, 108] @ replicate 27 0, file_type = 2, inode_num = 0\<rparr>)"
    using read_dentry_by_name_eq [OF shell_img_wf, of "[115, 104, 101, 108, 108, 0]"] l d by (simp add: cstr_def)
  then show ?thesis by (simp add: exec_file_def shell_img_words shell_img_content)
qed

lemma boot_proc_procs: "procs_ok (boot_proc img)" "pid_array (boot_proc img) = [0, 0, 0, 0, 0, 0]" "ta (boot_proc img) = 0"
  "ts (boot_proc img) = 0" "kb_safe (boot_proc img)"
proof -
  have "tables_ready (boot_proc img)" using boot_proc_ok(1) by (simp add: cur_ok_def)
  then show "procs_ok (boot_proc img)"
    by (simp add: procs_ok_def) (simp add: boot_proc_def process_init_def upd_term_def Let_def kbd.extend_def blank_defs
        pcb_ok_def blank_pcb_def list_all_iff)
  show "pid_array (boot_proc img) = [0, 0, 0, 0, 0, 0]" "ta (boot_proc img) = 0" "ts (boot_proc img) = 0" "kb_safe (boot_proc img)"
    by (simp_all add: boot_proc_def process_init_def upd_term_def Let_def kbd.extend_def blank_defs kb_safe_def list_all_iff numeral_eq_Suc)
qed

lemma child_state_ok: "procs_ok child_state" "kb_safe child_state" "ta child_state = 0"
proof -
  show "procs_ok child_state"
    by (rule procs_okI) (use boot_proc_procs(1) [of shell_img] tables_ready_cong [of child_state "boot_proc shell_img"]
      in \<open>auto simp: procs_ok_def child_state_def pcb_ok_def blank_pcb_def list_all_iff\<close>)
  show "kb_safe child_state" "ta child_state = 0"
    using boot_proc_procs(5) [of shell_img] boot_proc_procs(3) [of shell_img] by (simp_all add: kb_safe_def child_state_def)
qed


theorem execute_then_getargs_witness:
  "\<exists>eip s'. sys_execute [115, 104, 101, 108, 108, 32, 45, 120, 0] (boot_proc shell_img) = Some (Enter_user eip 0x83FFFFC, s')
     \<and> sys_getargs (Some [9, 9, 9, 9]) 4 s' = Some (0, [45, 120, 0, 9])"
  using execute_then_getargs [of "boot_proc shell_img" "[115, 104, 101, 108, 108]" "[45, 120]" 0 0 4 "[9, 9, 9, 9]" "[]"]
  by (auto simp: boot_proc_ok shell_img_wf boot_proc_procs shell_img_exec shell_img_content least_free_def name_char_def)

theorem execute_refused_witness:
  "sys_execute shell_cmd ((boot_proc shell_img)\<lparr>pid_array := [1, 1, 1, 1, 1, 1]\<rparr>) =
     Some (Ret 69, (cli ((boot_proc shell_img)\<lparr>pid_array := [1, 1, 1, 1, 1, 1]\<rparr>))\<lparr>prev_pid := -1\<rparr>)"
proof -
  have "procs_ok ((boot_proc shell_img)\<lparr>pid_array := [1, 1, 1, 1, 1, 1]\<rparr>)"
    using boot_proc_procs(1) [of shell_img] tables_ready_cong [of "(boot_proc shell_img)\<lparr>pid_array := [1, 1, 1, 1, 1, 1]\<rparr>" "boot_proc shell_img"]
    by (simp add: procs_ok_def)
  then show ?thesis
    using execute_refused [of "(boot_proc shell_img)\<lparr>pid_array := [1, 1, 1, 1, 1, 1]\<rparr>" shell_cmd "[115, 104, 101, 108, 108]" "[]"]
    by (simp add: boot_proc_ok shell_img_wf parse_shell shell_img_exec)
qed

theorem base_shell_restarts_witness:
  "\<exists>eip s'. halt_helper 0 ((boot_proc shell_img)\<lparr>pid_array := [1, 1, 1, 0, 0, 0], pcbs := (\<lambda>_. blank_pcb\<lparr>parent_pid := -1\<rparr>)\<rparr>)
     = Some (Enter_user eip 0x83FFFFC, s') \<and> cur_pid s' = 0 \<and> pid_array s' = [1, 1, 1, 0, 0, 0]"
proof -
  let ?s = "(boot_proc shell_img)\<lparr>pid_array := [1, 1, 1, 0, 0, 0], pcbs := (\<lambda>_. blank_pcb\<lparr>parent_pid := -1\<rparr>)\<rparr>"
  have "procs_ok ?s"
    by (rule procs_okI) (use boot_proc_procs(1) [of shell_img] tables_ready_cong [of ?s "boot_proc shell_img"]
      in \<open>auto simp: procs_ok_def pcb_ok_def blank_pcb_def list_all_iff\<close>)
  then show ?thesis
    using base_shell_restarts [of ?s 0 0 0] shell_img_exec
    by (auto simp: boot_proc_ok shell_img_wf shell_img_content bytes_def)
qed

theorem halt_returns_to_parent_witness:
  "\<exists>s'. halt_helper 256 child_state = Some (Leave_frame 0x7FFF00 256, s') \<and> cur_pid s' = 0
     \<and> pid_array s' = [1, 1, 1, 0, 0, 0] \<and> all_closed (fdt_of 3 s')"
  using halt_returns_to_parent [OF child_state_ok(1,2), of 0 256]
  by (auto simp: child_state_ok(3)) (auto simp: child_state_def blank_pcb_def)

end
