(* ===== verification/Lib_Printf.thy ===== *)
theory Lib_Printf
  imports Screen Lib_String
begin

text \<open>
  \<open>printf\<close> of \<^verbatim>\<open>code/lib.c\<close>.  The arguments behind the format string are 32-bit slots on the stack:
  numbers, or pointers to strings.  A missing argument, a pointer where a number is converted and a
  number where a pointer is followed are \<open>None\<close>, and so is a read behind the format string.  The
  conversion buffers start with zeros; every byte of them that is read has been written before.
\<close>

datatype va_arg = Va_num u32 | Va_str buf

definition num_arg :: "va_arg list \<Rightarrow> (u32 \<times> va_arg list) option" where
  "num_arg va = (case va of Va_num v # r \<Rightarrow> Some (v, r) | _ \<Rightarrow> None)"

definition str_arg :: "va_arg list \<Rightarrow> (buf \<times> va_arg list) option" where
  "str_arg va = (case va of Va_str b # r \<Rightarrow> Some (b, r) | _ \<Rightarrow> None)"

text \<open>The loop that fills \<open>conv_buf[i..7]\<close> with zeros.\<close>

function pad_loop :: "buf \<Rightarrow> nat \<Rightarrow> buf option" where
  "pad_loop conv_buf i = (if i < 8 then do { b \<leftarrow> wr conv_buf i (of_char (CHR ''0'')); pad_loop b (Suc i) } else Some conv_buf)"
  by pat_completeness auto
termination
  by (relation "measure (\<lambda>(b, i). 8 - i)") auto

declare pad_loop.simps [simp del]

text \<open>The three number conversions: the bytes from the pointer that \<open>puts\<close> gets.\<close>

definition conv_hex :: "bool \<Rightarrow> u32 \<Rightarrow> buf option" where
  "conv_hex alternate v =
     (if \<not> alternate then itoa v (replicate 64 0) 16
      else do {
        t \<leftarrow> itoa v (drop 8 (replicate 64 0)) 16;
        starting_index \<leftarrow> strlen t;
        conv_buf \<leftarrow> pad_loop (take 8 (replicate 64 0) @ t) starting_index;
        Some (drop starting_index conv_buf) })"

definition conv_unsigned :: "u32 \<Rightarrow> buf option" where
  "conv_unsigned v = itoa v (replicate 36 0) 10"

definition conv_signed :: "u32 \<Rightarrow> buf option" where
  "conv_signed v =
     (if v <s 0 then map_option (Cons (of_char (CHR ''-''))) (itoa (- v) (replicate 35 0) 10) else itoa v (replicate 36 0) 10)"

text \<open>
  The inner switch, at the character behind the percent sign or behind a number sign: the rest of the
  format, the rest of the arguments and the state.
\<close>

fun format_char :: "bool \<Rightarrow> buf \<Rightarrow> va_arg list \<Rightarrow> 'a screen_scheme \<Rightarrow> (buf \<times> va_arg list \<times> 'a screen_scheme) option" where
  "format_char alternate [] va s = None"
| "format_char alternate (c # fmt) va s =
     (if c = of_char (CHR ''%'') then Some (fmt, va, putc c s)
      else if c = of_char (CHR ''#'') then format_char True fmt va s
      else if c = of_char (CHR ''x'') then do { (v, va) \<leftarrow> num_arg va; b \<leftarrow> conv_hex alternate v; (_, s) \<leftarrow> puts b s; Some (fmt, va, s) }
      else if c = of_char (CHR ''u'') then do { (v, va) \<leftarrow> num_arg va; b \<leftarrow> conv_unsigned v; (_, s) \<leftarrow> puts b s; Some (fmt, va, s) }
      else if c = of_char (CHR ''d'') then do { (v, va) \<leftarrow> num_arg va; b \<leftarrow> conv_signed v; (_, s) \<leftarrow> puts b s; Some (fmt, va, s) }
      else if c = of_char (CHR ''c'') then do { (v, va) \<leftarrow> num_arg va; Some (fmt, va, putc (ucast v) s) }
      else if c = of_char (CHR ''s'') then do { (b, va) \<leftarrow> str_arg va; (_, s) \<leftarrow> puts b s; Some (fmt, va, s) }
      else Some (fmt, va, s))"

lemma format_char_length: "format_char alternate fmt va s = Some (fmt', va', s') \<Longrightarrow> length fmt' < length fmt"
  by (induction alternate fmt va s rule: format_char.induct) (fastforce split: if_splits bind_splits prod.splits)+

function printf_loop :: "buf \<Rightarrow> va_arg list \<Rightarrow> 'a screen_scheme \<Rightarrow> (nat \<times> 'a screen_scheme) option" where
  "printf_loop fmt va s =
     (case fmt of
        [] \<Rightarrow> None
      | c # r \<Rightarrow>
          if c = 0 then Some (0, s)
          else if c = of_char (CHR ''%'') then
            (case format_char False r va s of
               None \<Rightarrow> None
             | Some (r', va', s') \<Rightarrow> map_option (\<lambda>(n, s). (n + (length fmt - length r'), s)) (printf_loop r' va' s'))
          else map_option (\<lambda>(n, s). (Suc n, s)) (printf_loop r va (putc c s)))"
  by pat_completeness auto
termination
  by (relation "measure (\<lambda>(fmt, va, s). length fmt)") (auto dest: format_char_length)

declare printf_loop.simps [simp del]

definition printf :: "buf \<Rightarrow> va_arg list \<Rightarrow> 'a screen_scheme \<Rightarrow> (nat \<times> 'a screen_scheme) option" where
  "printf format va s = printf_loop format va s"

subsection \<open>Specification\<close>

text \<open>The text of a number, and the pieces of a format with what each stands for.\<close>

definition num_text :: "nat \<Rightarrow> u32 \<Rightarrow> buf" where
  "num_text r v = (if v = 0 then [of_char (CHR ''0'')] else rev (map ((!) lookup) (digits_lsb r (unat v))))"

datatype item = Lit u8 | Percent | Hex u32 | Hex8 u32 | Unsigned u32 | Signed u32 | Chr u32 | Str buf

fun item_fmt :: "item \<Rightarrow> buf" where
  "item_fmt (Lit c) = [c]"
| "item_fmt Percent = bytes ''%%''"
| "item_fmt (Hex v) = bytes ''%x''"
| "item_fmt (Hex8 v) = bytes ''%#x''"
| "item_fmt (Unsigned v) = bytes ''%u''"
| "item_fmt (Signed v) = bytes ''%d''"
| "item_fmt (Chr v) = bytes ''%c''"
| "item_fmt (Str b) = bytes ''%s''"

fun item_args :: "item \<Rightarrow> va_arg list" where
  "item_args (Lit c) = []"
| "item_args Percent = []"
| "item_args (Hex v) = [Va_num v]"
| "item_args (Hex8 v) = [Va_num v]"
| "item_args (Unsigned v) = [Va_num v]"
| "item_args (Signed v) = [Va_num v]"
| "item_args (Chr v) = [Va_num v]"
| "item_args (Str b) = [Va_str b]"

fun item_text :: "item \<Rightarrow> buf" where
  "item_text (Lit c) = [c]"
| "item_text Percent = [of_char (CHR ''%'')]"
| "item_text (Hex v) = num_text 16 v"
| "item_text (Hex8 v) = replicate (8 - length (num_text 16 v)) (of_char (CHR ''0'')) @ num_text 16 v"
| "item_text (Unsigned v) = num_text 10 v"
| "item_text (Signed v) = (if v <s 0 then of_char (CHR ''-'') # num_text 10 (- v) else num_text 10 v)"
| "item_text (Chr v) = [ucast v]"
| "item_text (Str b) = cstr b"

fun item_ok :: "item \<Rightarrow> bool" where
  "item_ok (Lit c) \<longleftrightarrow> c \<noteq> 0 \<and> c \<noteq> of_char (CHR ''%'')"
| "item_ok (Str b) \<longleftrightarrow> 0 \<in> set b"
| "item_ok _ \<longleftrightarrow> True"

text \<open>Formats that ask for nothing but the arguments they get.\<close>

fun fmt_ok :: "buf \<Rightarrow> va_arg list \<Rightarrow> bool" where
  "fmt_ok [] va = True"
| "fmt_ok [c] va = (c \<noteq> 0 \<and> c \<noteq> of_char (CHR ''%''))"
| "fmt_ok (c # d # f) va =
     (if c \<noteq> of_char (CHR ''%'') then c \<noteq> 0 \<and> fmt_ok (d # f) va
      else
        (case va of
           [] \<Rightarrow> False
         | Va_num v # va \<Rightarrow>
             if d = of_char (CHR ''#'') then (case f of [] \<Rightarrow> False | e # f \<Rightarrow> e = of_char (CHR ''x'') \<and> fmt_ok f va)
             else d \<in> {of_char (CHR ''x''), of_char (CHR ''u''), of_char (CHR ''d'')} \<and> fmt_ok f va
         | Va_str b # va \<Rightarrow> d = of_char (CHR ''s'') \<and> 0 \<in> set b \<and> fmt_ok f va))"

subsection \<open>Conversions\<close>

lemma num_text_facts:
  assumes "2 \<le> r" "r \<le> 36" "unat v < r ^ n" "0 < n"
  shows "0 \<notin> set (num_text r v)" "length (num_text r v) \<le> n" "numeral_val r (num_text r v) = unat v"
proof -
  show "0 \<notin> set (num_text r v)"
  proof (cases "v = 0")
    case False
    have "0 \<notin> set (map ((!) lookup) (digits_lsb r (unat v)))"
      using digits_lsb_small [OF assms(1), of "unat v"] assms(2) by (force simp: image_iff)
    with False show ?thesis by (simp add: num_text_def)
  qed (simp add: num_text_def)
  show "length (num_text r v) \<le> n" using digits_lsb_length [OF assms(1,3)] assms(4) by (simp add: num_text_def)
  show "numeral_val r (num_text r v) = unat v"
  proof (cases "v = 0")
    case True
    then show ?thesis by (simp add: num_text_def numeral_val_def digit_val_def)
  next
    case False
    then show ?thesis using numeral_val_rev_digits [OF assms(1,2)] by (simp add: num_text_def)
  qed
qed

lemma itoa_num_text:
  assumes "2 \<le> unat r" "unat r \<le> 36" "unat v < unat r ^ n" "0 < n" "n < length buf"
  shows "itoa v buf r = Some (num_text (unat r) v @ 0 # drop (Suc (length (num_text (unat r) v))) buf)"
proof (cases "v = 0")
  case True
  then show ?thesis using assms(4,5) by (cases buf; cases "tl buf") (auto simp: itoa_def num_text_def)
next
  case False
  then show ?thesis using digits_lsb_length [OF assms(1,3)] assms by (simp add: itoa_eq num_text_def)
qed

lemma pad_loop_eq: "i \<le> 8 \<Longrightarrow> 8 \<le> length b \<Longrightarrow>
  pad_loop b i = Some (take i b @ replicate (8 - i) (of_char (CHR ''0'')) @ drop 8 b)"
proof (induction "8 - i" arbitrary: i b)
  case 0
  then show ?case by (subst pad_loop.simps) simp
next
  case (Suc n)
  then have "pad_loop (b[i := of_char (CHR ''0'')]) (Suc i) =
      Some (take (Suc i) (b[i := of_char (CHR ''0'')]) @ replicate (8 - Suc i) (of_char (CHR ''0'')) @ drop 8 b)"
    by simp
  moreover have "8 - i = Suc (8 - Suc i)" using Suc by simp
  ultimately show ?case using Suc.prems Suc.hyps(2)
    by (subst pad_loop.simps) (simp add: take_Suc_conv_app_nth)
qed

lemma u32_digits: "unat (v :: u32) < 16 ^ 8" "unat (v :: u32) < 10 ^ 10"
proof -
  show "unat v < 16 ^ 8" by simp
  have "unat v < 4294967296" by simp
  also have "\<dots> < 10 ^ 10" by simp
  finally show "unat v < 10 ^ 10" .
qed

lemma conv_eqs:
  "\<exists>r. conv_hex False v = Some (num_text 16 v @ 0 # r)"
  "\<exists>r. conv_hex True v = Some (item_text (Hex8 v) @ 0 # r)"
  "\<exists>r. conv_unsigned v = Some (num_text 10 v @ 0 # r)"
  "\<exists>r. conv_signed v = Some (item_text (Signed v) @ 0 # r)"
proof -
  have h: "itoa v (replicate k 0) 16 = Some (num_text 16 v @ 0 # drop (Suc (length (num_text 16 v))) (replicate k 0))" if "8 < k" for k
    using itoa_num_text [of 16 v 8 "replicate k 0"] u32_digits that by simp
  have d: "itoa w (replicate k 0) 10 = Some (num_text 10 w @ 0 # drop (Suc (length (num_text 10 w))) (replicate k 0))" if "10 < k" for w k
    using itoa_num_text [of 10 w 10 "replicate k 0"] u32_digits that by simp
  have n: "0 \<notin> set (num_text 16 v)" "length (num_text 16 v) \<le> 8" using num_text_facts [of 16 v 8] u32_digits by simp_all
  show "\<exists>r. conv_hex False v = Some (num_text 16 v @ 0 # r)" using h [of 64] by (auto simp: conv_hex_def)
  show "\<exists>r. conv_hex True v = Some (item_text (Hex8 v) @ 0 # r)"
    using h [of 56] n by (simp add: conv_hex_def pad_loop_eq)
  show "\<exists>r. conv_unsigned v = Some (num_text 10 v @ 0 # r)" using d [of 36 v] by (auto simp: conv_unsigned_def)
  show "\<exists>r. conv_signed v = Some (item_text (Signed v) @ 0 # r)"
    using d [of 36 v] d [of 35 "- v"] by (auto simp: conv_signed_def)
qed

lemma item_text_nonzero: "0 \<notin> set (num_text 16 v)" "0 \<notin> set (num_text 10 v)" "0 \<notin> set (item_text (Hex8 v))"
  "0 \<notin> set (item_text (Signed v))"
  using num_text_facts(1) [of 16 _ 8] num_text_facts(1) [of 10 _ 10] u32_digits by auto

subsection \<open>The format loop\<close>

lemma printf_item:
  assumes "item_ok x"
  shows "printf_loop (item_fmt x @ r) (item_args x @ a) s =
    map_option (\<lambda>(n, s). (n + length (item_fmt x), s)) (printf_loop r a (fold putc (item_text x) s))"
proof -
  have p: "\<exists>n. puts (t @ 0 # q) u = Some (n, fold putc t u)" if "0 \<notin> set t" for t q and u :: "'a screen_scheme"
    using puts_fold [OF that] by blast
  obtain q1 q2 q3 q4 where q: "\<And>v. conv_hex False v = Some (num_text 16 v @ 0 # q1 v)"
    "\<And>v. conv_hex True v = Some (item_text (Hex8 v) @ 0 # q2 v)" "\<And>v. conv_unsigned v = Some (num_text 10 v @ 0 # q3 v)"
    "\<And>v. conv_signed v = Some (item_text (Signed v) @ 0 # q4 v)" using conv_eqs by metis
  note z = item_text_nonzero
  show ?thesis
  proof (cases x)
    case (Str b)
    obtain q where b: "b = cstr b @ 0 # q" using assms Str cstr_split by auto
    have "puts b s = Some (length (cstr b), fold putc (cstr b) s)" using puts_fold [of "cstr b" q s] b by simp
    then show ?thesis using Str by (subst printf_loop.simps) (simp add: bytes_def str_arg_def)
  next
    case (Lit c)
    then show ?thesis using assms by (subst printf_loop.simps) (simp add: case_prod_beta)
  qed (subst printf_loop.simps, simp add: bytes_def num_arg_def q numeral_3_eq_3 puts_fold [OF z(1)] puts_fold [OF z(2)] puts_fold [OF z(3)]
      puts_fold [OF z(4)] del: item_text.simps(4,6))+
qed

lemma printf_items:
  "list_all item_ok xs \<Longrightarrow> printf_loop (concat (map item_fmt xs) @ 0 # r) (concat (map item_args xs) @ a) s =
     Some (length (concat (map item_fmt xs)), fold putc (concat (map item_text xs)) s)"
proof (induction xs arbitrary: s)
  case Nil
  then show ?case by (subst printf_loop.simps) simp
next
  case (Cons x xs)
  then show ?case using printf_item [of x "concat (map item_fmt xs) @ 0 # r" "concat (map item_args xs) @ a" s] by simp
qed

text \<open>A format that passes the check consists of pieces the loop can print.\<close>

lemma fmt_ok_items:
  "fmt_ok fmt va \<Longrightarrow> \<exists>xs a. list_all item_ok xs \<and> fmt = concat (map item_fmt xs) \<and> va = concat (map item_args xs) @ a"
proof (induction fmt va rule: fmt_ok.induct)
  case (1 va)
  then show ?case by (intro exI [of _ "[]"] exI [of _ va]) simp
next
  case (2 c va)
  then show ?case by (intro exI [of _ "[Lit c]"] exI [of _ va]) simp
next
  case (3 c d f va)
  have cons: "\<exists>ys b. list_all item_ok ys \<and> c # d # f = concat (map item_fmt ys) \<and> va = concat (map item_args ys) @ b"
    if "item_ok x" "c # d # f = item_fmt x @ g" "va = item_args x @ va'"
      "\<exists>xs a. list_all item_ok xs \<and> g = concat (map item_fmt xs) \<and> va' = concat (map item_args xs) @ a" for x g va'
  proof -
    from that(4) obtain xs a where "list_all item_ok xs" "g = concat (map item_fmt xs)" "va' = concat (map item_args xs) @ a" by blast
    then show ?thesis using that(1-3) by (intro exI [of _ "x # xs"] exI [of _ a]) simp
  qed
  show ?case
  proof (cases "c = of_char (CHR ''%'')")
    case False
    then have "\<exists>xs a. list_all item_ok xs \<and> d # f = concat (map item_fmt xs) \<and> va = concat (map item_args xs) @ a"
      using "3.prems" by (intro "3.IH"(1)) simp_all
    then show ?thesis using False "3.prems" by (intro cons [of "Lit c" "d # f" va]) simp_all
  next
    case True
    then obtain w va' where va: "va = w # va'" using "3.prems" by (cases va) simp_all
    show ?thesis
    proof (cases w)
      case (Va_str b)
      then have s: "d = of_char (CHR ''s'')" "0 \<in> set b" "fmt_ok f va'" using "3.prems" True va by simp_all
      then show ?thesis using True va Va_str "3.IH"(4) [OF _ va Va_str] by (intro cons [of "Str b" f va']) (simp_all add: bytes_def)
    next
      case (Va_num v)
      show ?thesis
      proof (cases "d = of_char (CHR ''#'')")
        case hash: True
        then obtain f' where f: "f = of_char (CHR ''x'') # f'" "fmt_ok f' va'" using "3.prems" True va Va_num by (cases f) simp_all
        then show ?thesis using True va Va_num hash "3.IH"(2) [OF _ va Va_num hash f(1)]
          by (intro cons [of "Hex8 v" f' va']) (simp_all add: bytes_def)
      next
        case False
        then have f: "d \<in> {of_char (CHR ''x''), of_char (CHR ''u''), of_char (CHR ''d'')}" "fmt_ok f va'"
          using "3.prems" True va Va_num by simp_all
        then have ih: "\<exists>xs a. list_all item_ok xs \<and> f = concat (map item_fmt xs) \<and> va' = concat (map item_args xs) @ a"
          using "3.IH"(3) [OF _ va Va_num False] True by simp
        show ?thesis using f(1) True va Va_num cons [of "Hex v" f va'] cons [of "Unsigned v" f va'] cons [of "Signed v" f va'] ih
          by (auto simp: bytes_def)
      qed
    qed
  qed
qed

lemma printf_fmt_ok: "fmt_ok fmt va \<Longrightarrow> \<exists>n t. printf (fmt @ 0 # r) va s = Some (n, fold putc t s)"
  using fmt_ok_items [of fmt va] printf_items by (fastforce simp: printf_def)

text \<open>
  C32. \<open>printf\<close> prints what its format says: for every format made of ordinary characters and the documented
  conversions, with the arguments they ask for, it prints the text of each piece in order (the decimal
  and hexadecimal digits that denote the number, eight of them for the alternate form, a sign for
  negative numbers, strings up to their NUL), ignores further arguments, reads nothing behind the
  terminator of the format and returns the format's length.
\<close>

theorem printf_prints:
  assumes "list_all item_ok xs"
  shows "printf (concat (map item_fmt xs) @ 0 # r) (concat (map item_args xs) @ a) s =
     Some (length (concat (map item_fmt xs)), fold putc (concat (map item_text xs)) s)
    \<and> (\<forall>v. numeral_val 16 (item_text (Hex v)) = unat v \<and> numeral_val 10 (item_text (Unsigned v)) = unat v
         \<and> numeral_val 16 (item_text (Hex8 v)) = unat v \<and> length (item_text (Hex8 v)) = 8)"
proof -
  have z: "numeral_val 16 (replicate k (of_char (CHR ''0'')) @ t) = numeral_val 16 t" for k t
    by (induction k) (simp_all add: numeral_val_def digit_val_def)
  show ?thesis
    using printf_items [OF assms] num_text_facts [of 16 _ 8] num_text_facts [of 10 _ 10] u32_digits
    by (simp add: printf_def) (simp add: z [simplified])
qed

text \<open>
  A percent sign at the end of the format makes \<open>printf\<close> step over the terminator: it goes on reading
  behind the format string.
\<close>

theorem printf_trailing_percent:
  assumes "list_all item_ok xs"
  shows "printf (concat (map item_fmt xs) @ [of_char (CHR ''%''), 0]) (concat (map item_args xs)) s = None"
  using assms unfolding printf_def
proof (induction xs arbitrary: s)
  case Nil
  then show ?case by (subst printf_loop.simps) (simp add: printf_loop.simps [of "[]"])
next
  case (Cons x xs)
  then show ?case
    using printf_item [of x "concat (map item_fmt xs) @ [of_char (CHR ''%''), 0]" "concat (map item_args xs)" s] by simp
qed

theorem printf_prints_witness:
  "printf (bytes ''pid %d%%'' @ [0]) [Va_num (-7)] blank_screen =
     Some (8, fold putc (bytes ''pid -7%'') blank_screen)"
proof -
  have "num_text 10 7 = bytes ''7''" by (simp add: num_text_def digits_lsb.simps bytes_def lookup_def)
  moreover have "(- 7 :: u32) <s 0" by (simp add: word_sless_alt)
  ultimately show ?thesis
    using printf_prints [of "[Lit 112, Lit 105, Lit 100, Lit 32, Signed (-7), Percent]" "[]" "[]" blank_screen]
    by (simp add: bytes_def)
qed

theorem printf_trailing_percent_witness: "printf (bytes ''100%'' @ [0]) [] blank_screen = None"
  using printf_trailing_percent [of "[Lit 49, Lit 48, Lit 48]" blank_screen] by (simp add: bytes_def)

end
