(* ===== verification/Idt.thy ===== *)
theory Idt
  imports Exec Lib_Printf
begin

text \<open>
  The interrupt descriptor table and the exception handler of \<^verbatim>\<open>code/idt.c\<close>.  The addresses of the
  entry stubs are fixed by the linker: \<open>addr\<close> gives them, and every statement holds for any assignment.
  The descriptors have the fields of \<open>idt_desc_t\<close> in \<^verbatim>\<open>code/x86_desc.h\<close>; \<open>reserved3\<close> to \<open>reserved1\<close> with
  \<open>size\<close> form the type of the gate.
\<close>

record idt_desc_t =
  offset_15_00 :: u16
  seg_selector :: u16
  reserved4 :: u8
  reserved3 :: bool
  reserved2 :: bool
  reserved1 :: bool
  gate_size :: bool
  reserved0 :: bool
  gate_dpl :: "2 word"
  present :: bool
  offset_31_16 :: u16

type_synonym idt = "nat \<Rightarrow> idt_desc_t"

datatype stub = Divide_error | Single_step | Nmi | Breakpoint | Overflow | Bound_range_exceeded | Invalid_opcode | Dna
  | Double_fault | Coproc | Invalid_tss | Snp | Ssf | Gen_prot | Page_fault | Math_fault | Align_check | Machine_check
  | Floatp_excep | Keyboard_stub | Rtc_stub | Pit_stub | Sys_call_stub

abbreviation KERNEL_CS :: u16 where "KERNEL_CS \<equiv> 0x10"
abbreviation NUM_VEC :: nat where "NUM_VEC \<equiv> 256"
abbreviation NUM_EXCEPTIONS :: nat where "NUM_EXCEPTIONS \<equiv> 32"
abbreviation SYSCALL_VEC_NUM :: nat where "SYSCALL_VEC_NUM \<equiv> 0x80"
abbreviation INTEL_RESERVED :: nat where "INTEL_RESERVED \<equiv> 0x0F"
abbreviation KEYBOARD_VEC_NUM :: nat where "KEYBOARD_VEC_NUM \<equiv> 0x21"
abbreviation RTC_VEC_NUM :: nat where "RTC_VEC_NUM \<equiv> 0x28"
abbreviation PIT_VEC_NUM :: nat where "PIT_VEC_NUM \<equiv> 0x20"
abbreviation EXCEPTION_HALT :: u32 where "EXCEPTION_HALT \<equiv> 256"

text \<open>The body of the loop over the vectors; the offsets keep their value.\<close>

definition init_gate :: "nat \<Rightarrow> idt_desc_t \<Rightarrow> idt_desc_t" where
  "init_gate i e = e\<lparr>seg_selector := KERNEL_CS,
     gate_dpl := (if i = SYSCALL_VEC_NUM then 3 else 0),
     present := ((i < NUM_EXCEPTIONS \<or> i = SYSCALL_VEC_NUM \<or> i = KEYBOARD_VEC_NUM \<or> i = RTC_VEC_NUM \<or> i = PIT_VEC_NUM)
                 \<and> i \<noteq> INTEL_RESERVED),
     reserved0 := False, reserved1 := True, reserved2 := True,
     reserved3 := i \<ge> NUM_EXCEPTIONS,
     reserved4 := 0, gate_size := True\<rparr>"

definition SET_IDT_ENTRY :: "nat \<Rightarrow> u32 \<Rightarrow> idt \<Rightarrow> idt" where
  "SET_IDT_ENTRY i handler idt = idt(i := (idt i)\<lparr>offset_31_16 := ucast (drop_bit 16 (handler AND 0xFFFF0000)),
     offset_15_00 := ucast (handler AND 0xFFFF)\<rparr>)"

text \<open>The \<open>SET_IDT_ENTRY\<close> lines, in their order.\<close>

definition idt_handlers :: "(nat \<times> stub) list" where
  "idt_handlers = [(0, Divide_error), (1, Single_step), (2, Nmi), (3, Breakpoint), (4, Overflow), (5, Bound_range_exceeded),
     (6, Invalid_opcode), (7, Dna), (8, Double_fault), (9, Coproc), (10, Invalid_tss), (11, Snp), (12, Ssf), (13, Gen_prot),
     (14, Page_fault), (16, Math_fault), (17, Align_check), (18, Machine_check), (19, Floatp_excep),
     (KEYBOARD_VEC_NUM, Keyboard_stub), (RTC_VEC_NUM, Rtc_stub), (PIT_VEC_NUM, Pit_stub), (SYSCALL_VEC_NUM, Sys_call_stub)]"

definition initialize_idt :: "(stub \<Rightarrow> u32) \<Rightarrow> idt \<Rightarrow> idt" where
  "initialize_idt addr idt =
     (let idt = fold (\<lambda>i idt. idt(i := init_gate i (idt i))) [0..<NUM_VEC] idt
      in fold (\<lambda>(i, h). SET_IDT_ENTRY i (addr h)) idt_handlers idt)"

subsection \<open>Exceptions\<close>

definition exception_messages :: "string list" where
  "exception_messages = [''Division Error'', ''Debug Exception'', ''Non-Maskable Interrupt'', ''Breakpoint Exception'',
     ''Overflow'', ''Bounds Range Exceeded'', ''Invalid Opcode'', ''Device Not Available'',
     ''Double Fault'', ''Coprocessor Segment Overrun'', ''Invalid TSS'', ''Segment Not Present'',
     ''Stack Fault'', ''General Protection Fault'', ''Page Fault'', ''Reserved'',
     ''x87 Floating-Point Exception'', ''Alignment Check'', ''Machine Check'', ''SIMD Floating-Point Exception'']"

text \<open>\<open>NO_ERR_CODE\<close> is \<open>-1\<close>, compared as an unsigned number.\<close>

definition handle_exception :: "u32 \<Rightarrow> u32 \<Rightarrow> 'a proc_scheme \<Rightarrow> (ctl \<times> 'a proc_scheme) option" where
  "handle_exception exc_id err_code s = do {
     let s = clear_screen (cli s);
     msg \<leftarrow> rd exception_messages (unat exc_id);
     (_, s) \<leftarrow> (if err_code = -1
        then printf (bytes ''EXCEPTION DETECTED      Exception: %s'' @ [NL, NL, 0]) [Va_str (bytes msg @ [0])] s
        else printf (bytes ''EXCEPTION DETECTED      Exception: %s - Error Code: 0x%x'' @ [NL, 0])
               [Va_str (bytes msg @ [0]), Va_num err_code] s);
     (c, s) \<leftarrow> halt_helper EXCEPTION_HALT s;
     Some (case c of Ret _ \<Rightarrow> Ret 0 | _ \<Rightarrow> c, s) }"

subsection \<open>Specification\<close>

text \<open>The address a gate leads to, and the gate types of the processor.\<close>

definition gate_target :: "idt_desc_t \<Rightarrow> u32" where
  "gate_target e = push_bit 16 (ucast (offset_31_16 e)) OR ucast (offset_15_00 e)"

definition gate_type :: "idt_desc_t \<Rightarrow> bool list" where
  "gate_type e = [gate_size e, reserved1 e, reserved2 e, reserved3 e]"

definition interrupt_gate :: "idt_desc_t \<Rightarrow> bool" where
  "interrupt_gate e \<longleftrightarrow> gate_type e = [True, True, True, False] \<and> \<not> reserved0 e"

definition trap_gate :: "idt_desc_t \<Rightarrow> bool" where
  "trap_gate e \<longleftrightarrow> gate_type e = [True, True, True, True] \<and> \<not> reserved0 e"

text \<open>The table in zeroed memory.\<close>

definition blank_idt :: idt where
  "blank_idt = (\<lambda>_. \<lparr>offset_15_00 = 0, seg_selector = 0, reserved4 = 0, reserved3 = False, reserved2 = False, reserved1 = False,
     gate_size = False, reserved0 = False, gate_dpl = 0, present = False, offset_31_16 = 0\<rparr>)"

text \<open>What the screen shows for an exception.\<close>

definition exception_text :: "nat \<Rightarrow> u32 \<Rightarrow> buf" where
  "exception_text exc_id err =
     bytes ''EXCEPTION DETECTED      Exception: '' @ bytes (exception_messages ! exc_id)
     @ (if err = -1 then [NL, NL] else bytes '' - Error Code: 0x'' @ num_text 16 err @ [NL])"

text \<open>The two formats as sequences of pieces.\<close>

definition exception_items :: "nat \<Rightarrow> u32 \<Rightarrow> item list" where
  "exception_items n err =
     map Lit (bytes ''EXCEPTION DETECTED      Exception: '') @ Str (bytes (exception_messages ! n) @ [0])
     # (if err = -1 then [Lit NL, Lit NL] else map Lit (bytes '' - Error Code: 0x'') @ [Hex err, Lit NL])"

subsection \<open>The table\<close>

lemma fold_gates: "fold (\<lambda>i idt. idt(i := f i (idt i))) [0..<n] g = (\<lambda>i. if i < n then f i (g i) else g i)"
  by (induction n) auto

lemma u32_halves:
  fixes h :: u32
  shows "push_bit 16 (ucast (ucast (drop_bit 16 (h AND 0xFFFF0000)) :: u16)) OR ucast (ucast (h AND 0xFFFF) :: u16) = h"
proof -
  have m: "(0xFFFF :: u32) = mask 16" "(0xFFFF0000 :: u32) = push_bit 16 (mask 16)"
    by (simp_all add: mask_eq_exp_minus_1)
  show ?thesis unfolding m by (rule bit_word_eqI) (auto simp: bit_simps)
qed

lemma target_set:
  "gate_target (e\<lparr>offset_31_16 := ucast (drop_bit 16 (h AND 0xFFFF0000)), offset_15_00 := ucast (h AND 0xFFFF)\<rparr>) = h"
proof -
  have "gate_target (e\<lparr>offset_31_16 := a, offset_15_00 := b\<rparr>) = push_bit 16 (ucast a) OR ucast b" for a b
    by (simp add: gate_target_def)
  then show ?thesis by (simp only: u32_halves)
qed

text \<open>The handlers are set at distinct vectors, so each entry is set at most once.\<close>

lemma fold_handlers:
  "distinct (map fst hs) \<Longrightarrow> fold (\<lambda>(i, h). SET_IDT_ENTRY i (addr h)) hs idt v =
     (case map_of hs v of None \<Rightarrow> idt v | Some h \<Rightarrow> SET_IDT_ENTRY v (addr h) idt v)"
proof (induction hs arbitrary: idt)
  case (Cons p hs)
  obtain i h where p: "p = (i, h)" by (cases p)
  have "map_of hs i = None" using Cons.prems p by (simp add: map_of_eq_None_iff)
  then show ?case using Cons p by (auto simp: SET_IDT_ENTRY_def split: option.split)
qed simp

lemma distinct_handlers: "distinct (map fst idt_handlers)"
  by (simp add: idt_handlers_def)

lemma initialize_idt_apply:
  assumes "v < 256"
  shows "initialize_idt addr idt v =
    (case map_of idt_handlers v of
       None \<Rightarrow> init_gate v (idt v)
     | Some h \<Rightarrow> (init_gate v (idt v))\<lparr>offset_31_16 := ucast (drop_bit 16 (addr h AND 0xFFFF0000)),
                  offset_15_00 := ucast (addr h AND 0xFFFF)\<rparr>)"
  using assms by (simp add: initialize_idt_def Let_def fold_handlers [OF distinct_handlers] fold_gates SET_IDT_ENTRY_def del: upt_rec_numeral
      split: option.split)

text \<open>
  C24. The interrupt table after initialisation, for all 256 vectors and any handler addresses: exactly the
  exceptions except the reserved vector 15, the three device vectors and the system call are
  present; every gate runs in the kernel's code segment; the system call is the only one user code may
  raise; exceptions use interrupt gates, the devices and the system call trap gates; a vector with a
  handler leads to that handler's address, and the present vectors without one, 20 to 31, keep the address that
  was in the table before.
\<close>

theorem idt_gates:
  assumes "v < 256"
  shows "(present (initialize_idt addr idt v) \<longleftrightarrow> v < 32 \<and> v \<noteq> 15 \<or> v \<in> {32, 33, 40, 128})
    \<and> seg_selector (initialize_idt addr idt v) = KERNEL_CS
    \<and> (gate_dpl (initialize_idt addr idt v) = 3 \<longleftrightarrow> v = 128)
    \<and> (v < 32 \<longrightarrow> interrupt_gate (initialize_idt addr idt v)) \<and> (32 \<le> v \<longrightarrow> trap_gate (initialize_idt addr idt v))
    \<and> gate_target (initialize_idt addr idt v) =
        (case map_of idt_handlers v of Some h \<Rightarrow> addr h | None \<Rightarrow> gate_target (idt v))
    \<and> (present (initialize_idt addr idt v) \<and> map_of idt_handlers v = None \<longleftrightarrow> 20 \<le> v \<and> v < 32)"
proof -
  have g: "present (init_gate v e) \<longleftrightarrow> v < 32 \<and> v \<noteq> 15 \<or> v \<in> {32, 33, 40, 128}" "gate_target (init_gate v e) = gate_target e"
    "seg_selector (init_gate v e) = KERNEL_CS" "gate_dpl (init_gate v e) = 3 \<longleftrightarrow> v = 128"
    "v < 32 \<longrightarrow> interrupt_gate (init_gate v e)" "32 \<le> v \<longrightarrow> trap_gate (init_gate v e)" for e
    by (auto simp: init_gate_def gate_target_def interrupt_gate_def trap_gate_def gate_type_def)
  have n: "map_of idt_handlers v = None \<longleftrightarrow> \<not> (v \<le> 14 \<or> 16 \<le> v \<and> v \<le> 19 \<or> v \<in> {32, 33, 40, 128})"
    by (simp add: map_of_eq_None_iff idt_handlers_def) presburger
  have "(v < 32 \<and> v \<noteq> 15 \<or> v \<in> {32, 33, 40, 128}) \<and> map_of idt_handlers v = None \<longleftrightarrow> 20 \<le> v \<and> v < 32"
    unfolding n by auto
  moreover have "present (initialize_idt addr idt v) = present (init_gate v (idt v))"
    "seg_selector (initialize_idt addr idt v) = seg_selector (init_gate v (idt v))"
    "gate_dpl (initialize_idt addr idt v) = gate_dpl (init_gate v (idt v))"
    "interrupt_gate (initialize_idt addr idt v) = interrupt_gate (init_gate v (idt v))"
    "trap_gate (initialize_idt addr idt v) = trap_gate (init_gate v (idt v))"
    by (auto simp: initialize_idt_apply [OF assms] interrupt_gate_def trap_gate_def gate_type_def split: option.split)
  moreover have "gate_target (initialize_idt addr idt v) = (case map_of idt_handlers v of Some h \<Rightarrow> addr h | None \<Rightarrow> gate_target (idt v))"
    unfolding initialize_idt_apply [OF assms] by (cases "map_of idt_handlers v") (simp_all only: option.case g(2) target_set)
  ultimately show ?thesis using g by metis
qed

subsection \<open>Exceptions\<close>

lemma lit_items:
  "concat (map (item_fmt \<circ> Lit) cs) = cs" "concat (map (item_args \<circ> Lit) cs) = []" "concat (map (item_text \<circ> Lit) cs) = cs"
  by (induction cs) simp_all

lemma bytes_append: "bytes (a @ b) = bytes a @ bytes b"
  by (simp add: bytes_def)

lemma exception_message_ok: "n < 20 \<Longrightarrow> 0 \<notin> set (bytes (exception_messages ! n))"
proof -
  have "list_all (\<lambda>m. 0 \<notin> set (bytes m)) exception_messages" by (simp add: exception_messages_def bytes_def)
  moreover have "length exception_messages = 20" by (simp add: exception_messages_def)
  ultimately show "n < 20 \<Longrightarrow> 0 \<notin> set (bytes (exception_messages ! n))" by (simp add: list_all_length)
qed

lemma exception_printed:
  assumes "n < 20"
  shows "(if err = -1
        then printf (bytes ''EXCEPTION DETECTED      Exception: %s'' @ [NL, NL, 0]) [Va_str (bytes (exception_messages ! n) @ [0])] s
        else printf (bytes ''EXCEPTION DETECTED      Exception: %s - Error Code: 0x%x'' @ [NL, 0])
               [Va_str (bytes (exception_messages ! n) @ [0]), Va_num err] s)
     = Some (if err = -1 then 39 else 57, fold putc (exception_text n err) s)"
proof -
  have ok: "list_all item_ok (exception_items n err)" by (simp add: exception_items_def bytes_def)
  have c: "cstr (bytes (exception_messages ! n) @ [0]) = bytes (exception_messages ! n)"
    using exception_message_ok [OF assms] by simp
  have t: "concat (map item_text (exception_items n err)) = exception_text n err"
    by (simp add: exception_items_def exception_text_def lit_items c)
  show ?thesis
    using printf_items [OF ok, of "[]" "[]" s] unfolding t
    by (cases "err = -1") (simp_all add: printf_def exception_items_def lit_items bytes_def)
qed

lemma handle_exception_eq:
  assumes "unat n < 20"
  shows "handle_exception n err s = map_option (\<lambda>(c, s). (case c of Ret _ \<Rightarrow> Ret 0 | _ \<Rightarrow> c, s))
    (halt_helper 256 (fold putc (exception_text (unat n) err) (clear_screen (cli s))))"
proof -
  have "rd exception_messages (unat n) = Some (exception_messages ! unat n)"
    using assms by (simp add: rd_def exception_messages_def)
  then show ?thesis unfolding handle_exception_def Let_def
    using exception_printed [OF assms, of err "clear_screen (cli s)"] by (simp add: map_option_case split: option.split bind_split)
qed

lemma exception_to_parent:
  assumes "procs_ok s" "console_inv s" "0 \<le> cur_pid s" "cur_pid s < 6" "unat n < 20"
    and "parent_pid (pcbs s (cur_pid s)) = parent" "0 \<le> parent" "parent < 6"
  shows "\<exists>s'. handle_exception n err s = Some (Leave_frame (pcb_ebp (pcbs s (cur_pid s))) 256, s')
    \<and> cur_pid s' = parent \<and> pid_array s' = (pid_array s)[nat (cur_pid s) := 0]
    \<and> pmem s' = pmem (fold putc (exception_text (unat n) err) (clear_screen (cli s)))
    \<and> (\<forall>q. q \<noteq> cur_pid s \<longrightarrow> pcbs s' q = pcbs s q)
    \<and> (\<forall>k. k \<noteq> ta s \<longrightarrow> active_pid (terminals s' k) = active_pid (terminals s k))"
proof -
  let ?t = "fold putc (exception_text (unat n) err) (clear_screen (cli s))"
  have st: "console_step s ?t"
    by (rule console_step_trans [OF console_step_machine(1) console_step_trans [OF console_step_clear_screen console_step_fold_putc]])
  then have f: "kb_frame s ?t" and c: "console_inv ?t" using assms(2) by (simp_all add: console_step_def)
  note k = kb_frame_proc [OF f]
  have "kb_safe ?t" "ta ?t < 3" using c by (simp_all add: console_inv_def screen_inv_def)
  then obtain s' where s': "halt_helper 256 ?t = Some (Leave_frame (pcb_ebp (pcbs s (cur_pid s))) 256, s')" "cur_pid s' = parent"
    "pid_array s' = (pid_array s)[nat (cur_pid s) := 0]" "pmem s' = pmem ?t" "\<forall>q. q \<noteq> cur_pid s \<longrightarrow> pcbs s' q = pcbs s q"
    "\<forall>k. k \<noteq> ta s \<longrightarrow> terminals s' k = terminals ?t k"
    using halt_to_parent [OF procs_ok_frame [OF f assms(1)], of parent 256] assms(3-8) by (auto simp: k)
  moreover have "handle_exception n err s = Some (Leave_frame (pcb_ebp (pcbs s (cur_pid s))) 256, s')"
    using handle_exception_eq [OF assms(5), of err s] s'(1) by simp
  ultimately show ?thesis using k(13) by auto
qed

text \<open>
  C23. An exception ends the program that caused it and nothing else: the screen is cleared, the message
  of the exception is printed (with the error code when there is one), the parent resumes in the frame of its
  execute call with status 256, which no program can return by itself, and the control blocks of
  all other processes and the other terminals' active processes are unchanged.
\<close>

theorem exception_ends_program:
  assumes "procs_ok s" "console_inv s" "0 \<le> cur_pid s" "cur_pid s < 6" "unat n < 20"
    and "parent_pid (pcbs s (cur_pid s)) = parent" "0 \<le> parent" "parent < 6"
  shows "\<exists>s'. handle_exception n err s = Some (Leave_frame (pcb_ebp (pcbs s (cur_pid s))) 256, s')
    \<and> cur_pid s' = parent \<and> pid_array s' = (pid_array s)[nat (cur_pid s) := 0]
    \<and> pmem s' = pmem (fold putc (exception_text (unat n) err) (clear_screen (cli s)))
    \<and> (\<forall>q. q \<noteq> cur_pid s \<longrightarrow> pcbs s' q = pcbs s q)
    \<and> (\<forall>k. k \<noteq> ta s \<longrightarrow> active_pid (terminals s' k) = active_pid (terminals s k))
    \<and> (\<forall>status :: u8. ucast status \<noteq> (256 :: u32))"
proof -
  have "ucast status \<noteq> (256 :: u32)" for status :: u8
  proof
    assume "ucast status = (256 :: u32)"
    then have "unat (ucast status :: u32) = 256" by simp
    moreover have "unat status < 2 ^ LENGTH(8)" by (rule unsigned_less)
    ultimately show False by (simp add: unsigned_ucast_eq take_bit_eq_mod)
  qed
  then show ?thesis using exception_to_parent [OF assms, of err] by blast
qed

theorem idt_gates_witness:
  "gate_dpl (initialize_idt (\<lambda>_. 0x401234) blank_idt 128) = 3 \<and> trap_gate (initialize_idt (\<lambda>_. 0x401234) blank_idt 128)
    \<and> gate_target (initialize_idt (\<lambda>_. 0x401234) blank_idt 14) = 0x401234"
  using idt_gates [of 128 "\<lambda>_. 0x401234" blank_idt] idt_gates [of 14 "\<lambda>_. 0x401234" blank_idt] by (simp add: idt_handlers_def)

lemma child_state_console: "console_inv child_state"
  by (simp add: console_inv_def screen_inv_def kb_safe_def child_state_def boot_proc_def process_init_def upd_term_def Let_def
      kbd.extend_def blank_defs cursor_ok_def list_all_iff)

theorem exception_ends_program_witness:
  "\<exists>s'. handle_exception 14 0 child_state = Some (Leave_frame 0x7FFF00 256, s') \<and> cur_pid s' = 0 \<and> pid_array s' = [1, 1, 1, 0, 0, 0]"
proof -
  have "cur_pid child_state = 3" "parent_pid (pcbs child_state 3) = 0" "pcb_ebp (pcbs child_state 3) = 0x7FFF00"
    "pid_array child_state = [1, 1, 1, 1, 0, 0]" by (simp_all add: child_state_def blank_pcb_def)
  then show ?thesis using exception_ends_program [OF child_state_ok(1) child_state_console, of 14 0 0] by auto
qed

end
