(* ===== verification/Pit.thy ===== *)
theory Pit
  imports Exec
begin

text \<open>
  The timer and the scheduler of \<^verbatim>\<open>code/pit.c\<close>.  The first two interrupts start a shell on the second
  and third terminal, the third returns the display to the first one, and from then on every
  interrupt gives the processor to the active process of the next terminal.  The stack registers
  in the state are those of the interrupted process; loading them is the context switch.
\<close>

abbreviation MODE_REG_PORT :: u16 where "MODE_REG_PORT \<equiv> 0x43"
abbreviation CHANNEL0_PORT :: u16 where "CHANNEL0_PORT \<equiv> 0x40"
abbreviation TOTAL_TERM :: int where "TOTAL_TERM \<equiv> 3"

text \<open>\<open>PIT_REL_VAL\<close>: 30 ms of a clock of 3579545 / 3 Hz.\<close>

definition PIT_REL_VAL :: u32 where "PIT_REL_VAL = 30 * 3579545 div 3000"

definition pit_init :: "'a pic_scheme \<Rightarrow> 'a pic_scheme" where
  "pit_init s =
     (let (flags, s) = cli_and_save s;
          s = outb 0x34 MODE_REG_PORT s;
          s = outb (ucast (PIT_REL_VAL AND 0xFF)) CHANNEL0_PORT s;
          s = outb (ucast (drop_bit 8 PIT_REL_VAL AND 0xFF)) CHANNEL0_PORT s;
          s = enable_irq 0 s;
          s = restore_flags flags s
      in sti s)"

text \<open>The registers of the interrupted process go to the control block of the active terminal's process.\<close>

definition save_context :: "'a proc_scheme \<Rightarrow> 'a proc_scheme option" where
  "save_context s = do {
     let active = active_pid (terminals s (ta s));
     _ \<leftarrow> get_pcb active s;
     Some (upd_pcb active (\<lambda>p. p\<lparr>cur_esp := esp s, cur_ebp := ebp s\<rparr>) s) }"

text \<open>The branch for the first two interrupts.  A successful execute does not return.\<close>

definition start_terminal :: "'a proc_scheme \<Rightarrow> (ctl \<times> 'a proc_scheme) option" where
  "start_terminal s = do {
     let n = terminal_init s;
     (_, s) \<leftarrow> terminal_switch (n + 1) s;
     let s = set_ta n s;
     if n < 0 then None
     else do {
       let s = upd_term (nat n) (\<lambda>t. t\<lparr>base_pid := n, active_pid := n\<rparr>) s;
       let s = s\<lparr>terminal_init := n + 1\<rparr>;
       let s = send_eoi 0 s;
       (c, s) \<leftarrow> sys_execute shell_cmd s;
       Some (case c of Ret _ \<Rightarrow> (Ret 0, sti s) | _ \<Rightarrow> (c, s)) } }"

text \<open>The branch for all later ones.\<close>

definition switch_process :: "'a proc_scheme \<Rightarrow> 'a proc_scheme option" where
  "switch_process s = do {
     s \<leftarrow> (if terminal_init s = TOTAL_TERM
           then do { (_, s) \<leftarrow> terminal_switch 1 s; Some (s\<lparr>term_init_done := True, terminal_init := terminal_init s + 1\<rparr>) }
           else Some s);
     let s = send_eoi 0 s;
     let active_term = (get_active_terminal s + 1) mod 3;
     let s = s\<lparr>ta := active_term\<rparr>;
     let active = active_pid (terminals s (ta s));
     p \<leftarrow> get_pcb active s;
     let s = set_cur_pid active s;
     let s = set_prev_pid (parent_pid p) s;
     let s = map_program active s;
     s \<leftarrow> route_video s;
     let s = s\<lparr>tss_esp0 := kernel_stack active\<rparr>;
     let s = s\<lparr>ebp := cur_ebp p, esp := cur_esp p\<rparr>;
     Some (sti s) }"

definition pit_handler :: "'a proc_scheme \<Rightarrow> (ctl \<times> 'a proc_scheme) option" where
  "pit_handler s = do {
     s \<leftarrow> save_context (cli s);
     if terminal_init s < TOTAL_TERM then start_terminal s
     else do { s \<leftarrow> switch_process s; Some (Ret 0, s) } }"

subsection \<open>Specification\<close>

text \<open>The terminals are all running: \<open>terminal_init\<close> has passed the last one and the display is routed.\<close>

definition sched_inv :: "'a proc_scheme \<Rightarrow> bool" where
  "sched_inv s \<longleftrightarrow> screen_inv s \<and> active_ok s \<and> kb_safe s \<and> terminal_init s > TOTAL_TERM"

definition running :: "nat \<Rightarrow> 'a screen_scheme \<Rightarrow> int" where
  "running k s = active_pid (terminals s k)"

definition next_term :: "nat \<Rightarrow> nat" where "next_term k = Suc k mod 3"

text \<open>
  What the code of other processes must not do for a preempted process to resume: change its saved
  registers or the scheduler's view of the terminals.
\<close>

definition undisturbed :: "int \<Rightarrow> 'a proc_scheme \<Rightarrow> 'a proc_scheme \<Rightarrow> bool" where
  "undisturbed pid s s' \<longleftrightarrow> pcbs s' pid = pcbs s pid \<and> ta s' = ta s \<and> sched_inv s'
     \<and> (\<lambda>k. running k s') = (\<lambda>k. running k s)"

text \<open>The effect of the two halves of a switch: saving the registers, and resuming the next terminal's process.\<close>

definition saved :: "'a proc_scheme \<Rightarrow> 'a proc_scheme" where
  "saved s = upd_pcb (running (ta s) s) (\<lambda>p. p\<lparr>cur_esp := esp s, cur_ebp := ebp s\<rparr>) s"

definition shown_page :: "nat \<Rightarrow> 'a screen_scheme \<Rightarrow> nat" where
  "shown_page k s = (if ts s = k then 0 else k + 1)"

definition resumed :: "'a proc_scheme \<Rightarrow> 'a proc_scheme" where
  "resumed s =
     (let k = next_term (ta s); pid = running k s; p = pcbs s pid
      in s\<lparr>iflag := True, out_log := out_log s @ eoi_writes 0, esp := cur_esp p, ebp := cur_ebp p, ta := k,
           video_mem := vid_mem_pages ! shown_page k s, cur_pid := pid, prev_pid := parent_pid p, pd := pd (map_program pid s),
           pt_user := (pt_user s)(VID_MEM_INDEX := (pt_user s VID_MEM_INDEX)\<lparr>pte_addr_31_12 := of_nat (VID_MEM_INDEX + shown_page k s)\<rparr>),
           tss_esp0 := kernel_stack pid\<rparr>)"

text \<open>A state in which three shells run on the three terminals, with different saved registers.\<close>

definition three_shells :: proc where
  "three_shells = (boot_proc [])\<lparr>terminal_init := 4, pid_array := [1, 1, 1, 0, 0, 0],
     terminals := (\<lambda>k. (terminals (boot_proc []) k)\<lparr>active_pid := int k\<rparr>),
     pcbs := (\<lambda>pid. blank_pcb\<lparr>parent_pid := -1, cur_esp := word_of_int (pid + 100), cur_ebp := word_of_int (pid + 200)\<rparr>)\<rparr>"

subsection \<open>The context switch\<close>

lemma send_eoi_proc [simp]:
  "pcbs (send_eoi n s) = pcbs s" "terminal_init (send_eoi n s) = terminal_init s" "pd (send_eoi n s) = pd s"
  "pt_user (send_eoi n s) = pt_user s" "esp (send_eoi n s) = esp s" "ebp (send_eoi n s) = ebp s" "pmem (send_eoi n s) = pmem s"
  "fs_img (send_eoi n s) = fs_img s" "pid_array (send_eoi n s) = pid_array s" "optab (send_eoi n s) = optab s"
  "process_rtc (send_eoi n s) = process_rtc s" "cur_pid (send_eoi n s) = cur_pid s"
  by (simp_all add: send_eoi_eq)

lemma active_okD: "active_ok s \<Longrightarrow> k < 3 \<Longrightarrow> 0 \<le> running k s \<and> running k s < 6"
  by (simp add: active_ok_def list_all_iff running_def)

lemma next_term_less [simp]: "next_term k < 3"
  by (simp add: next_term_def)

lemma next_term_cycle: "k < 3 \<Longrightarrow> next_term (next_term (next_term k)) = k" "k < 3 \<Longrightarrow> next_term k \<noteq> k"
  "k < 3 \<Longrightarrow> next_term (next_term k) \<noteq> k" "k < 3 \<Longrightarrow> next_term (next_term k) \<noteq> next_term k"
proof -
  have "k = 0 \<or> k = 1 \<or> k = 2" if "k < 3" using that by linarith
  then show "k < 3 \<Longrightarrow> next_term (next_term (next_term k)) = k" "k < 3 \<Longrightarrow> next_term k \<noteq> k"
    "k < 3 \<Longrightarrow> next_term (next_term k) \<noteq> k" "k < 3 \<Longrightarrow> next_term (next_term k) \<noteq> next_term k"
    by (auto simp: next_term_def dest: dvd_imp_le)
qed

lemma switch_process_eq:
  assumes "terminal_init s > TOTAL_TERM" "active_ok s"
  shows "switch_process s = Some (resumed s)"
proof -
  let ?k = "next_term (ta s)"
  let ?pid = "running ?k s"
  let ?p = "pcbs s ?pid"
  define t where "t = map_program ?pid ((send_eoi 0 s)\<lparr>ta := ?k, cur_pid := ?pid, prev_pid := parent_pid ?p\<rparr>)"
  have g: "get_pcb ?pid u = Some (pcbs u ?pid)" for u :: "'a proc_scheme"
    using active_okD [OF assms(2), of ?k] by (simp add: get_pcb_def)
  have "ta t = ?k" "ts t = ts s" by (simp_all add: t_def map_program_def set_pd_def Let_def)
  then have r: "route_video t = Some (set_pt_user VID_MEM_INDEX
      (\<lambda>e. e\<lparr>pte_addr_31_12 := of_nat (VID_MEM_INDEX + shown_page ?k s)\<rparr>) (t\<lparr>video_mem := vid_mem_pages ! shown_page ?k s\<rparr>))"
    by (simp add: route_video_eq out_page_def shown_page_def)
  have k: "Suc (ta s) mod 3 = ?k" by (simp add: next_term_def)
  have "switch_process s = do {
      s \<leftarrow> route_video t;
      Some (sti (s\<lparr>tss_esp0 := kernel_stack ?pid, ebp := cur_ebp ?p, esp := cur_esp ?p\<rparr>)) }"
    using assms(1) g k
    by (simp add: switch_process_def Let_def get_active_terminal_def running_def t_def set_cur_pid_def set_prev_pid_def)
  then show ?thesis unfolding r
    by (simp add: resumed_def Let_def sti_def t_def map_program_def set_pd_def set_pt_user_def send_eoi_eq)
qed

lemma pit_handler_eq:
  assumes "sched_inv s"
  shows "pit_handler s = Some (Ret 0, resumed (saved s))"
proof -
  have i: "terminal_init s > 3" "ta s < 3" "active_ok s" using assms by (auto simp: sched_inv_def screen_inv_def)
  have "save_context (cli s) = Some (saved (cli s))"
    using active_okD [OF i(3,2)] by (simp add: save_context_def get_pcb_def cli_def running_def saved_def)
  moreover have "switch_process (saved (cli s)) = Some (resumed (saved (cli s)))"
    by (rule switch_process_eq) (use i in \<open>simp_all add: saved_def upd_pcb_def cli_def active_ok_def\<close>)
  moreover have "resumed (saved (cli s)) = resumed (saved s)"
    by (simp add: resumed_def saved_def Let_def upd_pcb_def cli_def running_def shown_page_def map_program_def set_pd_def)
  ultimately show ?thesis using i(1) by (simp add: pit_handler_def saved_def upd_pcb_def cli_def)
qed

lemma resumed_fields:
  "ta (resumed s) = next_term (ta s)" "terminals (resumed s) = terminals s" "ts (resumed s) = ts s" "pcbs (resumed s) = pcbs s"
  "cur_pid (resumed s) = running (next_term (ta s)) s" "prev_pid (resumed s) = parent_pid (pcbs s (running (next_term (ta s)) s))"
  "esp (resumed s) = cur_esp (pcbs s (running (next_term (ta s)) s))" "ebp (resumed s) = cur_ebp (pcbs s (running (next_term (ta s)) s))"
  "pd (resumed s) = pd (map_program (running (next_term (ta s)) s) s)" "pmem (resumed s) = pmem s" "iflag (resumed s)"
  "tss_esp0 (resumed s) = kernel_stack (running (next_term (ta s)) s)" "pid_array (resumed s) = pid_array s"
  "terminal_init (resumed s) = terminal_init s" "kb_safe (resumed s) = kb_safe s" "keyboard_buf (resumed s) = keyboard_buf s"
  "key_idx (resumed s) = key_idx s" "optab (resumed s) = optab s" "process_rtc (resumed s) = process_rtc s" "fs_img (resumed s) = fs_img s"
  "video_ok (resumed s)" "term_init_done (resumed s) = term_init_done s" "running k (resumed s) = running k s"
  "terminal_rtc_count (resumed s) = terminal_rtc_count s" "terminal_rtc_wait (resumed s) = terminal_rtc_wait s"
  by (simp_all add: resumed_def Let_def kb_safe_def video_ok_def out_page_def shown_page_def running_def)

lemma saved_fields:
  "ta (saved s) = ta s" "terminals (saved s) = terminals s" "ts (saved s) = ts s" "running k (saved s) = running k s"
  "pcbs (saved s) = (pcbs s)(running (ta s) s := (pcbs s (running (ta s) s))\<lparr>cur_esp := esp s, cur_ebp := ebp s\<rparr>)"
  "pd (saved s) = pd s" "pmem (saved s) = pmem s" "pid_array (saved s) = pid_array s" "terminal_init (saved s) = terminal_init s"
  "kb_safe (saved s) = kb_safe s" "optab (saved s) = optab s" "process_rtc (saved s) = process_rtc s" "fs_img (saved s) = fs_img s"
  "cur_pid (saved s) = cur_pid s" "term_init_done (saved s) = term_init_done s" "esp (saved s) = esp s" "ebp (saved s) = ebp s"
  "terminal_rtc_count (saved s) = terminal_rtc_count s" "terminal_rtc_wait (saved s) = terminal_rtc_wait s"
  "pd (map_program pid (saved s)) = pd (map_program pid s)"
  by (simp_all add: saved_def upd_pcb_def kb_safe_def running_def map_program_def set_pd_def Let_def)

lemma sched_inv_switch: "sched_inv s \<Longrightarrow> sched_inv (resumed (saved s))"
  by (simp add: sched_inv_def screen_inv_def active_ok_def resumed_fields saved_fields)

text \<open>
  C16. The scheduler is round robin: with the three terminals running, a timer interrupt saves the registers
  of the interrupted process in its control block, makes the active process of the next terminal the current
  one with its parent, its memory, its kernel stack and its saved registers, routes video output to where its
  terminal is visible, and changes no memory, no terminal and no other control block; interrupts
  are enabled again and the scheduler's invariant holds for the next interrupt.
\<close>

theorem pit_round_robin:
  assumes "sched_inv s"
  shows "\<exists>s'. pit_handler s = Some (Ret 0, s') \<and> ta s' = next_term (ta s) \<and> cur_pid s' = running (next_term (ta s)) s
    \<and> pcbs s' = (pcbs s)(running (ta s) s := (pcbs s (running (ta s) s))\<lparr>cur_esp := esp s, cur_ebp := ebp s\<rparr>)
    \<and> esp s' = cur_esp (pcbs s' (cur_pid s')) \<and> ebp s' = cur_ebp (pcbs s' (cur_pid s'))
    \<and> prev_pid s' = parent_pid (pcbs s' (cur_pid s'))
    \<and> pd s' = pd (map_program (cur_pid s') s) \<and> tss_esp0 s' = kernel_stack (cur_pid s') \<and> video_ok s'
    \<and> pmem s' = pmem s \<and> terminals s' = terminals s \<and> pid_array s' = pid_array s \<and> iflag s' \<and> sched_inv s'"
  using pit_handler_eq [OF assms] sched_inv_switch [OF assms] by (simp add: resumed_fields saved_fields)


lemma three_shells_ok: "sched_inv three_shells" "ta three_shells = 0" "running k three_shells = int k"
  "esp three_shells = 0x800000" "ebp three_shells = 0x800000" "pcbs three_shells 1 = blank_pcb\<lparr>parent_pid := -1, cur_esp := 101, cur_ebp := 201\<rparr>"
  by (simp_all add: three_shells_def sched_inv_def screen_inv_def active_ok_def running_def kb_safe_def boot_proc_def process_init_def
      upd_term_def Let_def kbd.extend_def blank_defs cursor_ok_def list_all_iff)

theorem pit_round_robin_witness:
  "\<exists>s'. pit_handler three_shells = Some (Ret 0, s') \<and> ta s' = 1 \<and> cur_pid s' = 1 \<and> esp s' = 101 \<and> ebp s' = 201
     \<and> cur_esp (pcbs s' 0) = 0x800000"
  using pit_round_robin [OF three_shells_ok(1)] by (auto simp: three_shells_ok next_term_def)


end
