(* ===== verification/Kernel.thy ===== *)
theory Kernel
  imports Idt Pit
begin

text \<open>
  The kernel as a transition system, and the terminal switch that no code calls (\<open>set_active_terminal\<close> in
  \<^verbatim>\<open>code/processes.c\<close>).  A step is
  an interrupt, an exception, a system call that does not have to wait, or user code, which may
  change its registers and every byte its page tables let it reach.  The invariant says that the process
  table is a forest with one shell per terminal at its roots, that every terminal runs a leaf, and
  that the page tables map exactly the memory of the current process.
\<close>

definition set_active_terminal :: "int \<Rightarrow> 'a proc_scheme \<Rightarrow> (int \<times> 'a proc_scheme) option" where
  "set_active_terminal active_term s =
     (if active_term < 0 \<or> active_term \<ge> TOTAL_TERM then Some (-1, s)
      else do {
        s \<leftarrow> save_context s;
        let s = s\<lparr>ta := nat active_term\<rparr>;
        let active = active_pid (terminals s (ta s));
        (_, s) \<leftarrow> printf (bytes ''Switching to pid %d'' @ [0]) [Va_num (word_of_int active)] s;
        p \<leftarrow> get_pcb active s;
        let s = set_cur_pid active s;
        let s = set_prev_pid (parent_pid p) s;
        let s = map_program active s;
        let s = s\<lparr>tss_esp0 := cur_esp p\<rparr>;
        let s = s\<lparr>ebp := cur_ebp p, esp := cur_esp p\<rparr>;
        Some (0, s) })"

subsection \<open>Steps\<close>

text \<open>
  The quiet steps start and end no process: keyboard and clock interrupts, system calls on open files, and user
  code.  A read may wait while keys are pressed and the clock ticks.
\<close>

definition device_events :: "'a proc_scheme handlers \<Rightarrow> bool" where
  "device_events evs \<longleftrightarrow> (\<forall>e \<in> set evs. e = rtc_handler \<or> (\<exists>c. e = keyboard_handler c))"

inductive quiet :: "u32 \<Rightarrow> u32 \<Rightarrow> 'a proc_scheme \<Rightarrow> 'a proc_scheme \<Rightarrow> bool" for pt_base pt_user_base where
  keyboard: "keyboard_handler c s = Some s' \<Longrightarrow> quiet pt_base pt_user_base s s'"
| clock: "rtc_handler s = Some s' \<Longrightarrow> quiet pt_base pt_user_base s s'"
| call_open: "sys_open f s = Some (r, s') \<Longrightarrow> quiet pt_base pt_user_base s s'"
| call_close: "sys_close fd s = Some (r, s') \<Longrightarrow> quiet pt_base pt_user_base s s'"
| call_read: "device_events evs \<Longrightarrow> device_events late \<Longrightarrow> sys_read fd ptr n evs late s = Some (b, Returned r s')
    \<Longrightarrow> quiet pt_base pt_user_base s s'"
| call_write: "sys_write fd ptr n s = Some (r, s') \<Longrightarrow> quiet pt_base pt_user_base s s'"
| user: "(\<And>a. (\<And>va. translate pt_base pt_user_base s True va \<noteq> Some a) \<Longrightarrow> m a = pmem s a) \<Longrightarrow>
    quiet pt_base pt_user_base s (s\<lparr>pmem := m, esp := e, ebp := b\<rparr>)"

inductive kstep :: "u32 \<Rightarrow> u32 \<Rightarrow> 'a proc_scheme \<Rightarrow> 'a proc_scheme \<Rightarrow> bool" for pt_base pt_user_base where
  quiet_step: "quiet pt_base pt_user_base s s' \<Longrightarrow> kstep pt_base pt_user_base s s'"
| timer: "pit_handler s = Some (c, s') \<Longrightarrow> kstep pt_base pt_user_base s s'"
| exn: "unat n < 20 \<Longrightarrow> handle_exception n err s = Some (c, s') \<Longrightarrow> kstep pt_base pt_user_base s s'"
| call_execute: "sys_execute cmd s = Some (c, s') \<Longrightarrow> kstep pt_base pt_user_base s s'"
| call_halt: "sys_halt status s = Some (c, s') \<Longrightarrow> kstep pt_base pt_user_base s s'"

inductive_cases quietE: "quiet pt_base pt_user_base s s'"
inductive_cases kstepE: "kstep pt_base pt_user_base s s'"

subsection \<open>The invariant\<close>

text \<open>A process number in use, and the process started by another one: numbers 0 to 2 are the base shells.\<close>

definition in_use :: "'a proc_scheme \<Rightarrow> int \<Rightarrow> bool" where
  "in_use s pid \<longleftrightarrow> pid_array s ! nat pid \<noteq> 0"

definition child_of :: "'a proc_scheme \<Rightarrow> int \<Rightarrow> int \<Rightarrow> bool" where
  "child_of s i p \<longleftrightarrow> 3 \<le> i \<and> i < 6 \<and> in_use s i \<and> parent_pid (pcbs s i) = p"

text \<open>The processes of terminal \<open>k\<close>: the active one, its parent and so on, down to base shell \<open>k\<close>.\<close>

definition descends :: "'a proc_scheme \<Rightarrow> int \<Rightarrow> int \<Rightarrow> bool" where
  "descends s = (child_of s)\<^sup>*\<^sup>*"

definition chains :: "'a proc_scheme \<Rightarrow> bool" where
  "chains s \<longleftrightarrow> (\<forall>k < 3. descends s (running k s) (int k))
     \<and> (\<forall>i. 0 \<le> i \<and> i < 6 \<and> in_use s i \<longrightarrow> (\<exists>k < 3. descends s (running k s) i))"

definition tree_inv :: "'a proc_scheme \<Rightarrow> bool" where
  "tree_inv s \<longleftrightarrow>
     (\<forall>i. 0 \<le> i \<and> i \<le> 2 \<longrightarrow> in_use s i \<and> parent_pid (pcbs s i) = -1)
   \<and> (\<forall>i p. child_of s i p \<longrightarrow> 0 \<le> p \<and> p < 6 \<and> p \<noteq> i \<and> in_use s p)
   \<and> (\<forall>i j p. child_of s i p \<longrightarrow> child_of s j p \<longrightarrow> i = j)
   \<and> (\<forall>k < 3. 0 \<le> running k s \<and> running k s < 6 \<and> in_use s (running k s) \<and> (\<forall>i. \<not> child_of s i (running k s)))
   \<and> (\<forall>k < 3. \<forall>l < 3. running k s = running l s \<longrightarrow> k = l)
   \<and> cur_pid s = running (ta s) s \<and> chains s"

text \<open>The image the kernel runs from: well formed, with a shell, and with programs that fit their page.\<close>

definition image_ok :: "buf \<Rightarrow> bool" where
  "image_ok img \<longleftrightarrow> fs_wf img \<and> exec_file img (bytes ''shell'') \<noteq> None
     \<and> list_all (\<lambda>i. file_len img i \<le> 0x3B8000) [0..<img32 img 4]"

definition kernel_inv :: "u32 \<Rightarrow> u32 \<Rightarrow> 'a proc_scheme \<Rightarrow> bool" where
  "kernel_inv pt_base pt_user_base s \<longleftrightarrow> console_inv s \<and> rtc_inv s \<and> procs_ok s \<and> tree_inv s \<and> image_ok (fs_img s)
     \<and> terminal_init s > TOTAL_TERM \<and> term_init_done s
     \<and> page_inv pt_base pt_user_base (nat (cur_pid s) + 2) (VID_MEM_INDEX + out_page s) s"

definition good :: "'a proc_scheme \<Rightarrow> bool" where
  "good s \<longleftrightarrow> console_inv s \<and> rtc_inv s \<and> procs_ok s"

text \<open>A step that starts and ends no process and leaves the scheduler alone.\<close>

definition calm :: "'a proc_scheme \<Rightarrow> 'a proc_scheme \<Rightarrow> bool" where
  "calm s s' \<longleftrightarrow> pid_array s' = pid_array s \<and> (\<forall>q. parent_pid (pcbs s' q) = parent_pid (pcbs s q))
     \<and> (\<forall>k. running k s' = running k s) \<and> ta s' = ta s \<and> cur_pid s' = cur_pid s \<and> pd s' = pd s \<and> pt s' = pt s
     \<and> vid_frame (pt_user s) (pt_user s') \<and> fs_img s' = fs_img s \<and> terminal_init s' = terminal_init s
     \<and> term_init_done s' = term_init_done s \<and> (good s \<longrightarrow> good s')"

subsection \<open>Calm steps\<close>

lemma calm_refl [simp]: "calm s s"
  by (simp add: calm_def)

lemma calm_trans: "calm s t \<Longrightarrow> calm t u \<Longrightarrow> calm s u"
  using vid_frame_trans [of "pt_user s" "pt_user t" "pt_user u"] unfolding calm_def by auto

lemma tree_inv_cong:
  assumes "\<And>q. in_use s' q = in_use s q" "\<And>q. parent_pid (pcbs s' q) = parent_pid (pcbs s q)" "\<And>k. running k s' = running k s"
    and "cur_pid s' = running (ta s') s"
  shows "tree_inv s \<Longrightarrow> tree_inv s'"
proof -
  have "child_of s' = child_of s" using assms(1,2) by (intro ext) (simp add: child_of_def)
  then show "tree_inv s \<Longrightarrow> tree_inv s'" using assms unfolding tree_inv_def chains_def descends_def by simp
qed

lemma ucast_of_nat_20: "(ucast (of_nat w :: u32) :: 20 word) = of_nat w"
  by (simp add: unsigned_of_nat word_of_nat_eq_iff take_bit_take_bit)

lemma page_inv_vid:
  assumes "page_inv b u f v s" "pd s' = pd s" "pt s' = pt s" "vid_frame (pt_user s) (pt_user s')"
    and "pte_addr_31_12 (pt_user s' VID_MEM_INDEX) = of_nat w"
  shows "page_inv b u f w s'"
proof -
  obtain a where a: "pt_user s' = (pt_user s)(VID_MEM_INDEX := (pt_user s VID_MEM_INDEX)\<lparr>pte_addr_31_12 := a\<rparr>)"
    using assms(4) by (auto simp: vid_frame_def)
  then have "a = of_nat w" using assms(5) by simp
  moreover have "pt_user s VID_MEM_INDEX = pte True True (of_nat v)" using assms(1) by (simp add: page_inv_def)
  ultimately have "pt_user s' VID_MEM_INDEX = pte True True (of_nat w)" using a by (simp add: pte_def ucast_of_nat_20)
  moreover have "pt_user s' i = pt_user s i" if "i \<noteq> VID_MEM_INDEX" for i using a that by simp
  ultimately show ?thesis using assms(1-3) by (simp add: page_inv_def)
qed

lemma kernel_invD:
  assumes "kernel_inv b u s"
  shows "console_inv s" "rtc_inv s" "procs_ok s" "tree_inv s" "image_ok (fs_img s)" "terminal_init s > TOTAL_TERM" "term_init_done s"
    "page_inv b u (nat (cur_pid s) + 2) (VID_MEM_INDEX + out_page s) s" "good s"
  using assms unfolding kernel_inv_def good_def by auto

lemma calmD:
  assumes "calm s s'"
  shows "pid_array s' = pid_array s" "parent_pid (pcbs s' q) = parent_pid (pcbs s q)" "running k s' = running k s" "ta s' = ta s"
    "cur_pid s' = cur_pid s" "pd s' = pd s" "pt s' = pt s" "vid_frame (pt_user s) (pt_user s')" "fs_img s' = fs_img s"
    "terminal_init s' = terminal_init s" "term_init_done s' = term_init_done s" "good s \<Longrightarrow> good s'"
  using assms unfolding calm_def by auto

lemma tree_inv_cur: "tree_inv s \<Longrightarrow> cur_pid s = running (ta s) s"
  unfolding tree_inv_def by blast

lemma kernel_inv_calm:
  assumes "kernel_inv b u s" "calm s s'"
  shows "kernel_inv b u s'"
proof -
  note i = kernel_invD [OF assms(1)] and c = calmD [OF assms(2)]
  have d: "console_inv s'" "rtc_inv s'" "procs_ok s'" "term_init_done s'" using i c by (simp_all add: good_def)
  then have "video_ok s'" by (simp add: console_inv_def)
  then have "pte_addr_31_12 (pt_user s' VID_MEM_INDEX) = of_nat (VID_MEM_INDEX + out_page s')" by (simp add: video_ok_def)
  then have "page_inv b u (nat (cur_pid s) + 2) (VID_MEM_INDEX + out_page s') s'"
    by (rule page_inv_vid [OF i(8) c(6,7,8)])
  moreover have "cur_pid s' = running (ta s') s" using tree_inv_cur [OF i(4)] c(4,5) by simp
  then have "tree_inv s'" using tree_inv_cong [of s' s, OF _ c(2,3)] c(1) i(4) by (simp add: in_use_def)
  ultimately show ?thesis unfolding kernel_inv_def using i d c by simp
qed

lemma calm_console:
  assumes "console_step s s'"
  shows "calm s s'"
proof -
  have f: "kb_frame s s'" and c: "console_inv s \<longrightarrow> console_inv s'" using assms by (simp_all add: console_step_def)
  note k = kb_frame_proc [OF f]
  have k': "pt s' = pt s" "vid_frame (pt_user s) (pt_user s')" "term_init_done s' = term_init_done s"
    "terminal_rtc_count s' = terminal_rtc_count s" "terminal_rtc_wait s' = terminal_rtc_wait s"
    using f by (simp_all add: kb_frame_def)
  have "rtc_inv s'" if "rtc_inv s" "console_inv s'"
    using that k(12,13) k' by (simp add: rtc_inv_def console_inv_def active_ok_def)
  then have "good s \<longrightarrow> good s'" using c procs_ok_frame [OF f] by (auto simp: good_def)
  then show ?thesis using k k' by (simp add: calm_def running_def)
qed

lemma calm_set_fd:
  assumes "file_op_table_ptr e \<noteq> Null_ptr \<or> fd_flags e = 0"
  shows "calm s (set_fd pid i e s)"
proof -
  have "procs_ok (set_fd pid i e s)" if "procs_ok s"
    by (rule procs_okI)
      (use that pcb_ok_set_fd [OF _ assms] procs_okD(1) [OF that] tables_ready_cong [of "set_fd pid i e s" s]
        in \<open>auto simp: procs_ok_def set_fd_def upd_pcb_def\<close>)
  moreover have "console_inv (set_fd pid i e s) = console_inv s" "rtc_inv (set_fd pid i e s) = rtc_inv s"
    by (simp_all add: set_fd_def upd_pcb_def console_inv_def screen_inv_def kb_safe_def video_ok_def out_page_def rtc_inv_def active_ok_def)
  ultimately show ?thesis by (simp add: calm_def good_def) (simp add: set_fd_def upd_pcb_def running_def)
qed

lemma calm_read_index: "calm s (s\<lparr>read_index := x\<rparr>)"
proof -
  have "procs_ok (s\<lparr>read_index := x\<rparr>) = procs_ok s"
    using tables_ready_cong [of "s\<lparr>read_index := x\<rparr>" s] by (simp add: procs_ok_def)
  then show ?thesis
    by (simp add: calm_def good_def running_def console_inv_def screen_inv_def kb_safe_def video_ok_def out_page_def rtc_inv_def active_ok_def)
qed

lemma calm_process_rtc:
  assumes "freq_ok f"
  shows "calm s (s\<lparr>process_rtc := (process_rtc s)[i := f]\<rparr>)"
proof -
  have "procs_ok (s\<lparr>process_rtc := (process_rtc s)[i := f]\<rparr>) = procs_ok s"
    using tables_ready_cong [of "s\<lparr>process_rtc := (process_rtc s)[i := f]\<rparr>" s] by (simp add: procs_ok_def)
  then show ?thesis using assms
    by (simp add: calm_def good_def running_def console_inv_def screen_inv_def kb_safe_def video_ok_def out_page_def rtc_inv_def active_ok_def
        list_all_update)
qed

lemma set_process_rtc_calm: "freq_ok f \<Longrightarrow> set_process_rtc f s = Some s' \<Longrightarrow> calm s s'"
  by (auto simp: set_process_rtc_def wr_int_def wr_def calm_process_rtc split: if_splits bind_splits)

lemma freq_ok_ends [simp]: "freq_ok 2" "freq_ok 1024"
  by (simp_all add: freq_ok_def)

subsection \<open>System calls that start and end no process\<close>

lemma calm_open:
  assumes "sys_open f s = Some (r, s')"
  shows "calm s s'"
proof -
  have e: "calm s (set_fd pid i (open_entry t ino) s)" if "t \<noteq> Null_ptr" for pid i t ino
    by (rule calm_set_fd) (simp add: open_entry_def that)
  have o: "calm s u" if "call_open g f t = Some (q, u)" "calm s t" for g t q u
    using that by (cases g) (auto simp: call_open_def rtc_open_def split: prod.splits dest!: set_process_rtc_calm [rotated]
        intro: calm_trans calm_read_index)
  show ?thesis using assms unfolding sys_open_def
    by (auto simp: Let_def e split: bind_splits sum.splits if_splits prod.splits intro: o)
qed

lemma calm_close:
  assumes "sys_close fd s = Some (r, s')"
  shows "calm s s'"
proof -
  have c: "calm s (set_fd pid i closed_entry t)" if "calm s t" for pid i t
    by (rule calm_trans [OF that calm_set_fd]) (simp add: closed_entry_def)
  have o: "calm s u" if "call_close g s = Some (q, u)" for g q u
    using that by (cases g) (auto simp: call_close_def rtc_close_def calm_read_index dest!: set_process_rtc_calm [rotated])
  show ?thesis using assms unfolding sys_close_def
    by (auto simp: Let_def split: bind_splits if_splits prod.splits intro!: c intro: o)
qed

lemma pcb_ok_move:
  assumes "pcb_ok p"
  shows "pcb_ok (p\<lparr>file_descriptor_table := (file_descriptor_table p)[i := (file_descriptor_table p ! i)\<lparr>file_pos := x\<rparr>]\<rparr>)"
proof (cases "i < length (file_descriptor_table p)")
  case True
  then have "fd_flags (file_descriptor_table p ! i) = 0 \<or> file_op_table_ptr (file_descriptor_table p ! i) \<noteq> Null_ptr"
    using assms by (simp add: pcb_ok_def list_all_length)
  then show ?thesis by (intro pcb_ok_set_fd [OF assms]) auto
qed (use assms in \<open>simp add: list_update_beyond\<close>)

lemma calm_move:
  "calm s (set_fd pid i ((fdt_of pid s ! i)\<lparr>file_pos := x\<rparr>) s)"
proof -
  let ?s = "set_fd pid i ((fdt_of pid s ! i)\<lparr>file_pos := x\<rparr>) s"
  have "procs_ok ?s" if "procs_ok s"
    by (rule procs_okI)
      (use that pcb_ok_move [OF procs_okD(1) [OF that]] procs_okD(1) [OF that] tables_ready_cong [of ?s s]
        in \<open>auto simp: procs_ok_def set_fd_def upd_pcb_def fdt_of_def\<close>)
  moreover have "console_inv ?s = console_inv s" "rtc_inv ?s = rtc_inv s"
    by (simp_all add: set_fd_def upd_pcb_def console_inv_def screen_inv_def kb_safe_def video_ok_def out_page_def rtc_inv_def active_ok_def)
  ultimately show ?thesis by (simp add: calm_def good_def) (simp add: set_fd_def upd_pcb_def running_def)
qed

lemma calm_clock:
  assumes "good s" "rtc_handler s = Some s'"
  shows "calm s s'"
proof -
  have "rtc_inv s" using assms(1) by (simp add: good_def)
  from rtc_handler_ok [OF this] obtain t where t: "rtc_handler s = Some t" "rtc_inv t" "terminals t = terminals s" "ts t = ts s" "ta t = ta s"
    "video_mem t = video_mem s" "process_rtc t = process_rtc s" "cur_pid t = cur_pid s" "rtc.more t = rtc.more s" by blast
  have m: "pd t = pd s" "pt t = pt s" "pt_user t = pt_user s" "keyboard_buf t = keyboard_buf s" "key_idx t = key_idx s"
    "term_init_done t = term_init_done s" "pcbs t = pcbs s" "pid_array t = pid_array s" "optab t = optab s" "fs_img t = fs_img s"
    "terminal_init t = terminal_init s" using t(9) by (cases s; cases t; simp)+
  have "s' = t" using assms(2) t(1) by simp
  moreover have "good t"
    using assms(1) t m tables_ready_cong [OF m(9)] by (simp add: good_def console_inv_def screen_inv_def kb_safe_def video_ok_def out_page_def procs_ok_def)
  ultimately show ?thesis using t m by (simp add: calm_def running_def)
qed

lemma calm_keyboard:
  assumes "good s" "keyboard_handler c s = Some s'"
  shows "calm s s'"
proof -
  have "console_inv s" using assms(1) by (simp add: good_def)
  then obtain t where "keyboard_handler c s = Some t" "console_step s t" using keyboard_handler_step by blast
  then show ?thesis using assms(2) calm_console by simp
qed

lemma calm_event: "device_events (e # evs) \<Longrightarrow> good s \<Longrightarrow> e s = Some t \<Longrightarrow> calm s t \<and> good t \<and> device_events evs"
  using calm_clock [of s t] calm_keyboard [of s _ t] calmD(12) [of s t] by (auto simp: device_events_def)

lemma calm_wait: "wait_while c evs s = Some (w, t) \<Longrightarrow> device_events evs \<Longrightarrow> good s \<Longrightarrow> calm s t \<and> good t"
proof (induction evs arbitrary: s)
  case (Cons e evs)
  then show ?case using calm_event [of e evs s] by (fastforce split: if_splits bind_splits intro: calm_trans)
qed simp

lemma calm_each: "each (\<lambda>e. e) evs s = Some t \<Longrightarrow> device_events evs \<Longrightarrow> good s \<Longrightarrow> calm s t \<and> good t"
proof (induction evs arbitrary: s)
  case (Cons e evs)
  then show ?case using calm_event [of e evs s] by (fastforce split: bind_splits intro: calm_trans)
qed simp

lemma calm_flag: "calm s (cli s)" "calm s (sti s)"
  by (rule calm_console, rule console_step_machine)+

lemma calm_terminal_read:
  assumes "good s" "device_events evs" "device_events late" "terminal_read ptr n evs late s = Some (b, Returned r s')"
  shows "calm s s'"
proof (cases "\<exists>b. ptr = Some b \<and> 0 \<le> n")
  case True
  then obtain t u v q where t: "wait_while typing evs (sti s) = Some (False, t)" "each (\<lambda>e. e) late t = Some u"
    "clear_keyboard_buf_caller (cli u) = Some (q, v)" "s' = sti v"
    using assms(4) by (auto simp: terminal_read_def Let_def split: bind_splits prod.splits if_splits)
  have s: "good (sti s)" using calmD(12) [OF calm_flag(2) assms(1)] .
  then have ct: "calm s t" "good t" using calm_wait [OF t(1) assms(2)] calm_trans [OF calm_flag(2)] by blast+
  then have cu: "calm s u" "good u" using calm_each [OF t(2) assms(3)] calm_trans by blast+
  then have c: "calm s (cli u)" "good (cli u)" using calm_trans [OF _ calm_flag(1)] calmD(12) [OF calm_flag(1)] by blast+
  then have "console_inv (cli u)" by (simp add: good_def)
  then have "console_step (cli u) v" using kb_ops_safe(3) t(3) by fastforce
  then show ?thesis using t(4) calm_trans [OF c(1) calm_trans [OF calm_console calm_flag(2)]] by simp
qed (use assms(4) in \<open>auto simp: terminal_read_def split: option.splits if_splits\<close>)

lemma calm_rtc_wait:
  assumes "length ws = length (terminal_rtc_wait s)"
  shows "calm s (s\<lparr>terminal_rtc_wait := ws\<rparr>)"
proof -
  have "procs_ok (s\<lparr>terminal_rtc_wait := ws\<rparr>) = procs_ok s"
    using tables_ready_cong [of "s\<lparr>terminal_rtc_wait := ws\<rparr>" s] by (simp add: procs_ok_def)
  then show ?thesis using assms
    by (simp add: calm_def good_def running_def console_inv_def screen_inv_def kb_safe_def video_ok_def out_page_def rtc_inv_def active_ok_def)
qed

lemma calm_rtc_read:
  assumes "good s" "device_events evs" "rtc_read evs s = Some (Returned r s')"
  shows "calm s s'"
proof -
  define ws where "ws = (terminal_rtc_wait s)[get_active_terminal s := 1]"
  have w: "length ws = length (terminal_rtc_wait s)"
    "wait_while (rtc_waiting (get_active_terminal s)) evs (s\<lparr>terminal_rtc_wait := ws\<rparr>) = Some (False, s')"
    using assms(3) by (auto simp: ws_def rtc_read_def wr_def Let_def split: bind_splits prod.splits if_splits)
  have c: "calm s (s\<lparr>terminal_rtc_wait := ws\<rparr>)" by (rule calm_rtc_wait [OF w(1)])
  then show ?thesis using calm_wait [OF w(2) assms(2) calmD(12) [OF c assms(1)]] calm_trans by blast
qed

lemma calm_read:
  assumes "good s" "device_events evs" "device_events late" "sys_read fd ptr n evs late s = Some (b, Returned r s')"
  shows "calm s s'"
proof -
  have d: "calm s u" if "call_read g e ptr n evs late s = Some (c, Returned k u)" for g e c k u
    using that calm_terminal_read [OF assms(1-3)] calm_rtc_read [OF assms(1,2)]
    by (cases g) (auto simp: call_read_def calm_read_index split: bind_splits prod.splits)
  show ?thesis using assms(4) unfolding sys_read_def
    by (auto simp: Let_def split: bind_splits if_splits prod.splits outcome.splits intro!: calm_trans [OF d calm_move])
qed

lemma write_loop_step: "write_loop b n s = Some u \<Longrightarrow> console_step s u"
  by (induction b n s rule: write_loop.induct) (auto intro: console_step_trans [OF console_step_putc])

lemma calm_write:
  assumes "sys_write fd ptr n s = Some (r, s')"
  shows "calm s s'"
proof -
  have m: "calm s (cli s)" "calm s (sti s)" for s :: "'a proc_scheme"
    by (rule calm_console, rule console_step_machine)+
  have t: "calm s u" if "terminal_write p n s = Some (q, u)" for p q u
    using that write_loop_step calm_console
    by (fastforce simp: terminal_write_def split: option.splits if_splits bind_splits)
  have w: "calm s u" if "rtc_write p n s = Some (q, u)" for p q u
    using that by (auto simp: rtc_write_def Let_def freq_ok_def m split: bind_splits if_splits
        intro: calm_trans [OF m(1)] calm_trans [OF _ m(2)] dest!: set_process_rtc_calm [rotated])
  show ?thesis using assms unfolding sys_write_def
    by (auto simp: call_write_def split: bind_splits if_splits write_fn.splits dest: t w)
qed

subsection \<open>The process forest\<close>

lemma tree_invD:
  assumes "tree_inv s"
  shows "0 \<le> i \<Longrightarrow> i \<le> 2 \<Longrightarrow> in_use s i" "0 \<le> i \<Longrightarrow> i \<le> 2 \<Longrightarrow> parent_pid (pcbs s i) = -1"
    "child_of s i p \<Longrightarrow> 0 \<le> p \<and> p < 6 \<and> p \<noteq> i \<and> in_use s p"
    "child_of s i p \<Longrightarrow> child_of s j p \<Longrightarrow> i = j"
    "k < 3 \<Longrightarrow> 0 \<le> running k s \<and> running k s < 6 \<and> in_use s (running k s)" "k < 3 \<Longrightarrow> \<not> child_of s i (running k s)"
    "k < 3 \<Longrightarrow> l < 3 \<Longrightarrow> running k s = running l s \<Longrightarrow> k = l" "cur_pid s = running (ta s) s"
    "chains s"
  using assms unfolding tree_inv_def by blast+

lemma chainsD:
  assumes "chains s"
  shows "k < 3 \<Longrightarrow> descends s (running k s) (int k)" "0 \<le> i \<Longrightarrow> i < 6 \<Longrightarrow> in_use s i \<Longrightarrow> \<exists>k < 3. descends s (running k s) i"
  using assms unfolding chains_def by blast+

lemma tree_execute:
  assumes t: "tree_inv s" and l: "length (pid_array s) = 6" and i: "least_free (pid_array s) i" and a: "ta s < 3"
    and s': "pid_array s' = (pid_array s)[i := 1]" "parent_pid (pcbs s' (int i)) = cur_pid s"
      "\<And>q. q \<noteq> int i \<Longrightarrow> parent_pid (pcbs s' q) = parent_pid (pcbs s q)"
      "running (ta s) s' = int i" "\<And>k. k \<noteq> ta s \<Longrightarrow> running k s' = running k s" "ta s' = ta s" "cur_pid s' = int i"
  shows "tree_inv s'" "3 \<le> i"
proof -
  note d = tree_invD [OF t]
  have f: "\<not> in_use s (int i)" "i < 6" using i by (simp_all add: least_free_def in_use_def)
  show i3: "3 \<le> i" using d(1) [of "int i"] f(1) by linarith
  have u: "in_use s' q \<longleftrightarrow> q = int i \<or> in_use s q" if "0 \<le> q" for q
    using that l f(2) by (auto simp: in_use_def s'(1) nth_list_update)
  have c: "child_of s' j p \<longleftrightarrow> j = int i \<and> p = cur_pid s \<or> child_of s j p" for j p
    using u [of j] f i3 s'(2) s'(3) [of j] by (cases "j = int i") (auto simp: child_of_def)
  have r: "0 \<le> cur_pid s" "cur_pid s < 6" "in_use s (cur_pid s)" "cur_pid s \<noteq> int i" "\<not> child_of s j (cur_pid s)" for j
    using d(5) [OF a] d(6) [OF a, of j] f(1) by (auto simp: d(8))
  have n: "\<not> child_of s j (int i)" for j using d(3) [of j "int i"] f(1) by blast
  have k: "running k s \<noteq> cur_pid s" "running k s \<noteq> int i" if "k < 3" "k \<noteq> ta s" for k
    using d(7) [OF that(1) a] d(5) [OF that(1)] that(2) f(1) by (auto simp: d(8))
  show "tree_inv s'" unfolding tree_inv_def
  proof (intro conjI allI impI; (elim conjE)?)
    fix q :: int assume q: "0 \<le> q" "q \<le> 2"
    show "in_use s' q" using u [OF q(1)] d(1) [OF q] by blast
    show "parent_pid (pcbs s' q) = -1" using d(2) [OF q] s'(3) [of q] q i3 by fastforce
  next
    fix j p assume "child_of s' j p"
    then have "0 \<le> p \<and> p < 6 \<and> p \<noteq> j \<and> in_use s p"
      using c [of j p] r(1-4) d(3) [of j p] by (cases "child_of s j p") simp_all
    then show "0 \<le> p" "p < 6" "p \<noteq> j" "in_use s' p" using u [of p] by simp_all
  next
    fix j j' p assume "child_of s' j p" "child_of s' j' p"
    then show "j = j'" using c [of j p] c [of j' p] r(5) [of j] r(5) [of j'] d(4) [of j p j'] by auto
  next
    fix k :: nat assume k3: "k < 3"
    show "0 \<le> running k s'" "running k s' < 6" "in_use s' (running k s')"
      using s'(4) s'(5) [of k] d(5) [OF k3] f(2) u [of "running k s'"] by (cases "k = ta s"; simp)+
    show "\<not> child_of s' j (running k s')" for j
      using c s'(4) s'(5) [of k] n r(4) k [OF k3] d(6) [OF k3] by (cases "k = ta s") auto
  next
    fix k m :: nat assume "k < 3" "m < 3" "running k s' = running m s'"
    then show "k = m" using s'(4,5) k d(7) by (cases "k = ta s"; cases "m = ta s") auto
  next
    show "cur_pid s' = running (ta s') s'" using s' by simp
  next
    have m: "descends s' x y" if "descends s x y" for x y
      using that c rtranclp_mono [of "child_of s" "child_of s'"] unfolding descends_def by blast
    have i': "descends s' (int i) y" if "descends s (running (ta s) s) y" for y
      using m [OF that] c [of "int i" "cur_pid s"] unfolding descends_def by (simp add: d(8) converse_rtranclp_into_rtranclp)
    have "descends s' (running k s') y" if "descends s (running k s) y" for k y
      using that m i' s'(4) s'(5) [of k] by (cases "k = ta s") simp_all
    moreover have "descends s' (running (ta s) s') (int i)" by (simp add: s'(4) descends_def)
    ultimately show "chains s'" unfolding chains_def
      using chainsD [OF d(9)] u a by (metis)
  qed
qed

lemma tree_halt:
  assumes t: "tree_inv s" and l: "length (pid_array s) = 6" and a: "ta s < 3" and p: "parent_pid (pcbs s (cur_pid s)) \<noteq> -1"
    and s': "pid_array s' = (pid_array s)[nat (cur_pid s) := 0]" "\<And>q. parent_pid (pcbs s' q) = parent_pid (pcbs s q)"
      "running (ta s) s' = parent_pid (pcbs s (cur_pid s))" "\<And>k. k \<noteq> ta s \<Longrightarrow> running k s' = running k s" "ta s' = ta s"
      "cur_pid s' = parent_pid (pcbs s (cur_pid s))"
  shows "tree_inv s'"
proof -
  note d = tree_invD [OF t]
  let ?c = "cur_pid s" and ?p = "parent_pid (pcbs s (cur_pid s))"
  have r: "0 \<le> ?c" "?c < 6" "in_use s ?c" using d(5) [OF a] by (simp_all add: d(8))
  have c3: "3 \<le> ?c" using d(2) [of ?c] r(1) p by linarith
  have ch: "child_of s ?c ?p" using r c3 by (simp add: child_of_def)
  note pp = d(3) [OF ch]
  have u: "in_use s' q \<longleftrightarrow> q \<noteq> ?c \<and> in_use s q" if "0 \<le> q" for q
    using that l r by (auto simp: in_use_def s'(1) nth_list_update)
  have c: "child_of s' j q \<longleftrightarrow> j \<noteq> ?c \<and> child_of s j q" for j q
    using u [of j] s'(2) [of j] by (auto simp: child_of_def)
  have k: "running k s \<noteq> ?c" "running k s \<noteq> ?p" if "k < 3" "k \<noteq> ta s" for k
    using d(7) [OF that(1) a] that(2) d(6) [OF that(1), of ?c] ch by (auto simp: d(8))
  show "tree_inv s'" unfolding tree_inv_def
  proof (intro conjI allI impI; (elim conjE)?)
    fix q :: int assume q: "0 \<le> q" "q \<le> 2"
    show "in_use s' q" using u [OF q(1)] d(1) [OF q] c3 q by auto
    show "parent_pid (pcbs s' q) = -1" using d(2) [OF q] s'(2) by simp
  next
    fix j q assume "child_of s' j q"
    then have j: "child_of s j q" "j \<noteq> ?c" using c by blast+
    have "q \<noteq> ?c" using j(1) d(6) [OF a, of j] by (auto simp: d(8))
    then show "0 \<le> q" "q < 6" "q \<noteq> j" "in_use s' q" using d(3) [OF j(1)] u [of q] by blast+
  next
    fix j j' q assume "child_of s' j q" "child_of s' j' q"
    then show "j = j'" using c d(4) by blast
  next
    fix k :: nat assume k3: "k < 3"
    show "0 \<le> running k s'" "running k s' < 6" "in_use s' (running k s')"
      using s'(3) s'(4) [of k] d(5) [OF k3] pp u [of "running k s'"] k [OF k3] by (cases "k = ta s"; simp)+
    show "\<not> child_of s' j (running k s')" for j
      using c s'(3) s'(4) [of k] d(4) [OF ch, of j] d(6) [OF k3, of j] by (cases "k = ta s") auto
  next
    fix k m :: nat assume "k < 3" "m < 3" "running k s' = running m s'"
    then show "k = m" using s'(3,4) k d(7) by (cases "k = ta s"; cases "m = ta s") auto
  next
    show "cur_pid s' = running (ta s') s'" using s' by simp
  next
    have m: "descends s' x y" if "descends s x y" "x \<noteq> ?c" for x y
      using that(1) unfolding descends_def
    proof (induction rule: rtranclp_induct)
      case (step y z)
      have "y \<noteq> ?c" using step(1) that(2) d(6) [OF a] by (auto simp: d(8) elim: rtranclp.cases)
      then have "child_of s' y z" using step(2) c by blast
      then show ?case using step(3) by (rule rtranclp.rtrancl_into_rtrancl [rotated])
    qed simp
    have p': "descends s' ?p y" if "descends s ?c y" "y \<noteq> ?c" for y
    proof -
      from that(1) have "\<exists>z. child_of s ?c z \<and> descends s z y"
        unfolding descends_def by (cases rule: converse_rtranclpE) (use that(2) in auto)
      then obtain z where "child_of s ?c z" "descends s z y" by blast
      then show ?thesis using m [of ?p y] pp by (auto simp: child_of_def)
    qed
    have g: "descends s' (running k s') y" if "k < 3" "descends s (running k s) y" "y \<noteq> ?c" for k y
      using that p' [of y] m [of "running k s" y] k(1) [of k] s'(3) s'(4) [of k] by (cases "k = ta s") (simp_all add: d(8))
    then show "chains s'" unfolding chains_def using chainsD [OF d(9)] u c3 by (metis (no_types, opaque_lifting) of_nat_less_iff of_nat_numeral not_le)
  qed
qed

subsection \<open>Starting and ending processes\<close>

lemma page_inv_cong: "page_inv b u f v s \<Longrightarrow> pd s' = pd s \<Longrightarrow> pt s' = pt s \<Longrightarrow> pt_user s' = pt_user s \<Longrightarrow> page_inv b u f v s'"
  by (simp add: page_inv_def)

lemma map_program_pages: "pt (map_program pid s) = pt s" "pt_user (map_program pid s) = pt_user s"
  by (simp_all add: map_program_def set_pd_def Let_def)

lemma page_inv_remap:
  assumes "page_inv b u f v s" "0 \<le> pid" "pd s' = pd (map_program pid s)" "pt s' = pt s" "pt_user s' = pt_user s"
  shows "page_inv b u (nat pid + 2) v s'"
  by (rule page_inv_cong [OF page_inv_map_program [OF assms(1,2)]]) (use assms in \<open>simp_all add: map_program_pages\<close>)

lemma fresh_pcb_ok:
  assumes "length args < 128" "length (cmd_args p) = 128"
  shows "pcb_ok (fresh_pcb pid parent args e0 e1 p)"
  using assms by (simp add: pcb_ok_def fresh_pcb_def std_entry_def closed_entry_def list_all_iff)

text \<open>A process started as number \<open>i\<close> in the active terminal, whatever else its start changes.\<close>

lemma good_started:
  assumes "good s" "i < 6" "length args < 128"
  shows "good (started (ta s) bs args (chosen i s))"
proof -
  let ?s = "started (ta s) bs args (chosen i s)"
  have p: "procs_ok s" "console_inv s" "rtc_inv s" using assms(1) by (simp_all add: good_def)
  have "procs_ok ?s"
    by (rule procs_okI)
      (use p(1) assms(2,3) tables_ready_cong [of ?s s] procs_okD(1,3) [OF p(1)] in \<open>auto simp: procs_ok_def fresh_pcb_ok\<close>)
  moreover have "console_inv ?s"
    using p(2) by (auto simp: console_inv_def screen_inv_def kb_safe_def video_ok_def out_page_def list_all_iff cursor_ok_def)
  moreover have "rtc_inv ?s"
    using p(3) assms(2) by (auto simp: rtc_inv_def screen_inv_def active_ok_def list_all_iff cursor_ok_def)
  ultimately show ?thesis by (simp add: good_def)
qed

lemma page_inv_started:
  assumes "page_inv b u f v s"
  shows "page_inv b u (i + 2) v (started (ta s) bs args (chosen i s))"
proof -
  let ?s = "started (ta s) bs args (chosen i s)"
  have q: "pt_user s VID_MEM_INDEX = pte True True (of_nat v)" using assms by (simp add: page_inv_def)
  have "(pt_user s VID_MEM_INDEX)\<lparr>pte_p := True\<rparr> = pt_user s VID_MEM_INDEX" unfolding q by (simp add: pte_def)
  then have "(pt_user s)(VID_MEM_INDEX := (pt_user s VID_MEM_INDEX)\<lparr>pte_p := True\<rparr>) = pt_user s" by simp
  moreover have "pd (map_program (int i) (chosen i s)) = pd (map_program (int i) s)" by (simp add: map_program_def set_pd_def Let_def)
  ultimately show ?thesis using page_inv_remap [OF assms, of "int i" ?s] by simp
qed

lemma out_page_started [simp]: "out_page (started k bs args (chosen i s)) = out_page s"
  by (simp add: out_page_def)

lemma image_okD:
  assumes "image_ok img"
  shows "fs_wf img" "\<exists>ino. exec_file img (bytes ''shell'') = Some ino" "exec_file img name = Some ino \<Longrightarrow> file_len img (unat ino) \<le> 0x3B8000"
  using assms by (auto simp: image_ok_def exec_file_def list_all_iff split: option.splits sum.splits if_splits)

lemma parse_args_bound: "parse_command command = Some (name, args) \<Longrightarrow> length args < 128"
  by (auto simp: parse_command_def split: bind_splits prod.splits if_splits)

lemma free_or_full: "length arr = 6 \<Longrightarrow> (\<exists>i. least_free arr i) \<or> list_all (\<lambda>v. v \<noteq> 0) arr"
  using find_pid_least [of arr] by (auto simp: list_all_length)

lemma calm_cli: "calm s (cli s)"
  by (rule calm_console) (rule console_step_machine)

lemma calm_prev_pid: "calm s (s\<lparr>prev_pid := x\<rparr>)"
proof -
  have "procs_ok (s\<lparr>prev_pid := x\<rparr>) = procs_ok s"
    using tables_ready_cong [of "s\<lparr>prev_pid := x\<rparr>" s] by (simp add: procs_ok_def)
  then show ?thesis
    by (simp add: calm_def good_def running_def console_inv_def screen_inv_def kb_safe_def video_ok_def out_page_def rtc_inv_def active_ok_def)
qed

lemma kernel_inv_execute:
  assumes "kernel_inv b u s" "sys_execute command s = Some (c, s')"
  shows "kernel_inv b u s'"
proof -
  note k = kernel_invD [OF assms(1)]
  have wf: "fs_wf (fs_img s)" using image_okD(1) [OF k(5)] .
  have l: "length (pid_array s) = 6" "ta s < 3" using k(1,3) by (simp_all add: procs_ok_def console_inv_def screen_inv_def)
  obtain name args where p: "parse_command command = Some (name, args)"
    using assms(2) by (auto simp: sys_execute_def Let_def split: bind_splits)
  note e = sys_execute_eq [OF wf k(3) p]
  show ?thesis
  proof (cases "exec_file (fs_img s) name")
    case None
    then show ?thesis using e(1) assms(2) kernel_inv_calm [OF assms(1) calm_cli] by simp
  next
    case (Some ino)
    show ?thesis
    proof (cases "\<exists>i. least_free (pid_array s) i")
      case True
      then obtain i where i: "least_free (pid_array s) i" by blast
      have i6: "i < 6" using i by (simp add: least_free_def)
      let ?bs = "file_content (fs_img s) (unat ino)"
      have s': "s' = started (ta s) ?bs args (chosen i s)"
        using sys_execute_started [OF wf k(3) p Some i image_okD(3) [OF k(5) Some]] assms(2) by auto
      have i3: "3 \<le> i" using tree_invD(1) [OF k(4), of "int i"] i i6 by (force simp: least_free_def in_use_def)
      have "tree_inv s'"
        by (rule tree_execute [OF k(4) l(1) i l(2)]) (use i3 in \<open>auto simp: s' running_def fresh_pcb_def\<close>)
      then show ?thesis
        using good_started [OF k(9) i6 parse_args_bound [OF p], of ?bs] page_inv_started [OF k(8), of i ?bs args] k(5-7)
        by (simp add: kernel_inv_def good_def s')
    next
      case False
      then have "list_all (\<lambda>v. v \<noteq> 0) (pid_array s)" using free_or_full [OF l(1)] by blast
      then show ?thesis
        using e(3) [OF Some] assms(2) kernel_inv_calm [OF assms(1) calm_trans [OF calm_cli calm_prev_pid]] by auto
    qed
  qed
qed

lemma sys_execute_total:
  assumes "kernel_inv b u s" "parse_command command = Some parsed"
  shows "\<exists>c s'. sys_execute command s = Some (c, s')"
proof -
  note k = kernel_invD [OF assms(1)]
  obtain name args where p: "parse_command command = Some (name, args)" using assms(2) by (cases parsed) simp
  have l: "length (pid_array s) = 6" using k(3) by (simp add: procs_ok_def)
  note e = sys_execute_eq [OF image_okD(1) [OF k(5)] k(3) p]
  note st = sys_execute_started [OF image_okD(1) [OF k(5)] k(3) p _ _ image_okD(3) [OF k(5)]]
  show ?thesis
  proof (cases "exec_file (fs_img s) name")
    case None
    then show ?thesis using e(1) by blast
  next
    case (Some ino)
    then show ?thesis using st [OF Some _ Some] e(3) [OF Some] free_or_full [OF l] by blast
  qed
qed

lemma good_handed_back:
  assumes "good s" "fd_only (cur_pid s) (detached parent s) t" "0 \<le> cur_pid s" "cur_pid s < 6" "0 \<le> parent" "parent < 6"
  shows "good (handed_back (ta s) parent e t)"
proof -
  note f = fd_onlyD [OF assms(2)] and d = detached_fields [of parent s] and h = handed_back_fields [of "ta s" parent e t]
  have p: "procs_ok s" "console_inv s" "rtc_inv s" using assms(1) by (simp_all add: good_def)
  have "pcb_ok (pcbs t q)" if "0 \<le> q" "q < 6" for q
    using procs_okD(1) [OF p(1) that] f(20) [of q] f(22) d(1) by (cases "q = cur_pid s") simp_all
  moreover have "tables_ready t" using f(25) tables_ready_cong [OF d(2)] p(1) by (simp add: procs_ok_def)
  ultimately have "procs_ok (handed_back (ta s) parent e t)"
    by (intro procs_okI)
      (use p(1) f(3,18) d(3,4) h tables_ready_cong [OF h(15)] in \<open>simp_all add: procs_ok_def\<close>)
  moreover have "console_inv (handed_back (ta s) parent e t)"
    using p(2) f d by (auto simp: h console_inv_def screen_inv_def kb_safe_def video_ok_def out_page_def list_all_iff cursor_ok_def)
  moreover have "rtc_inv (handed_back (ta s) parent e t)"
    using p(3) f d assms(5,6) by (auto simp: h rtc_inv_def screen_inv_def active_ok_def list_all_iff cursor_ok_def)
  ultimately show ?thesis by (simp add: good_def)
qed

text \<open>The current process can always be ended: it returns to its parent, or a base shell starts again.\<close>

lemma kernel_inv_halt:
  assumes "kernel_inv b u s"
  shows "\<exists>c s'. halt_helper status s = Some (c, s') \<and> kernel_inv b u s' \<and> (\<forall>r. c \<noteq> Ret r)"
proof -
  note k = kernel_invD [OF assms]
  have l: "length (pid_array s) = 6" "ta s < 3" "kb_safe s" using k(1,3) by (simp_all add: procs_ok_def console_inv_def screen_inv_def)
  note d = tree_invD [OF k(4)]
  have r: "0 \<le> cur_pid s" "cur_pid s < 6" using d(5) [OF l(2)] by (simp_all add: d(8))
  let ?p = "parent_pid (pcbs s (cur_pid s))"
  show ?thesis
  proof (cases "?p = -1")
    case False
    have "\<not> cur_pid s \<le> 2" using d(2) [OF r(1)] False by blast
    then have "child_of s (cur_pid s) ?p" using d(5) [OF l(2)] r by (simp add: child_of_def d(8))
    then have p: "0 \<le> ?p" "?p < 6" using d(3) by blast+
    from halt_parent_eq [OF k(3) l(3,2) r refl p, of status] obtain t where
      t: "halt_helper status s = Some (Leave_frame (pcb_ebp (pcbs s (cur_pid s))) status,
            handed_back (ta s) ?p (pcb_ebp (pcbs s (cur_pid s))) t)" "fd_only (cur_pid s) (detached ?p s) t" by blast
    let ?s = "handed_back (ta s) ?p (pcb_ebp (pcbs s (cur_pid s))) t"
    note f = fd_onlyD [OF t(2)] and e = detached_fields [of ?p s] and h = handed_back_fields [of "ta s" ?p "pcb_ebp (pcbs s (cur_pid s))" t]
    have pq: "parent_pid (pcbs t q) = parent_pid (pcbs s q)" for q using f(20) [of q] f(21) e(1) by (cases "q = cur_pid s") simp_all
    have "tree_inv ?s"
      by (rule tree_halt [OF k(4) l(1,2) False]) (use f e pq in \<open>simp_all add: h running_def\<close>)
    moreover have "good ?s" by (rule good_handed_back [OF k(9) t(2) r p])
    moreover have "out_page ?s = out_page s" using f e by (simp add: h out_page_def)
    then have "page_inv b u (nat (cur_pid ?s) + 2) (VID_MEM_INDEX + out_page ?s) ?s"
      using page_inv_remap [OF k(8) p(1), of ?s] f e by (simp add: h)
    ultimately have "kernel_inv b u ?s" using k(5-7) f e by (simp add: kernel_inv_def good_def h)
    then show ?thesis using t(1) by blast
  next
    case True
    define i where "i = nat (cur_pid s)"
    have i: "cur_pid s = int i" "i < 6" using r by (simp_all add: i_def)
    have i2: "i \<le> 2"
    proof (rule ccontr)
      assume "\<not> i \<le> 2"
      then have "child_of s (cur_pid s) (-1)" using d(5) [OF l(2)] True i by (simp add: child_of_def d(8) [symmetric])
      then show False using d(3) by fastforce
    qed
    have b: "list_all (\<lambda>j. pid_array s ! j \<noteq> 0) [0..<i]"
      using d(1) [of "int j" for j] i2 by (force simp: list_all_iff in_use_def)
    obtain ino where ino: "exec_file (fs_img s) (bytes ''shell'') = Some ino" using image_okD(2) [OF k(5)] by blast
    let ?bs = "file_content (fs_img s) (unat ino)"
    let ?f = "freed i s"
    let ?s = "started (ta s) ?bs [] (chosen i ?f)"
    obtain eip where h: "halt_helper status s = Some (Enter_user eip 0x83FFFFC, ?s)"
      using halt_base [OF image_okD(1) [OF k(5)] k(3) i _ ino image_okD(3) [OF k(5) ino] b] True i by auto
    have f: "ta ?f = ta s" "terminals ?f = terminals s" "pid_array ?f = (pid_array s)[i := 0]" "pcbs ?f = pcbs s" "fs_img ?f = fs_img s"
      "terminal_init ?f = terminal_init s" "term_init_done ?f = term_init_done s" "out_page ?f = out_page s"
      by (simp_all add: freed_def cli_def out_page_def)
    have gf: "good ?f"
    proof -
      have "procs_ok ?f" using k(3) tables_ready_cong [of ?f s] by (simp add: procs_ok_def) (simp add: freed_def cli_def)
      moreover have "console_inv ?f" "rtc_inv ?f" using k(1,2)
        by (simp_all add: freed_def cli_def console_inv_def screen_inv_def kb_safe_def video_ok_def out_page_def rtc_inv_def active_ok_def)
      ultimately show ?thesis by (simp add: good_def)
    qed
    have pa: "parent_pid (pcbs ?s q) = parent_pid (pcbs s q)" for q
      using True i i2 by (simp add: f fresh_pcb_def)
    have run: "running n ?s = running n s" for n
      using d(8) i by (simp add: running_def f)
    have "in_use ?s q = in_use s q" for q
      using d(1) [of "int i"] i2 i(2) l(1) by (auto simp: in_use_def f nth_list_update)
    then have "tree_inv ?s" using tree_inv_cong [of ?s s, OF _ pa run] k(4) d(8) i f(1) by simp
    moreover have "page_inv b u (i + 2) (VID_MEM_INDEX + out_page ?f) ?f"
      using page_inv_cong [OF k(8), of ?f] i f(8) by (simp add: freed_def cli_def)
    note page_inv_started [OF this, of i ?bs "[]"]
    ultimately have "kernel_inv b u ?s"
      using good_started [OF gf i(2), of "[]" ?bs] k(5-7) by (simp add: kernel_inv_def good_def f)
    then show ?thesis using h by blast
  qed
qed

lemma kernel_inv_exception:
  assumes "kernel_inv b u s" "unat n < 20"
  shows "\<exists>c s'. handle_exception n err s = Some (c, s') \<and> kernel_inv b u s' \<and> (\<forall>r. c \<noteq> Ret r)"
proof -
  let ?t = "fold putc (exception_text (unat n) err) (clear_screen (cli s))"
  have "console_step s ?t"
    by (rule console_step_trans [OF console_step_machine(1) console_step_trans [OF console_step_clear_screen console_step_fold_putc]])
  then have "kernel_inv b u ?t" by (intro kernel_inv_calm [OF assms(1)] calm_console)
  then obtain c s' where h: "halt_helper 256 ?t = Some (c, s')" "kernel_inv b u s'" "\<forall>r. c \<noteq> Ret r" using kernel_inv_halt by blast
  then have "handle_exception n err s = Some (c, s')"
    using handle_exception_eq [OF assms(2), of err s] by (cases c) auto
  then show ?thesis using h(2,3) by blast
qed

lemma kernel_inv_sched: "kernel_inv b u s \<Longrightarrow> sched_inv s"
  by (simp add: kernel_inv_def sched_inv_def console_inv_def rtc_inv_def)

text \<open>
  Resuming the next terminal's process establishes the routing of the video page, wherever it was before.
\<close>

lemma kernel_inv_resumed:
  assumes "screen_inv s" "kb_safe s" "rtc_inv s" "procs_ok s" "tree_inv s" "image_ok (fs_img s)" "terminal_init s > TOTAL_TERM"
    and "term_init_done s" "page_inv b u f v s"
  shows "kernel_inv b u (resumed s)"
proof -
  let ?s = "resumed s"
  note r = resumed_fields [where s = s]
  have pq: "parent_pid (pcbs ?s q) = parent_pid (pcbs s q)" for q by (simp add: r)
  have "tree_inv ?s"
    using tree_inv_cong [of ?s s, OF _ pq] assms(5) by (simp add: in_use_def r)
  moreover have "procs_ok ?s"
    using assms(4) tables_ready_cong [of ?s s] by (simp add: procs_ok_def r)
  moreover have "console_inv ?s" using assms(1,2) r(21) by (simp add: console_inv_def screen_inv_def r)
  moreover have "rtc_inv ?s" using assms(3) by (simp add: rtc_inv_def active_ok_def screen_inv_def r)
  moreover have "page_inv b u (nat (cur_pid ?s) + 2) (VID_MEM_INDEX + out_page ?s) ?s"
  proof -
    have "0 \<le> running (next_term (ta s)) s" using tree_invD(5) [OF assms(5), of "next_term (ta s)"] by simp
    from page_inv_map_program [OF assms(9) this] have m: "page_inv b u (nat (cur_pid ?s) + 2) v
        (map_program (running (next_term (ta s)) s) s)" by (simp add: r)
    have "vid_frame (pt_user s) (pt_user ?s)" unfolding vid_frame_def
      by (rule exI [of _ "of_nat (VID_MEM_INDEX + shown_page (next_term (ta s)) s)"]) (simp add: resumed_def Let_def)
    moreover have "pte_addr_31_12 (pt_user ?s VID_MEM_INDEX) = of_nat (VID_MEM_INDEX + out_page ?s)"
      using r(21) by (simp add: video_ok_def)
    moreover have "pt ?s = pt s" by (simp add: resumed_def Let_def)
    ultimately show ?thesis by (intro page_inv_vid [OF m]) (simp_all add: r map_program_pages)
  qed
  ultimately show ?thesis using assms(6-8) by (simp add: kernel_inv_def r)
qed

text \<open>Saving the registers of the interrupted process disturbs nothing that the other components rely on.\<close>

lemma calm_saved: "calm s (saved s)"
proof -
  note v = saved_fields [where s = s]
  have "pcb_ok (pcbs (saved s) q)" if "procs_ok s" "0 \<le> q" "q < 6" for q
    using procs_okD(1) [OF that] by (auto simp: v pcb_ok_def)
  then have "procs_ok (saved s)" if "procs_ok s"
    by (intro procs_okI) (use that tables_ready_cong [of "saved s" s] in \<open>simp_all add: procs_ok_def v\<close>)
  moreover have "console_inv (saved s) = console_inv s" "rtc_inv (saved s) = rtc_inv s" "pt (saved s) = pt s" "pt_user (saved s) = pt_user s"
    by (simp_all add: saved_def upd_pcb_def console_inv_def screen_inv_def kb_safe_def video_ok_def out_page_def rtc_inv_def active_ok_def)
  ultimately show ?thesis by (simp add: calm_def good_def) (simp add: v)
qed

lemma kernel_inv_timer:
  assumes "kernel_inv b u s"
  shows "pit_handler s = Some (Ret 0, resumed (saved s)) \<and> kernel_inv b u (resumed (saved s))"
proof -
  note k = kernel_invD [OF kernel_inv_calm [OF assms calm_saved]]
  have "screen_inv (saved s)" "kb_safe (saved s)" using k(1) by (simp_all add: console_inv_def)
  then have "kernel_inv b u (resumed (saved s))" by (rule kernel_inv_resumed [OF _ _ k(2-8)])
  then show ?thesis using pit_handler_eq [OF kernel_inv_sched [OF assms]] by simp
qed

lemma calm_user: "calm s (s\<lparr>pmem := m, esp := e, ebp := d\<rparr>)"
  by (rule calm_console, rule console_step_screen) (simp_all add: screen_inv_def)

lemma quiet_calm:
  assumes "quiet b u s s'" "good s"
  shows "calm s s'"
  using assms(1)
proof cases
  case (keyboard c)
  then show ?thesis by (rule calm_keyboard [OF assms(2)])
next
  case (call_read evs late fd ptr n bf r)
  then show ?thesis by (rule calm_read [OF assms(2)])
next
  case clock
  then show ?thesis by (rule calm_clock [OF assms(2)])
next
  case (call_open f r)
  then show ?thesis by (rule calm_open)
next
  case (call_close fd r)
  then show ?thesis by (rule calm_close)
next
  case (call_write fd ptr n r)
  then show ?thesis by (rule calm_write)
next
  case (user m e d)
  show ?thesis unfolding user(1) by (rule calm_user)
qed

lemma quiet_run_calm: "(quiet b u)\<^sup>*\<^sup>* s t \<Longrightarrow> good s \<Longrightarrow> calm s t"
proof (induction rule: rtranclp_induct)
  case (step t v)
  then have "good t" by (simp add: calmD(12))
  then show ?case using step calm_trans quiet_calm by blast
qed simp

lemma kernel_inv_step:
  assumes "kstep b u s s'" "kernel_inv b u s"
  shows "kernel_inv b u s'"
  using assms(1)
proof cases
  case quiet_step
  then show ?thesis using kernel_inv_calm [OF assms(2)] quiet_calm kernel_invD(9) [OF assms(2)] by blast
next
  case (timer c)
  then show ?thesis using kernel_inv_timer [OF assms(2)] by simp
next
  case (exn n err c)
  then show ?thesis using kernel_inv_exception [OF assms(2) exn(1), of err] by auto
next
  case (call_execute cmd c)
  then show ?thesis using kernel_inv_execute [OF assms(2)] by blast
next
  case (call_halt status c)
  then obtain d where "halt_helper (ucast status) s = Some (d, s')"
    by (auto simp: sys_halt_def split: bind_splits prod.splits)
  then show ?thesis using kernel_inv_halt [OF assms(2), of "ucast status"] by auto
qed

interpretation ksys: invariant_system "kstep b u" "kernel_inv b u" for b u
  by unfold_locales (rule kernel_inv_step)

end
