(* ===== verification/Boot.thy ===== *)
theory Boot
  imports Kernel
begin

text \<open>
  The start of the kernel: \<open>entry\<close> of \<^verbatim>\<open>code/kernel.c\<close>, from the boot loader's hand-over to the first
  shell, with the Multiboot structures of \<^verbatim>\<open>code/multiboot.h\<close> and the segment descriptors of
  \<^verbatim>\<open>code/x86_desc.h\<close>.  The memory \<open>bm\<close> that the boot loader filled is read, never written, before the
  module's bytes become the file system image.  The theorems follow the system from zeroed memory
  through the first three timer interrupts to the state in which three shells run.
\<close>

record seg_desc_t =
  seg_lim_15_00 :: u16
  base_15_00 :: u16
  base_23_16 :: u8
  sd_type :: "4 word"
  sd_sys :: bool
  sd_dpl :: "2 word"
  sd_present :: bool
  seg_lim_19_16 :: "4 word"
  sd_avail :: bool
  sd_reserved :: bool
  sd_opsize :: bool
  sd_granularity :: bool
  base_31_24 :: u8

text \<open>The kernel with its descriptor tables and the registers that \<open>lldt\<close> and \<open>ltr\<close> load.\<close>

record kernel = proc +
  idt_table :: idt
  ldt_desc_ptr :: seg_desc_t
  tss_desc_ptr :: seg_desc_t
  tss_ldt_segment_selector :: u16
  ldtr :: u16
  tr :: u16

abbreviation MULTIBOOT_BOOTLOADER_MAGIC :: u32 where "MULTIBOOT_BOOTLOADER_MAGIC \<equiv> 0x2BADB002"
abbreviation KERNEL_TSS :: u16 where "KERNEL_TSS \<equiv> 0x30"
abbreviation KERNEL_LDT :: u16 where "KERNEL_LDT \<equiv> 0x38"
abbreviation TSS_SIZE :: u32 where "TSS_SIZE \<equiv> 104"

text \<open>The macros \<open>SET_LDT_PARAMS\<close> and \<open>SET_TSS_PARAMS\<close> have the same body.\<close>

definition SET_LDT_PARAMS :: "seg_desc_t \<Rightarrow> u32 \<Rightarrow> u32 \<Rightarrow> seg_desc_t" where
  "SET_LDT_PARAMS str addr lim =
     str\<lparr>base_31_24 := ucast (drop_bit 24 (addr AND 0xFF000000)),
         base_23_16 := ucast (drop_bit 16 (addr AND 0x00FF0000)),
         base_15_00 := ucast (addr AND 0x0000FFFF),
         seg_lim_19_16 := ucast (drop_bit 16 (lim AND 0x000F0000)),
         seg_lim_15_00 := ucast (lim AND 0x0000FFFF)\<rparr>"

definition SET_TSS_PARAMS :: "seg_desc_t \<Rightarrow> u32 \<Rightarrow> u32 \<Rightarrow> seg_desc_t" where
  "SET_TSS_PARAMS str addr lim =
     str\<lparr>base_31_24 := ucast (drop_bit 24 (addr AND 0xFF000000)),
         base_23_16 := ucast (drop_bit 16 (addr AND 0x00FF0000)),
         base_15_00 := ucast (addr AND 0x0000FFFF),
         seg_lim_19_16 := ucast (drop_bit 16 (lim AND 0x000F0000)),
         seg_lim_15_00 := ucast (lim AND 0x0000FFFF)\<rparr>"

text \<open>The descriptors as the code fills them; \<open>d\<close> is the uninitialised local variable.\<close>

definition the_ldt_desc :: "u32 \<Rightarrow> u32 \<Rightarrow> seg_desc_t \<Rightarrow> seg_desc_t" where
  "the_ldt_desc ldt ldt_size d =
     SET_LDT_PARAMS
       (d\<lparr>sd_granularity := False, sd_opsize := True, sd_reserved := False, sd_avail := False, sd_present := True,
          sd_dpl := 0, sd_sys := False, sd_type := 2\<rparr>) ldt ldt_size"

definition the_tss_desc :: "u32 \<Rightarrow> u32 \<Rightarrow> seg_desc_t \<Rightarrow> seg_desc_t" where
  "the_tss_desc tss tss_size d =
     SET_TSS_PARAMS
       (d\<lparr>sd_granularity := False, sd_opsize := False, sd_reserved := False, sd_avail := False,
          seg_lim_19_16 := ucast (TSS_SIZE AND 0x000F0000), sd_present := True, sd_dpl := 0, sd_sys := False, sd_type := 9,
          seg_lim_15_00 := ucast (TSS_SIZE AND 0x0000FFFF)\<rparr>) tss tss_size"

subsection \<open>The Multiboot information\<close>

record multiboot_info_t =
  mb_flags :: u32
  mem_lower :: u32
  mem_upper :: u32
  boot_device :: u32
  cmdline :: u32
  mods_count :: u32
  mods_addr :: u32
  elf_num :: u32
  elf_size :: u32
  elf_addr :: u32
  elf_shndx :: u32
  mmap_length :: u32
  mmap_addr :: u32

record module_t =
  mod_start :: u32
  mod_end :: u32

record memory_map_t =
  mm_size :: u32
  base_addr_low :: u32
  base_addr_high :: u32
  length_low :: u32
  length_high :: u32
  mm_type :: u32

text \<open>Loads through a pointer: a 32-bit word, the structures, a string up to its NUL, a range of bytes.\<close>

definition ldl :: "mem \<Rightarrow> u32 \<Rightarrow> u32" where
  "ldl m a = le32 (m a) (m (a + 1)) (m (a + 2)) (m (a + 3))"

definition ld_mbi :: "mem \<Rightarrow> u32 \<Rightarrow> multiboot_info_t" where
  "ld_mbi m a =
     \<lparr>mb_flags = ldl m a, mem_lower = ldl m (a + 4), mem_upper = ldl m (a + 8), boot_device = ldl m (a + 12), cmdline = ldl m (a + 16),
      mods_count = ldl m (a + 20), mods_addr = ldl m (a + 24), elf_num = ldl m (a + 28), elf_size = ldl m (a + 32),
      elf_addr = ldl m (a + 36), elf_shndx = ldl m (a + 40), mmap_length = ldl m (a + 44), mmap_addr = ldl m (a + 48)\<rparr>"

definition ld_module :: "mem \<Rightarrow> u32 \<Rightarrow> module_t" where
  "ld_module m a = \<lparr>mod_start = ldl m a, mod_end = ldl m (a + 4)\<rparr>"

definition ld_memory_map :: "mem \<Rightarrow> u32 \<Rightarrow> memory_map_t" where
  "ld_memory_map m a =
     \<lparr>mm_size = ldl m a, base_addr_low = ldl m (a + 4), base_addr_high = ldl m (a + 8), length_low = ldl m (a + 12),
      length_high = ldl m (a + 16), mm_type = ldl m (a + 20)\<rparr>"

partial_function (option) ld_cstr :: "mem \<Rightarrow> u32 \<Rightarrow> buf option" where
  "ld_cstr m a = (if m a = 0 then Some [0] else do { r \<leftarrow> ld_cstr m (a + 1); Some (m a # r) })"

definition ld_bytes :: "mem \<Rightarrow> u32 \<Rightarrow> nat \<Rightarrow> buf" where
  "ld_bytes m a n = map (\<lambda>i. m (a + of_nat i)) [0..<n]"

definition CHECK_FLAG :: "u32 \<Rightarrow> nat \<Rightarrow> bool" where
  "CHECK_FLAG flags b \<longleftrightarrow> flags AND push_bit b 1 \<noteq> 0"

text \<open>A call of \<open>printf\<close> whose result is not used.\<close>

definition print :: "string \<Rightarrow> va_arg list \<Rightarrow> 'a screen_scheme \<Rightarrow> 'a screen_scheme option" where
  "print fmt va s = do { (_, s) \<leftarrow> printf (bytes fmt @ [0]) va s; Some s }"

abbreviation NLs :: string where "NLs \<equiv> [CHR 0x0A]"

text \<open>The body of the loop over the modules; \<open>char\<close> is signed.\<close>

definition show_module :: "mem \<Rightarrow> u32 \<Rightarrow> nat \<Rightarrow> 'a screen_scheme \<Rightarrow> 'a screen_scheme option" where
  "show_module bm mods mod_count s = do {
     let m = ld_module bm (mods + 16 * of_nat mod_count);
     s \<leftarrow> print (''Module %d loaded at address: 0x%#x'' @ NLs) [Va_num (of_nat mod_count), Va_num (mod_start m)] s;
     s \<leftarrow> print (''Module %d ends at address: 0x%#x'' @ NLs) [Va_num (of_nat mod_count), Va_num (mod_end m)] s;
     s \<leftarrow> print (''First few bytes of module:'' @ NLs) [] s;
     s \<leftarrow> each (\<lambda>i s. print ''0x%x '' [Va_num (scast (bm (mod_start m + of_nat i)))] s) [0..<16] s;
     print NLs [] s }"

partial_function (option) mmap_loop :: "mem \<Rightarrow> u32 \<Rightarrow> u32 \<Rightarrow> 'a screen_scheme \<Rightarrow> 'a screen_scheme option" where
  "mmap_loop bm lim mmap s =
     (if mmap < lim then do {
        let e = ld_memory_map bm mmap;
        s \<leftarrow> print (''    size = 0x%x, base_addr = 0x%#x%#x'' @ NLs @ ''    type = 0x%x,  length    = 0x%#x%#x'' @ NLs)
              [Va_num (mm_size e), Va_num (base_addr_high e), Va_num (base_addr_low e), Va_num (mm_type e),
               Va_num (length_high e), Va_num (length_low e)] s;
        mmap_loop bm lim (mmap + mm_size e + 4) s }
      else Some s)"

text \<open>The display up to the check that two flags exclude each other, and the one after it.\<close>

definition show_boot_info :: "mem \<Rightarrow> multiboot_info_t \<Rightarrow> 'a screen_scheme \<Rightarrow> 'a screen_scheme option" where
  "show_boot_info bm mbi s = do {
     s \<leftarrow> print (''flags = 0x%#x'' @ NLs) [Va_num (mb_flags mbi)] s;
     s \<leftarrow> (if CHECK_FLAG (mb_flags mbi) 0
           then print (''mem_lower = %uKB, mem_upper = %uKB'' @ NLs) [Va_num (mem_lower mbi), Va_num (mem_upper mbi)] s else Some s);
     s \<leftarrow> (if CHECK_FLAG (mb_flags mbi) 1 then print (''boot_device = 0x%#x'' @ NLs) [Va_num (boot_device mbi)] s else Some s);
     s \<leftarrow> (if CHECK_FLAG (mb_flags mbi) 2
           then do { b \<leftarrow> ld_cstr bm (cmdline mbi); print (''cmdline = %s'' @ NLs) [Va_str b] s } else Some s);
     if CHECK_FLAG (mb_flags mbi) 3 then each (show_module bm (mods_addr mbi)) [0..<unat (mods_count mbi)] s else Some s }"

definition show_memory_info :: "mem \<Rightarrow> multiboot_info_t \<Rightarrow> 'a screen_scheme \<Rightarrow> 'a screen_scheme option" where
  "show_memory_info bm mbi s = do {
     s \<leftarrow> (if CHECK_FLAG (mb_flags mbi) 5
           then print (''elf_sec: num = %u, size = 0x%#x, addr = 0x%#x, shndx = 0x%#x'' @ NLs)
             [Va_num (elf_num mbi), Va_num (elf_size mbi), Va_num (elf_addr mbi), Va_num (elf_shndx mbi)] s
           else Some s);
     if CHECK_FLAG (mb_flags mbi) 6
     then do {
       s \<leftarrow> print (''mmap_addr = 0x%#x, mmap_length = 0x%x'' @ NLs) [Va_num (mmap_addr mbi), Va_num (mmap_length mbi)] s;
       mmap_loop bm (mmap_addr mbi + mmap_length mbi) (mmap_addr mbi) s }
     else Some s }"

subsection \<open>Initialisation\<close>

text \<open>
  The addresses the linker chooses: the entry stubs, the two page tables, the descriptor table and the task-state
  segment; what is left of the local descriptor variables on the stack; and what the clock's registers hold.
\<close>

record linked =
  stub_addr :: "stub \<Rightarrow> u32"
  pt_at :: u32
  pt_user_at :: u32
  ldt_at :: u32
  tss_at :: u32
  stack_junk :: seg_desc_t
  reg_a :: u8
  reg_b :: u8

definition load_descriptors :: "linked \<Rightarrow> 'a kernel_scheme \<Rightarrow> 'a kernel_scheme" where
  "load_descriptors lk s =
     (let s = s\<lparr>ldt_desc_ptr := the_ldt_desc (ldt_at lk) 31 (stack_junk lk), ldtr := KERNEL_LDT\<rparr>
      in s\<lparr>tss_desc_ptr := the_tss_desc (tss_at lk) 103 (stack_junk lk), tss_ldt_segment_selector := KERNEL_LDT,
           tss_ss0 := KERNEL_DS, tss_esp0 := 0x800000, tr := KERNEL_TSS\<rparr>)"

definition init_devices :: "linked \<Rightarrow> buf \<Rightarrow> 'a kernel_scheme \<Rightarrow> 'a kernel_scheme option" where
  "init_devices lk img s = do {
     let s = s\<lparr>idt_table := initialize_idt (stub_addr lk) (idt_table s)\<rparr>;
     let s = i8259_init s;
     let s = pit_init s;
     let s = keyboard_init s;
     s \<leftarrow> rtc_init (reg_b lk) (reg_a lk) s;
     let s = s\<lparr>fs_img := img\<rparr>;
     let s = paging_init (pt_at lk) (pt_user_at lk) s;
     let s = process_init s;
     let s = delete_cursor s;
     let s = clear_screen s;
     Some (sti s) }"

text \<open>
  \<open>entry\<close> returns to the halt loop of \<^verbatim>\<open>boot.S\<close> when the hand-over is not acceptable; otherwise it starts the
  first shell, and if that cannot be started it halts in its own loop.
\<close>

datatype boot = Not_booted | Halted | Running u32 u32

definition entry :: "linked \<Rightarrow> mem \<Rightarrow> u32 \<Rightarrow> u32 \<Rightarrow> 'a kernel_scheme \<Rightarrow> (boot \<times> 'a kernel_scheme) option" where
  "entry lk bm magic addr s = do {
     let s = clear s;
     if magic \<noteq> MULTIBOOT_BOOTLOADER_MAGIC
     then do { s \<leftarrow> print (''Invalid magic number: 0x%#x'' @ NLs) [Va_num magic] s; Some (Not_booted, s) }
     else do {
       let mbi = ld_mbi bm addr;
       s \<leftarrow> show_boot_info bm mbi s;
       if CHECK_FLAG (mb_flags mbi) 4 \<and> CHECK_FLAG (mb_flags mbi) 5
       then do { s \<leftarrow> print (''Both bits 4 and 5 are set.'' @ NLs) [] s; Some (Not_booted, s) }
       else do {
         s \<leftarrow> show_memory_info bm mbi s;
         let s = load_descriptors lk s;
         let m = ld_module bm (mods_addr mbi);
         s \<leftarrow> init_devices lk (ld_bytes bm (mod_start m) (unat (mod_end m - mod_start m))) s;
         (c, s) \<leftarrow> sys_execute shell_cmd s;
         Some (case c of Enter_user eip esp0 \<Rightarrow> (Running eip esp0, s) | _ \<Rightarrow> (Halted, s)) } } }"

subsection \<open>Specification\<close>

text \<open>The base address and the limit the processor finds in a descriptor.\<close>

definition seg_base :: "seg_desc_t \<Rightarrow> u32" where
  "seg_base d = push_bit 24 (ucast (base_31_24 d)) OR push_bit 16 (ucast (base_23_16 d)) OR ucast (base_15_00 d)"

definition seg_limit :: "seg_desc_t \<Rightarrow> u32" where
  "seg_limit d = push_bit 16 (ucast (seg_lim_19_16 d)) OR ucast (seg_lim_15_00 d)"

text \<open>A memory map of \<open>n\<close> entries that ends where its length says.\<close>

fun mmap_chain :: "mem \<Rightarrow> u32 \<Rightarrow> u32 \<Rightarrow> nat \<Rightarrow> bool" where
  "mmap_chain bm lim a 0 \<longleftrightarrow> \<not> a < lim"
| "mmap_chain bm lim a (Suc n) \<longleftrightarrow> a < lim \<and> mmap_chain bm lim (a + mm_size (ld_memory_map bm a) + 4) n"

text \<open>
  What the kernel needs of the boot loader: flags that do not exclude each other, a terminated command line and a
  closed memory map (if it passes them), and a first module that is a file system image with a shell.
\<close>

definition loader_ok :: "mem \<Rightarrow> u32 \<Rightarrow> nat \<Rightarrow> bool" where
  "loader_ok bm addr n =
     (let mbi = ld_mbi bm addr; m = ld_module bm (mods_addr mbi)
      in \<not> (CHECK_FLAG (mb_flags mbi) 4 \<and> CHECK_FLAG (mb_flags mbi) 5)
       \<and> (CHECK_FLAG (mb_flags mbi) 2 \<longrightarrow> ld_cstr bm (cmdline mbi) \<noteq> None)
       \<and> (CHECK_FLAG (mb_flags mbi) 6 \<longrightarrow> mmap_chain bm (mmap_addr mbi + mmap_length mbi) (mmap_addr mbi) n)
       \<and> image_ok (ld_bytes bm (mod_start m) (unat (mod_end m - mod_start m))))"

text \<open>The kernel's variables before \<open>entry\<close>: no process, nothing mapped, buffers and arrays of their sizes.\<close>

definition fresh :: "'a proc_scheme \<Rightarrow> bool" where
  "fresh s \<longleftrightarrow> console_inv s \<and> ta s = 0 \<and> (\<forall>k < 3. running k s = 0) \<and> pid_array s = replicate 6 0 \<and> length (process_rtc s) = 6
     \<and> length (terminal_rtc_count s) = 3 \<and> length (terminal_rtc_wait s) = 3 \<and> list_all (\<lambda>i. pcb_ok (pcbs s (int i))) [0..<6]
     \<and> terminal_init s = 1 \<and> \<not> term_init_done s \<and> tables_clear s"

text \<open>The state before the shell of terminal \<open>j\<close> is started, and the states while it is the last one that has been.\<close>

definition start_ready :: "u32 \<Rightarrow> u32 \<Rightarrow> nat \<Rightarrow> 'a proc_scheme \<Rightarrow> bool" where
  "start_ready b u j s \<longleftrightarrow> good s \<and> image_ok (fs_img s) \<and> terminal_init s = int (Suc j) \<and> \<not> term_init_done s \<and> ta s = j
     \<and> (\<forall>i < 6. pid_array s ! i \<noteq> 0 \<longleftrightarrow> i < j) \<and> (\<forall>i < j. parent_pid (pcbs s (int i)) = -1 \<and> running i s = int i)
     \<and> (\<exists>f v. page_inv b u f v s)"

definition boot_inv :: "u32 \<Rightarrow> u32 \<Rightarrow> nat \<Rightarrow> 'a proc_scheme \<Rightarrow> bool" where
  "boot_inv b u j s \<longleftrightarrow> good s \<and> image_ok (fs_img s) \<and> terminal_init s = int (Suc j) \<and> \<not> term_init_done s \<and> ta s = j
     \<and> cur_pid s = int j
     \<and> (\<forall>i < 6. pid_array s ! i \<noteq> 0 \<longleftrightarrow> i \<le> j) \<and> (\<forall>i \<le> j. parent_pid (pcbs s (int i)) = -1 \<and> running i s = int i)
     \<and> (\<exists>f v. page_inv b u f v s)"

text \<open>Zeroed memory, except for the variables with initialisers and what the boot loader left in memory.\<close>

definition bss :: "mem \<Rightarrow> kernel" where
  "bss bm =
     proc.extend
       (kbd.extend (blank_kbd\<lparr>pmem := bm, cur_pid := -1, prev_pid := -1, process_rtc := replicate 6 0\<rparr>)
         \<lparr>pcbs = (\<lambda>_. blank_pcb), pid_array = replicate 6 0, optab = (\<lambda>_. None), tss_ss0 = 0, tss_esp0 = 0, fs_img = [], read_index = 0,
          terminal_init = 1\<rparr>)
       (let d = \<lparr>seg_lim_15_00 = 0, base_15_00 = 0, base_23_16 = 0, sd_type = 0, sd_sys = False, sd_dpl = 0, sd_present = False,
                 seg_lim_19_16 = 0, sd_avail = False, sd_reserved = False, sd_opsize = False, sd_granularity = False, base_31_24 = 0\<rparr>
        in \<lparr>idt_table = blank_idt, ldt_desc_ptr = d, tss_desc_ptr = d, tss_ldt_segment_selector = 0, ldtr = 0, tr = 0\<rparr>)"

text \<open>A hand-over with one module, the image with a shell, at 5 MB.\<close>

definition boot_mem :: mem where
  "boot_mem a =
     (if 0x500000 \<le> a \<and> a < 0x503000 then shell_img ! unat (a - 0x500000)
      else if a = 0x1001A then 2 else if a = 0x20002 then 0x50 else if a = 0x20005 then 0x30 else if a = 0x20006 then 0x50 else 0)"

definition boot_linked :: linked where
  "boot_linked =
     \<lparr>stub_addr = (\<lambda>_. 0x401000), pt_at = 0x40B000, pt_user_at = 0x40C000, ldt_at = 0x404000, tss_at = 0x405000,
      stack_junk = ldt_desc_ptr (bss boot_mem), reg_a = 0x26, reg_b = 2\<rparr>"

text \<open>The kernel booted on that hand-over, after the third timer interrupt.\<close>

definition tick :: "'a proc_scheme \<Rightarrow> 'a proc_scheme" where
  "tick s = snd (the (pit_handler s))"

definition booted :: kernel where
  "booted = tick (tick (tick (snd (the (entry boot_linked boot_mem MULTIBOOT_BOOTLOADER_MAGIC 0x10000 (bss boot_mem))))))"

subsection \<open>The display\<close>

definition shows_text :: "('a screen_scheme \<Rightarrow> 'a screen_scheme option) \<Rightarrow> bool" where
  "shows_text f \<longleftrightarrow> (\<forall>s. \<exists>t. f s = Some (fold putc t s))"

lemma shows_Some: "shows_text Some"
  unfolding shows_text_def by (intro allI exI [of _ "[]"]) simp

lemma shows_bind:
  assumes "shows_text f" "shows_text g"
  shows "shows_text (\<lambda>s. Option.bind (f s) g)"
  unfolding shows_text_def
proof
  fix s
  obtain t where "f s = Some (fold putc t s)" using assms(1) by (auto simp: shows_text_def)
  moreover obtain t' where "g (fold putc t s) = Some (fold putc t' (fold putc t s))" using assms(2) by (auto simp: shows_text_def)
  ultimately show "\<exists>t. Option.bind (f s) g = Some (fold putc t s)" by (intro exI [of _ "t @ t'"]) simp
qed

lemma shows_if: "(c \<Longrightarrow> shows_text f) \<Longrightarrow> (\<not> c \<Longrightarrow> shows_text g) \<Longrightarrow> shows_text (\<lambda>s. if c then f s else g s)"
  by (cases c) simp_all

lemma shows_each: "(\<And>i. shows_text (f i)) \<Longrightarrow> shows_text (each f is)"
proof (induction "is")
  case (Cons i "is")
  then show ?case using shows_bind [of "f i" "each f is"] by (simp add: shows_text_def)
qed (simp add: shows_text_def, intro allI exI [of _ "[]"], simp)

lemma shows_print: "fmt_ok (bytes fmt) va \<Longrightarrow> shows_text (print fmt va)"
  unfolding shows_text_def
proof
  fix s :: "'a screen_scheme"
  assume "fmt_ok (bytes fmt) va"
  then obtain n t where "printf (bytes fmt @ [0]) va s = Some (n, fold putc t s)" using printf_fmt_ok by blast
  then show "\<exists>t. print fmt va s = Some (fold putc t s)" by (auto simp: print_def)
qed

lemmas shows_rules = shows_bind shows_if shows_each shows_Some shows_print

lemma shows_module: "shows_text (show_module bm mods k)"
  unfolding show_module_def Let_def by (intro shows_rules) (simp_all add: bytes_def)

lemma shows_mmap: "mmap_chain bm lim a n \<Longrightarrow> shows_text (mmap_loop bm lim a :: 'a screen_scheme \<Rightarrow> 'a screen_scheme option)"
proof (induction n arbitrary: a)
  case 0
  then show ?case by (simp add: shows_text_def mmap_loop.simps, intro allI exI [of _ "[]"], simp)
next
  case (Suc n)
  let ?e = "ld_memory_map bm a"
  have "shows_text (\<lambda>s :: 'a screen_scheme. Option.bind (print (''    size = 0x%x, base_addr = 0x%#x%#x'' @ NLs @ ''    type = 0x%x,  length    = 0x%#x%#x'' @ NLs)
      [Va_num (mm_size ?e), Va_num (base_addr_high ?e), Va_num (base_addr_low ?e), Va_num (mm_type ?e),
       Va_num (length_high ?e), Va_num (length_low ?e)] s) (mmap_loop bm lim (a + mm_size ?e + 4)))"
    using Suc by (intro shows_bind shows_print) (simp_all add: bytes_def)
  moreover have "a < lim" using Suc.prems by simp
  ultimately show ?case by (simp add: shows_text_def mmap_loop.simps [of bm lim a] Let_def)
qed

lemma ld_cstr_terminated:
  assumes "ld_cstr m a = Some b"
  shows "0 \<in> set b"
  by (rule ld_cstr.raw_induct [of "\<lambda>_ _ b. 0 \<in> set b", OF _ assms]) (auto split: if_splits bind_splits)

subsection \<open>From fresh memory to the first shell\<close>

lemma fresh_console:
  assumes "fresh s" "console_step s s'"
  shows "fresh s'"
proof -
  have f: "kb_frame s s'" "console_inv s'" using assms by (auto simp: console_step_def fresh_def)
  note k = kb_frame_proc [OF f(1)]
  have k': "pt s' = pt s" "vid_frame (pt_user s) (pt_user s')" "term_init_done s' = term_init_done s"
    "terminal_rtc_count s' = terminal_rtc_count s" "terminal_rtc_wait s' = terminal_rtc_wait s"
    using f(1) by (simp_all add: kb_frame_def)
  then have "pte_p (pt_user s' i) = pte_p (pt_user s i)" for i by (auto simp: vid_frame_def split: if_splits)
  then show ?thesis using assms(1) f(2) k k' by (simp add: fresh_def tables_clear_def running_def)
qed

lemma console_step_clear: "console_step s (clear s)"
  by (rule console_step_screen) (simp_all add: clear_def screen_inv_def)

lemma fresh_pic: "fresh s \<Longrightarrow> fresh (enable_irq n s)" "fresh s \<Longrightarrow> fresh (i8259_init s)" "fresh s \<Longrightarrow> fresh (pit_init s)"
  by (erule fresh_console, rule console_step_screen,
      simp_all add: enable_irq_def i8259_init_def pit_init_def machine_defs Let_def screen_inv_def)+

lemma each_process_rtc:
  "n \<le> length (process_rtc s) \<Longrightarrow>
    each (\<lambda>i s. do { p \<leftarrow> wr (process_rtc s) i f; Some (s\<lparr>process_rtc := p\<rparr>) }) [0..<n] s
      = Some (s\<lparr>process_rtc := replicate n f @ drop n (process_rtc s)\<rparr>)"
proof (induction n)
  case (Suc n)
  then have "(replicate n f @ drop n (process_rtc s))[n := f] = replicate n f @ f # drop (Suc n) (process_rtc s)"
    by (simp add: list_update_append Cons_nth_drop_Suc [symmetric])
  then show ?case using Suc by (simp add: each_append wr_def replicate_append_same [symmetric])
qed simp

lemma fresh_rtc_init:
  assumes "fresh s"
  shows "\<exists>t. rtc_init rb ra s = Some (t\<lparr>process_rtc := replicate 6 1024\<rparr>) \<and> fresh t"
proof -
  define t where "t = sti (restore_flags (iflag s) (outb ((ra AND 0xF0) OR MIN_VIR_RATE) RW (outb REG_A NMI (outb REG_A NMI
      (enable_irq 8 (outb (rb OR 0x40) RW (outb REG_B NMI (outb REG_B NMI (snd (cli_and_save s))))))))))"
  have l: "length (process_rtc s) = 6" using assms by (simp add: fresh_def)
  have "console_step s t"
    by (rule console_step_screen) (simp_all add: t_def enable_irq_def machine_defs Let_def screen_inv_def)
  then have "fresh t" by (rule fresh_console [OF assms])
  moreover have "rtc_init rb ra s = Some (t\<lparr>process_rtc := replicate 6 1024\<rparr>)"
    using l by (simp add: rtc_init_def t_def machine_defs Let_def enable_irq_def each_process_rtc)
  ultimately show ?thesis by blast
qed

lemma procs_ok_process_init: "list_all (\<lambda>i. pcb_ok (pcbs s (int i))) [0..<6] \<Longrightarrow> length (pid_array s) = 6 \<Longrightarrow> length (process_rtc s) = 6 \<Longrightarrow>
  procs_ok (process_init s)"
  by (simp add: procs_ok_def tables_ready_def) (simp add: process_init_def upd_term_def Let_def)

definition tables_only :: "'a paging_scheme \<Rightarrow> 'a paging_scheme \<Rightarrow> bool" where
  "tables_only s s' \<longleftrightarrow> (\<exists>d p q. s' = s\<lparr>pd := d, pt := p, pt_user := q\<rparr>)"

lemma tables_only_set:
  assumes "tables_only s t"
  shows "tables_only s (set_pd i f t)" "tables_only s (set_pt i g t)" "tables_only s (set_pt_user i g t)"
proof -
  obtain d p q where t: "t = s\<lparr>pd := d, pt := p, pt_user := q\<rparr>" using assms by (auto simp: tables_only_def)
  have "set_pd i f t = s\<lparr>pd := d(i := f (d i)), pt := p, pt_user := q\<rparr>" "set_pt i g t = s\<lparr>pd := d, pt := p(i := g (p i)), pt_user := q\<rparr>"
    "set_pt_user i g t = s\<lparr>pd := d, pt := p, pt_user := q(i := g (q i))\<rparr>"
    by (simp_all add: t set_pd_def set_pt_def set_pt_user_def)
  then show "tables_only s (set_pd i f t)" "tables_only s (set_pt i g t)" "tables_only s (set_pt_user i g t)"
    unfolding tables_only_def by blast+
qed

lemma tables_only_fold: "tables_only s t \<Longrightarrow> (\<And>i t. tables_only s t \<Longrightarrow> tables_only s (f i t)) \<Longrightarrow> tables_only s (fold f is t)"
  by (induction "is" arbitrary: t) simp_all

lemma paging_init_only: "tables_only s (paging_init b u s)"
proof -
  have "tables_only s s" unfolding tables_only_def by (intro exI [of _ "pd s"] exI [of _ "pt s"] exI [of _ "pt_user s"]) simp
  then show ?thesis unfolding paging_init_def paging_init_user_def paging_init_kernel_def Let_def
    by (intro tables_only_set tables_only_fold)
qed

lemma page_inv_calm:
  assumes "\<exists>f v. page_inv b u f v s" "calm s s'"
  shows "\<exists>f v. page_inv b u f v s'"
proof -
  obtain f v where i: "page_inv b u f v s" using assms(1) by blast
  have "pte_addr_31_12 (pt_user s' VID_MEM_INDEX) = of_nat (unat (pte_addr_31_12 (pt_user s' VID_MEM_INDEX)))" by simp
  then show ?thesis using page_inv_vid [OF i calmD(6-8) [OF assms(2)]] by blast
qed

lemma start_ready_calm: "start_ready b u j s \<Longrightarrow> calm s s' \<Longrightarrow> start_ready b u j s'"
  using page_inv_calm [of b u s s'] calmD [of s s'] by (simp add: start_ready_def)

lemma boot_inv_calm: "boot_inv b u j s \<Longrightarrow> calm s s' \<Longrightarrow> boot_inv b u j s'"
  using page_inv_calm [of b u s s'] calmD [of s s'] by (simp add: boot_inv_def)

lemma process_init_ready:
  assumes "fresh t" "image_ok img" "page_inv b u f v (t\<lparr>process_rtc := replicate 6 1024, fs_img := img, pd := d, pt := p, pt_user := q\<rparr>)"
  shows "start_ready b u 0 (process_init (t\<lparr>process_rtc := replicate 6 1024, fs_img := img, pd := d, pt := p, pt_user := q\<rparr>))"
    (is "start_ready b u 0 (process_init ?t)")
proof -
  have f: "console_inv t" "ta t = 0" "\<forall>k < 3. running k t = 0" "pid_array t = replicate 6 0" "\<not> term_init_done t" "terminal_init t = 1"
    "list_all (\<lambda>i. pcb_ok (pcbs t (int i))) [0..<6]" "length (terminal_rtc_count t) = 3" "length (terminal_rtc_wait t) = 3"
    using assms(1) by (simp_all add: fresh_def)
  note d = process_init_def upd_term_def Let_def
  have "procs_ok (process_init ?t)" by (rule procs_ok_process_init) (use f in simp_all)
  moreover have c: "console_inv (process_init ?t)"
    using f by (auto simp: d console_inv_def screen_inv_def kb_safe_def list_all_iff cursor_ok_def)
  moreover have "rtc_inv (process_init ?t)"
    using f c by (auto simp: console_inv_def rtc_inv_def active_ok_def running_def list_all_iff) (auto simp: d running_def)
  moreover have "page_inv b u f v (process_init ?t)" by (rule page_inv_cong [OF assms(3)]) (simp_all add: d)
  ultimately show ?thesis using f assms(2) by (auto simp: start_ready_def good_def) (simp_all add: d)
qed

lemma init_devices_ready:
  assumes "fresh s" "image_ok img"
  shows "\<exists>s'. init_devices lk img s = Some s' \<and> start_ready (pt_at lk) (pt_user_at lk) 0 s'"
proof -
  define s1 where "s1 = keyboard_init (pit_init (i8259_init (s\<lparr>idt_table := initialize_idt (stub_addr lk) (idt_table s)\<rparr>)))"
  have "fresh (s\<lparr>idt_table := initialize_idt (stub_addr lk) (idt_table s)\<rparr>)"
    using assms(1) by (simp add: fresh_def tables_clear_def running_def console_inv_def screen_inv_def kb_safe_def video_ok_def out_page_def)
  then have "fresh s1" unfolding s1_def keyboard_init_def by (intro fresh_pic)
  then obtain t where t: "rtc_init (reg_b lk) (reg_a lk) s1 = Some (t\<lparr>process_rtc := replicate 6 1024\<rparr>)" "fresh t"
    using fresh_rtc_init by blast
  let ?t = "t\<lparr>process_rtc := replicate 6 1024, fs_img := img\<rparr>"
  let ?p = "paging_init (pt_at lk) (pt_user_at lk) ?t"
  have i: "init_devices lk img s = Some (sti (clear_screen (delete_cursor (process_init ?p))))"
    using t(1) by (simp add: init_devices_def s1_def Let_def)
  obtain d p q where p: "?p = ?t\<lparr>pd := d, pt := p, pt_user := q\<rparr>"
    using paging_init_only [of ?t "pt_at lk" "pt_user_at lk"] unfolding tables_only_def by blast
  have "page_inv (pt_at lk) (pt_user_at lk) 32 0xB8 ?p"
    by (rule page_inv_init) (use t(2) in \<open>simp add: fresh_def tables_clear_def\<close>)
  then have r: "start_ready (pt_at lk) (pt_user_at lk) 0 (process_init ?p)"
    unfolding p by (intro process_init_ready [OF t(2) assms(2)])
  have "console_step x (delete_cursor x)" for x :: "'a kernel_scheme"
    by (rule console_step_screen) (simp_all add: delete_cursor_def outb_def screen_inv_def)
  then have "console_step x (sti (clear_screen (delete_cursor x)))" for x :: "'a kernel_scheme"
    using console_step_trans [OF _ console_step_trans [OF console_step_clear_screen console_step_machine(2)]] by blast
  then show ?thesis using i start_ready_calm [OF r calm_console] by blast
qed

subsection \<open>The first three interrupts of the timer\<close>

lemma bytes_shell: "bytes ''shell'' = [115, 104, 101, 108, 108]"
  by (simp add: bytes_def)

lemma start_shell:
  assumes "start_ready b u j s" "j < 3"
  shows "\<exists>eip s'. sys_execute shell_cmd s = Some (Enter_user eip 0x83FFFFC, s') \<and> boot_inv b u j s'"
proof -
  have r: "good s" "image_ok (fs_img s)" "procs_ok s" "ta s = j" "terminal_init s = int (Suc j)" "\<not> term_init_done s"
    "\<And>i. i < 6 \<Longrightarrow> pid_array s ! i \<noteq> 0 \<longleftrightarrow> i < j" "\<And>i. i < j \<Longrightarrow> parent_pid (pcbs s (int i)) = -1 \<and> running i s = int i"
    "length (pid_array s) = 6"
    using assms(1) by (auto simp: start_ready_def good_def procs_ok_def)
  obtain f v where pg: "page_inv b u f v s" using assms(1) by (auto simp: start_ready_def)
  have "pid_array s ! j = 0" using r(7) [of j] assms(2) by simp
  then have l: "least_free (pid_array s) j" using r(7) assms(2) by (auto simp: least_free_def list_all_iff)
  obtain ino where ino: "exec_file (fs_img s) [115, 104, 101, 108, 108] = Some ino"
    using image_okD(2) [OF r(2)] by (auto simp: bytes_shell)
  let ?bs = "file_content (fs_img s) (unat ino)"
  let ?s = "started (ta s) ?bs [] (chosen j s)"
  obtain eip where e: "sys_execute shell_cmd s = Some (Enter_user eip 0x83FFFFC, ?s)"
    using sys_execute_started [OF image_okD(1) [OF r(2)] r(3) parse_shell ino l image_okD(3) [OF r(2) ino]] by blast
  have "good ?s" by (rule good_started [OF r(1)]) (use assms(2) in simp_all)
  moreover have "page_inv b u (j + 2) v ?s" by (rule page_inv_started [OF pg])
  moreover have "pid_array ?s ! i \<noteq> 0 \<longleftrightarrow> i \<le> j" if "i < 6" for i
    using r(7) [OF that] r(9) that by (cases "i = j") auto
  moreover have "parent_pid (pcbs ?s (int i)) = -1 \<and> running i ?s = int i" if "i \<le> j" for i
    using r(8) [of i] that assms(2) r(4) by (auto simp: fresh_pcb_def running_def)
  ultimately have "boot_inv b u j ?s" using r by (auto simp: boot_inv_def)
  then show ?thesis using e by blast
qed

text \<open>What every interrupt does first.\<close>

lemma save_context_eq:
  assumes "active_ok s" "ta s < 3"
  shows "save_context (cli s) = Some (saved (cli s))"
  using active_okD [OF assms] by (simp add: save_context_def get_pcb_def cli_def running_def saved_def)

lemma calm_interrupt: "calm s (saved (cli s))"
  by (rule calm_trans [OF calm_cli calm_saved])

lemma goodD: "good s \<Longrightarrow> console_inv s" "good s \<Longrightarrow> rtc_inv s" "good s \<Longrightarrow> procs_ok s" "good s \<Longrightarrow> active_ok s" "good s \<Longrightarrow> ta s < 3"
  by (simp_all add: good_def rtc_inv_def screen_inv_def)

lemma second_terminal_ready:
  assumes "boot_inv b u j s" "j < 2"
  shows "start_ready b u (Suc j) (send_eoi 0 ((upd_term (Suc j) (\<lambda>t. t\<lparr>base_pid := int (Suc j), active_pid := int (Suc j)\<rparr>)
      (s\<lparr>ta := Suc j\<rparr>))\<lparr>terminal_init := int (Suc (Suc j))\<rparr>))" (is "start_ready b u (Suc j) (send_eoi 0 ?t)")
proof -
  have i: "good s" "\<not> term_init_done s" "ta s = j" using assms(1) by (simp_all add: boot_inv_def)
  note g = goodD [OF i(1)]
  have "console_inv ?t" using g(1) i(2) assms(2)
    by (auto simp: console_inv_def screen_inv_def kb_safe_def upd_term_def list_all_iff cursor_ok_def)
  moreover have "rtc_inv ?t" using g(2) assms(2)
    by (auto simp: rtc_inv_def active_ok_def screen_inv_def upd_term_def list_all_iff cursor_ok_def)
  moreover have "procs_ok ?t" using g(3) tables_ready_cong [of ?t s] by (simp add: procs_ok_def upd_term_def)
  moreover have "\<exists>f v. page_inv b u f v ?t"
    using assms(1) page_inv_cong [of b u _ _ s ?t] by (fastforce simp: boot_inv_def upd_term_def)
  moreover have "running i ?t = running i s" if "i \<le> j" for i using that by (simp add: running_def upd_term_def)
  ultimately have "start_ready b u (Suc j) ?t" using assms
    by (auto simp: start_ready_def boot_inv_def good_def upd_term_def less_Suc_eq_le)
  then show ?thesis by (rule start_ready_calm [OF _ calm_console [OF console_step_machine(3)]])
qed

lemma tick_starts_shell:
  assumes "boot_inv b u j s" "j < 2"
  shows "\<exists>eip s'. pit_handler s = Some (Enter_user eip 0x83FFFFC, s') \<and> boot_inv b u (Suc j) s'"
proof -
  have g: "good s" "terminal_init s = int (Suc j)" using assms(1) by (simp_all add: boot_inv_def)
  let ?v = "saved (cli s)"
  have v: "boot_inv b u j ?v" by (rule boot_inv_calm [OF assms(1) calm_interrupt])
  have cv: "console_inv ?v" "terminal_init ?v = int (Suc j)" using v goodD(1) by (auto simp: boot_inv_def)
  obtain r t where t: "terminal_switch (int (Suc j) + 1) ?v = Some (r, t)" "console_step ?v t"
    using terminal_switch_safe [OF cv(1), of "int (Suc j) + 1"] assms(2) by auto
  have bt: "boot_inv b u j t" by (rule boot_inv_calm [OF v calm_console [OF t(2)]])
  let ?t = "send_eoi 0 ((upd_term (Suc j) (\<lambda>t. t\<lparr>base_pid := int (Suc j), active_pid := int (Suc j)\<rparr>)
      (t\<lparr>ta := Suc j\<rparr>))\<lparr>terminal_init := int (Suc (Suc j))\<rparr>)"
  obtain eip s' where s': "sys_execute shell_cmd ?t = Some (Enter_user eip 0x83FFFFC, s')" "boot_inv b u (Suc j) s'"
    using start_shell [OF second_terminal_ready [OF bt assms(2)]] assms(2) by auto
  have "set_ta (int (Suc j)) t = t\<lparr>ta := Suc j\<rparr>" using assms(2) by (simp add: set_ta_def)
  then have "start_terminal ?v = Some (Enter_user eip 0x83FFFFC, s')"
    using t(1) s'(1) cv(2) by (simp add: start_terminal_def Let_def nat_add_distrib add.commute)
  then have "pit_handler s = Some (Enter_user eip 0x83FFFFC, s')"
    using save_context_eq [OF goodD(4,5) [OF g(1)]] cv(2) assms(2) by (simp add: pit_handler_def)
  then show ?thesis using s'(2) by blast
qed

lemma boot_tree:
  assumes "boot_inv b u 2 s"
  shows "tree_inv s"
proof -
  have i: "\<And>i. i < 6 \<Longrightarrow> pid_array s ! i \<noteq> 0 \<longleftrightarrow> i \<le> 2" "\<And>i. i \<le> 2 \<Longrightarrow> parent_pid (pcbs s (int i)) = -1 \<and> running i s = int i"
    "cur_pid s = 2" "ta s = 2" using assms by (auto simp: boot_inv_def)
  have use: "in_use s p \<longleftrightarrow> p \<le> 2" if "0 \<le> p" "p < 6" for p using i(1) [of "nat p"] that by (auto simp: in_use_def)
  have par: "parent_pid (pcbs s p) = -1" if "0 \<le> p" "p \<le> 2" for p using i(2) [of "nat p"] that by simp
  have no: "\<not> child_of s p q" for p q using use [of p] by (auto simp: child_of_def)
  have run: "running k s = int k" if "k < 3" for k using i(2) [of k] that by simp
  have "\<exists>k < 3. running k s = p" if "0 \<le> p" "p \<le> 2" for p using run [of "nat p"] that by (intro exI [of _ "nat p"]) simp
  then have "chains s" using use run by (force simp: chains_def descends_def)
  then show ?thesis using use par no run i(3,4) by (auto simp: tree_inv_def)
qed

text \<open>The third interrupt brings back the first terminal; from then on the kernel's invariant holds.\<close>

lemma tick_completes_boot:
  assumes "boot_inv b u 2 s"
  shows "\<exists>s'. pit_handler s = Some (Ret 0, s') \<and> kernel_inv b u s' \<and> ta s' = 0 \<and> cur_pid s' = 0 \<and> (\<forall>k < 3. running k s' = int k)"
proof -
  have g: "good s" "terminal_init s = 3" using assms by (simp_all add: boot_inv_def)
  let ?v = "saved (cli s)"
  have v: "boot_inv b u 2 ?v" by (rule boot_inv_calm [OF assms calm_interrupt])
  have cv: "console_inv ?v" "terminal_init ?v = 3" using v goodD(1) by (auto simp: boot_inv_def)
  obtain r t where t: "terminal_switch 1 ?v = Some (r, t)" "console_step ?v t"
    using terminal_switch_safe [OF cv(1), of 1] by auto
  have bt: "boot_inv b u 2 t" by (rule boot_inv_calm [OF v calm_console [OF t(2)]])
  let ?t = "t\<lparr>term_init_done := True, terminal_init := 4\<rparr>"
  have b: "good t" "terminal_init t = 3" "image_ok (fs_img t)" "ta t = 2" "\<And>k. k < 3 \<Longrightarrow> running k t = int k" using bt by (auto simp: boot_inv_def)
  note gt = goodD [OF b(1)]
  obtain f v where pg: "page_inv b u f v t" using bt by (auto simp: boot_inv_def)
  have ok: "active_ok ?t" "screen_inv ?t" "kb_safe ?t" "rtc_inv ?t"
    using gt by (simp_all add: active_ok_def console_inv_def screen_inv_def kb_safe_def rtc_inv_def)
  have tree: "tree_inv ?t" using tree_inv_cong [of ?t t] boot_tree [OF bt] tree_inv_cur [OF boot_tree [OF bt]]
    by (simp add: in_use_def running_def)
  have "procs_ok ?t" using gt(3) tables_ready_cong [of ?t t] by (simp add: procs_ok_def)
  moreover have "page_inv b u f v ?t" by (rule page_inv_cong [OF pg]) simp_all
  ultimately have k: "kernel_inv b u (resumed ?t)"
    using kernel_inv_resumed [OF ok(2,3,4) _ tree] b(3) by simp
  have "switch_process ?v = switch_process ?t" using t(1) cv(2) b(2) by (simp add: switch_process_def)
  also have "\<dots> = Some (resumed ?t)" by (rule switch_process_eq) (use ok(1) in simp_all)
  finally have "pit_handler s = Some (Ret 0, resumed ?t)"
    using save_context_eq [OF goodD(4,5) [OF g(1)]] cv(2) by (simp add: pit_handler_def)
  moreover have "ta (resumed ?t) = 0" "cur_pid (resumed ?t) = 0" "\<forall>k < 3. running k (resumed ?t) = int k"
    using b(4) b(5) [of 0] b(5) by (simp_all add: resumed_fields next_term_def) (simp_all add: running_def)
  ultimately show ?thesis using k by blast
qed

subsection \<open>The hand-over\<close>

lemma shows_boot_info:
  assumes "CHECK_FLAG (mb_flags mbi) 2 \<longrightarrow> ld_cstr bm (cmdline mbi) \<noteq> None"
  shows "shows_text (show_boot_info bm mbi)"
proof -
  have c: "shows_text (\<lambda>s. do { b \<leftarrow> ld_cstr bm (cmdline mbi); print (''cmdline = %s'' @ NLs) [Va_str b] s })"
    if "CHECK_FLAG (mb_flags mbi) 2"
  proof -
    from assms that obtain b where b: "ld_cstr bm (cmdline mbi) = Some b" by auto
    then have "shows_text (print (''cmdline = %s'' @ NLs) [Va_str b])"
      by (intro shows_print) (simp add: bytes_def ld_cstr_terminated)
    then show ?thesis using b by (simp add: shows_text_def)
  qed
  show ?thesis unfolding show_boot_info_def
    by (intro shows_bind shows_if shows_Some shows_print shows_each shows_module c) (simp_all add: bytes_def)
qed

lemma shows_memory_info:
  assumes "CHECK_FLAG (mb_flags mbi) 6 \<longrightarrow> mmap_chain bm (mmap_addr mbi + mmap_length mbi) (mmap_addr mbi) n"
  shows "shows_text (show_memory_info bm mbi)"
proof -
  have "shows_text (mmap_loop bm (mmap_addr mbi + mmap_length mbi) (mmap_addr mbi))" if "CHECK_FLAG (mb_flags mbi) 6"
    using assms that shows_mmap by blast
  then show ?thesis unfolding show_memory_info_def
    by (intro shows_bind shows_if shows_Some shows_print) (simp_all add: bytes_def)
qed

lemma entry_starts_shell:
  assumes "fresh s" "loader_ok bm addr n"
  shows "\<exists>eip s'. entry lk bm MULTIBOOT_BOOTLOADER_MAGIC addr s = Some (Running eip 0x83FFFFC, s')
    \<and> boot_inv (pt_at lk) (pt_user_at lk) 0 s'"
proof -
  let ?mbi = "ld_mbi bm addr"
  let ?m = "ld_module bm (mods_addr ?mbi)"
  let ?img = "ld_bytes bm (mod_start ?m) (unat (mod_end ?m - mod_start ?m))"
  have l: "\<not> (CHECK_FLAG (mb_flags ?mbi) 4 \<and> CHECK_FLAG (mb_flags ?mbi) 5)"
    "CHECK_FLAG (mb_flags ?mbi) 2 \<longrightarrow> ld_cstr bm (cmdline ?mbi) \<noteq> None"
    "CHECK_FLAG (mb_flags ?mbi) 6 \<longrightarrow> mmap_chain bm (mmap_addr ?mbi + mmap_length ?mbi) (mmap_addr ?mbi) n"
    "image_ok ?img" using assms(2) by (simp_all add: loader_ok_def Let_def)
  obtain t where t: "show_boot_info bm ?mbi (clear s) = Some (fold putc t (clear s))"
    using shows_boot_info [OF l(2)] unfolding shows_text_def by blast
  obtain t' where t': "show_memory_info bm ?mbi (fold putc t (clear s)) = Some (fold putc t' (fold putc t (clear s)))"
    using shows_memory_info [OF l(3)] unfolding shows_text_def by blast
  let ?s = "fold putc t' (fold putc t (clear s))"
  have "fresh ?s"
    using console_step_trans [OF console_step_clear console_step_trans [OF console_step_fold_putc console_step_fold_putc]]
    by (rule fresh_console [OF assms(1)])
  then have "fresh (load_descriptors lk ?s)"
    by (simp add: load_descriptors_def Let_def fresh_def tables_clear_def running_def console_inv_def screen_inv_def kb_safe_def video_ok_def
        out_page_def)
  then obtain i where i: "init_devices lk ?img (load_descriptors lk ?s) = Some i" "start_ready (pt_at lk) (pt_user_at lk) 0 i"
    using init_devices_ready [OF _ l(4)] by blast
  obtain eip s' where "sys_execute shell_cmd i = Some (Enter_user eip 0x83FFFFC, s')" "boot_inv (pt_at lk) (pt_user_at lk) 0 s'"
    using start_shell [OF i(2)] by auto
  then show ?thesis using l(1) t t' i(1) by (auto simp: entry_def Let_def)
qed


text \<open>
  A hand-over that is not acceptable is refused: with a wrong magic number, or with two memory formats announced at
  once, \<open>entry\<close> returns after printing on the cleared screen and has touched nothing else of the
  machine: no device, no descriptor table, no page table, no process.
\<close>

theorem entry_refuses:
  assumes "magic \<noteq> MULTIBOOT_BOOTLOADER_MAGIC \<or>
    CHECK_FLAG (mb_flags (ld_mbi bm addr)) 4 \<and> CHECK_FLAG (mb_flags (ld_mbi bm addr)) 5
    \<and> (CHECK_FLAG (mb_flags (ld_mbi bm addr)) 2 \<longrightarrow> ld_cstr bm (cmdline (ld_mbi bm addr)) \<noteq> None)"
  shows "\<exists>t. entry lk bm magic addr s = Some (Not_booted, fold putc t (clear s))
    \<and> screen.more (fold putc t (clear s)) = screen.more s \<and> out_log (fold putc t (clear s)) = out_log s"
proof -
  have m: "screen.more (fold putc t u) = screen.more u" "out_log (fold putc t u) = out_log u" for t and u :: "'a kernel_scheme"
    by (induction t arbitrary: u) simp_all
  have "\<exists>t. entry lk bm magic addr s = Some (Not_booted, fold putc t (clear s))"
  proof (cases "magic = MULTIBOOT_BOOTLOADER_MAGIC")
    case False
    have "shows_text (print (''Invalid magic number: 0x%#x'' @ NLs) [Va_num magic] :: 'a kernel_scheme \<Rightarrow> 'a kernel_scheme option)"
      by (rule shows_print) (simp add: bytes_def)
    then obtain t where "print (''Invalid magic number: 0x%#x'' @ NLs) [Va_num magic] (clear s) = Some (fold putc t (clear s))"
      unfolding shows_text_def by blast
    then show ?thesis using False by (auto simp: entry_def Let_def)
  next
    case True
    then have c: "CHECK_FLAG (mb_flags (ld_mbi bm addr)) 4" "CHECK_FLAG (mb_flags (ld_mbi bm addr)) 5"
      "CHECK_FLAG (mb_flags (ld_mbi bm addr)) 2 \<longrightarrow> ld_cstr bm (cmdline (ld_mbi bm addr)) \<noteq> None" using assms by auto
    have "shows_text (\<lambda>s :: 'a kernel_scheme. Option.bind (show_boot_info bm (ld_mbi bm addr) s)
        (print (''Both bits 4 and 5 are set.'' @ NLs) []))"
      by (intro shows_bind shows_boot_info [OF c(3)] shows_print) (simp add: bytes_def)
    then obtain t where "Option.bind (show_boot_info bm (ld_mbi bm addr) (clear s)) (print (''Both bits 4 and 5 are set.'' @ NLs) [])
        = Some (fold putc t (clear s))" unfolding shows_text_def by blast
    then show ?thesis using True c(1,2) by (auto simp: entry_def Let_def split: bind_splits)
  qed
  then show ?thesis by (auto simp: m clear_def)
qed

lemma word_parts:
  "push_bit 24 (ucast (ucast (drop_bit 24 (a AND 0xFF000000)) :: u8)) OR push_bit 16 (ucast (ucast (drop_bit 16 (a AND 0xFF0000)) :: u8))
     OR ucast (ucast (a AND 0xFFFF) :: u16) = (a :: u32)" (is "?l = a")
  "push_bit 16 (ucast (ucast (drop_bit 16 (a AND 0xF0000)) :: 4 word)) OR ucast (ucast (a AND 0xFFFF) :: u16) = a AND 0xFFFFF" (is "?r = _")
proof -
  have m: "(0xFF000000 :: u32) = push_bit 24 (mask 8)" "(0x00FF0000 :: u32) = push_bit 16 (mask 8)" "(0x0000FFFF :: u32) = mask 16"
    "(0x000F0000 :: u32) = push_bit 16 (mask 4)" "(0xFFFFF :: u32) = mask 20"
    by (simp_all add: mask_eq_exp_minus_1 push_bit_eq_mult)
  have "bit ?l n = bit a n" if "n < 32" for n
  proof -
    consider "n < 16" | "16 \<le> n" "n < 24" | "24 \<le> n" by linarith
    then show ?thesis using that unfolding m by cases (auto simp: bit_simps)
  qed
  then show "?l = a" by (intro bit_word_eqI) simp
  show "?r = a AND 0xFFFFF" unfolding m by (rule bit_word_eqI) (auto simp: bit_simps)
qed

text \<open>
  The descriptor macros are exact: the base address the processor reassembles from the three fields of a
  segment descriptor is the address given, and the limit is the low 20 bits of the size.
\<close>

theorem segment_descriptor_roundtrip:
  "seg_base (SET_LDT_PARAMS d a lim) = a \<and> seg_limit (SET_LDT_PARAMS d a lim) = lim AND 0xFFFFF
   \<and> seg_base (SET_TSS_PARAMS d a lim) = a \<and> seg_limit (SET_TSS_PARAMS d a lim) = lim AND 0xFFFFF"
proof -
  have g: "seg_base (d\<lparr>base_31_24 := x, base_23_16 := y, base_15_00 := z, seg_lim_19_16 := v, seg_lim_15_00 := w\<rparr>)
      = push_bit 24 (ucast x) OR push_bit 16 (ucast y) OR ucast z"
    "seg_limit (d\<lparr>base_31_24 := x, base_23_16 := y, base_15_00 := z, seg_lim_19_16 := v, seg_lim_15_00 := w\<rparr>)
      = push_bit 16 (ucast v) OR ucast w" for x y z v w by (simp_all add: seg_base_def seg_limit_def)
  have "seg_base (SET_LDT_PARAMS d a lim) = a" "seg_limit (SET_LDT_PARAMS d a lim) = lim AND 0xFFFFF"
    unfolding SET_LDT_PARAMS_def g by (rule word_parts)+
  moreover have "SET_TSS_PARAMS d a lim = SET_LDT_PARAMS d a lim" by (simp add: SET_TSS_PARAMS_def SET_LDT_PARAMS_def)
  ultimately show ?thesis by simp
qed

lemma bss_fresh: "fresh (bss bm)"
  by (simp add: fresh_def bss_def proc.extend_def kbd.extend_def blank_defs console_inv_def screen_inv_def kb_safe_def cursor_ok_def list_all_iff
      pcb_ok_def blank_pcb_def tables_clear_def pte_def running_def)

lemma shell_image_ok: "image_ok shell_img"
  using shell_img_wf shell_img_exec shell_img_content(1) by (simp add: image_ok_def bytes_shell shell_img_words)

lemma boot_mem_image: "ld_bytes boot_mem 0x500000 12288 = shell_img"
proof (rule nth_equalityI)
  fix i assume "i < length (ld_bytes boot_mem 0x500000 12288)"
  then have i: "i < 12288" by (simp add: ld_bytes_def)
  have u: "unat (of_nat n :: u32) = n" if "n < 2 ^ 32" for n using that by (simp add: unsigned_of_nat take_bit_nat_eq_self)
  have "(0x500000 + of_nat i :: u32) = of_nat (0x500000 + i)" by simp
  then have "unat (0x500000 + of_nat i :: u32) = 0x500000 + i" using u [of "0x500000 + i"] i by (simp del: of_nat_add)
  then show "ld_bytes boot_mem 0x500000 12288 ! i = shell_img ! i"
    using i u [of i] by (simp add: ld_bytes_def boot_mem_def word_le_nat_alt word_less_nat_alt)
qed (simp add: ld_bytes_def length_shell_img)

lemma boot_mem_loader: "loader_ok boot_mem 0x10000 0"
proof -
  have w: "mods_addr (ld_mbi boot_mem 0x10000) = 0x20000" "mb_flags (ld_mbi boot_mem 0x10000) = 0"
    "ld_module boot_mem 0x20000 = \<lparr>mod_start = 0x500000, mod_end = 0x503000\<rparr>"
    by (simp_all add: ld_mbi_def ld_module_def ldl_def boot_mem_def le32_def)
  show ?thesis unfolding loader_ok_def Let_def w by (simp add: CHECK_FLAG_def boot_mem_image shell_image_ok)
qed


theorem entry_refuses_witness:
  "\<exists>t. entry boot_linked boot_mem 0 0x10000 (bss boot_mem) = Some (Not_booted, fold putc t (clear (bss boot_mem)))"
  using entry_refuses [of 0 boot_mem "0x10000" boot_linked "bss boot_mem"] by simp blast

lemma booted_inv: "kernel_inv 0x40B000 0x40C000 booted" "ta booted = 0" "k < 3 \<Longrightarrow> running k booted = int k"
proof -
  obtain e s0 where s0: "entry boot_linked boot_mem MULTIBOOT_BOOTLOADER_MAGIC 0x10000 (bss boot_mem) = Some (Running e 0x83FFFFC, s0)"
    "boot_inv 0x40B000 0x40C000 0 s0"
    using entry_starts_shell [OF bss_fresh [of boot_mem] boot_mem_loader, of boot_linked] by (auto simp: boot_linked_def)
  have t: "boot_inv b u (Suc j) (tick s)" if "boot_inv b u j s" "j < 2" for b u j and s :: kernel
    using tick_starts_shell [OF that] by (auto simp: tick_def)
  have "boot_inv 0x40B000 0x40C000 2 (tick (tick s0))"
    using t [OF t [OF s0(2)]] by (simp add: numeral_2_eq_2)
  moreover have "booted = tick (tick (tick s0))" by (simp add: booted_def s0(1))
  ultimately show "kernel_inv 0x40B000 0x40C000 booted" "ta booted = 0" "k < 3 \<Longrightarrow> running k booted = int k"
    using tick_completes_boot by (fastforce simp: tick_def)+
qed

end
