(* ===== verification/Self_Tests.thy ===== *)
theory Self_Tests
  imports Boot
begin

text \<open>
  The self tests of the kernel, \<^verbatim>\<open>code/tests.c\<close>, on the model of the kernel they test.  All of them are switched off: the calls in
  \<open>launch_tests\<close> are comments.  A test ends with its verdict, is ended by an exception, or still waits; a call with a null
  pointer, which the present drivers follow, is \<open>None\<close>.  The two tests that raise a system call with whatever the
  registers hold are left out.
\<close>

datatype test_end = Ends int | Raises nat | Waits

abbreviation PASS :: int where "PASS \<equiv> 1"
abbreviation FAIL :: int where "FAIL \<equiv> 0"
abbreviation lit :: "string \<Rightarrow> buf" where "lit x \<equiv> bytes x @ [0]"

definition TEST_HEADER :: "string \<Rightarrow> nat \<Rightarrow> 'a screen_scheme \<Rightarrow> 'a screen_scheme option" where
  "TEST_HEADER function line s =
     print (''[TEST %s] Running %s at %s:%d'' @ NLs)
       [Va_str (lit function), Va_str (lit function), Va_str (lit ''tests.c''), Va_num (of_nat line)] s"

subsection \<open>Descriptor table and exceptions\<close>

text \<open>\<open>assertion_failure\<close> raises interrupt 15 at the first entry without an address.\<close>

definition idt_test :: "'a kernel_scheme \<Rightarrow> (test_end \<times> 'a kernel_scheme) option" where
  "idt_test s = do {
     s \<leftarrow> TEST_HEADER ''idt_test'' 39 s;
     Some (if list_ex (\<lambda>i. offset_15_00 (idt_table s i) = 0 \<and> offset_31_16 (idt_table s i) = 0) [0..<10] then Raises 15
           else Ends PASS, s) }"

definition divide_by_zero_test :: "'a screen_scheme \<Rightarrow> (test_end \<times> 'a screen_scheme) option" where
  "divide_by_zero_test s = do { s \<leftarrow> TEST_HEADER ''divide_by_zero_test'' 64 s; Some (Raises 0, s) }"

definition overflow_test :: "'a screen_scheme \<Rightarrow> (test_end \<times> 'a screen_scheme) option" where
  "overflow_test s = do { s \<leftarrow> TEST_HEADER ''overflow_test'' 80 s; Some (Raises 4, s) }"

definition bounds_test :: "'a screen_scheme \<Rightarrow> (test_end \<times> 'a screen_scheme) option" where
  "bounds_test s = do { s \<leftarrow> TEST_HEADER ''bounds_test'' 95 s; Some (Raises 5, s) }"

text \<open>Loads by the kernel, one after the other; \<open>None\<close> of \<open>load\<close> is a page fault.\<close>

definition load :: "linked \<Rightarrow> u32 \<Rightarrow> 'a kernel_scheme \<Rightarrow> u8 option" where
  "load lk va s = map_option (pmem s) (translate (pt_at lk) (pt_user_at lk) s False va)"

definition paging_test_valid :: "linked \<Rightarrow> 'a kernel_scheme \<Rightarrow> (test_end \<times> 'a kernel_scheme) option" where
  "paging_test_valid lk s = do {
     s \<leftarrow> TEST_HEADER ''paging_test_valid'' 123 s;
     Some (if list_ex (\<lambda>va. load lk va s = None) [0x400000, 0x7FFFFF, 0xB8000, 0xB8FFF] then Raises 14 else Ends PASS, s) }"

definition paging_test_invalid :: "linked \<Rightarrow> 'a kernel_scheme \<Rightarrow> (test_end \<times> 'a kernel_scheme) option" where
  "paging_test_invalid lk s = do {
     s \<leftarrow> TEST_HEADER ''paging_test_invalid'' 150 s;
     Some (if list_ex (\<lambda>va. load lk va s = None) [0x300000, 0x8FFFFF, 0xB7000, 0xB9FFF] then Raises 14 else Ends FAIL, s) }"

subsection \<open>Terminal and clock\<close>

text \<open>\<open>ticks\<close>, \<open>keys\<close> and \<open>late\<close> are the interrupts during the two waits, \<open>arr\<close> is the uninitialised array.\<close>

definition terminal_read_test :: "('a kernel_scheme \<Rightarrow> 'a kernel_scheme option) list \<Rightarrow> ('a kernel_scheme \<Rightarrow> 'a kernel_scheme option) list
    \<Rightarrow> ('a kernel_scheme \<Rightarrow> 'a kernel_scheme option) list \<Rightarrow> buf \<Rightarrow> 'a kernel_scheme \<Rightarrow> (test_end \<times> 'a kernel_scheme) option" where
  "terminal_read_test ticks keys late arr s = do {
     s \<leftarrow> TEST_HEADER ''terminal_read_test'' 180 s;
     r \<leftarrow> rtc_read ticks s;
     case r of
       Blocked s \<Rightarrow> Some (Waits, s)
     | Returned _ s \<Rightarrow> do {
         (arr, r) \<leftarrow> terminal_read (Some arr) 128 keys late s;
         case r of
           Blocked s \<Rightarrow> Some (Waits, s)
         | Returned _ s \<Rightarrow> do {
             (_, s) \<leftarrow> puts arr (putc NL s);
             Some (Ends PASS, putc NL s) } } }"

definition terminal_write_test :: "'a screen_scheme \<Rightarrow> (test_end \<times> 'a screen_scheme) option" where
  "terminal_write_test s = do {
     s \<leftarrow> TEST_HEADER ''terminal_write_test'' 203 s;
     (_, s) \<leftarrow> terminal_write (Some (bytes ''hell'' @ [NL])) 5 s;
     Some (Ends PASS, s) }"

text \<open>
  Waits for the clock take their interrupts from a list of batches, one batch for each; when the list ends, the test still
  waits.  \<open>rtc_read_test\<close> has no other end.
\<close>

fun rtc_read_forever :: "('a rtc_scheme \<Rightarrow> 'a rtc_scheme option) list list \<Rightarrow> 'a rtc_scheme \<Rightarrow> (test_end \<times> 'a rtc_scheme) option" where
  "rtc_read_forever [] s = Some (Waits, s)"
| "rtc_read_forever (evs # batches) s = do {
     r \<leftarrow> rtc_read evs s;
     case r of Blocked s \<Rightarrow> Some (Waits, s) | Returned _ s \<Rightarrow> rtc_read_forever batches s }"

definition rtc_read_test :: "('a rtc_scheme \<Rightarrow> 'a rtc_scheme option) list list \<Rightarrow> 'a rtc_scheme \<Rightarrow> (test_end \<times> 'a rtc_scheme) option" where
  "rtc_read_test batches s = do { s \<leftarrow> TEST_HEADER ''rtc_read_test'' 218 s; rtc_read_forever batches s }"

text \<open>The inner loop: \<open>n\<close> more waits, with a character after each; \<open>None\<close> in the first component if it still waits.\<close>

fun rtc_show :: "nat \<Rightarrow> ('a rtc_scheme \<Rightarrow> 'a rtc_scheme option) list list \<Rightarrow> 'a rtc_scheme
    \<Rightarrow> (('a rtc_scheme \<Rightarrow> 'a rtc_scheme option) list list option \<times> 'a rtc_scheme) option" where
  "rtc_show 0 batches s = Some (Some batches, s)"
| "rtc_show (Suc n) [] s = Some (None, s)"
| "rtc_show (Suc n) (evs # batches) s = do {
     r \<leftarrow> rtc_read evs s;
     case r of Blocked s \<Rightarrow> Some (None, s) | Returned _ s \<Rightarrow> rtc_show n batches (putc (of_char (CHR ''1'')) s) }"

text \<open>The rounds for the indices \<open>is\<close>; the buffer of every call is the null pointer.\<close>

fun rtc_write_rounds :: "nat list \<Rightarrow> ('a rtc_scheme \<Rightarrow> 'a rtc_scheme option) list list \<Rightarrow> 'a rtc_scheme \<Rightarrow> (test_end \<times> 'a rtc_scheme) option" where
  "rtc_write_rounds [] batches s = Some (Ends PASS, s)"
| "rtc_write_rounds (i # is) batches s = do {
     (_, s) \<leftarrow> (if i = 12 then rtc_open s else rtc_write [] ([3, 4, 5, 6, 7, 8, 9, 10, 11, 12, 13, 14, 15] ! i) s);
     (left, s) \<leftarrow> rtc_show 40 batches s;
     case left of None \<Rightarrow> Some (Waits, s) | Some batches \<Rightarrow> rtc_write_rounds is batches (clear_screen s) }"

definition rtc_write_test :: "('a rtc_scheme \<Rightarrow> 'a rtc_scheme option) list list \<Rightarrow> 'a rtc_scheme \<Rightarrow> (test_end \<times> 'a rtc_scheme) option" where
  "rtc_write_test batches s = do {
     s \<leftarrow> TEST_HEADER ''rtc_write_test'' 234 s;
     rtc_write_rounds (rev [0..<13]) batches (clear_screen s) }"

subsection \<open>Files\<close>

text \<open>The calls of \<open>dir_read\<close> with the values they must return.\<close>

fun dir_reads :: "int list \<Rightarrow> 'a proc_scheme \<Rightarrow> (test_end \<times> 'a proc_scheme) option" where
  "dir_reads [] s = Some (Ends PASS, s)"
| "dir_reads (n # ns) s = do {
     (r, out, i) \<leftarrow> dir_read (fs_img s) (read_index s) 10000;
     let s = s\<lparr>read_index := i\<rparr>;
     if r \<noteq> n then Some (Ends FAIL, s) else dir_reads ns s }"

definition name_lengths :: "int list" where
  "name_lengths = [1, 7, 5, 4, 6, 3, 4, 7, 8, 3, 10, 32, 2, 9, 11, 10, 5]"

definition dir_read_test :: "'a proc_scheme \<Rightarrow> (test_end \<times> 'a proc_scheme) option" where
  "dir_read_test s = do {
     s \<leftarrow> TEST_HEADER ''dir_read_test'' 272 (clear_screen s);
     dir_reads (name_lengths @ [0, 0, 0]) s }"

definition dir_open_close_test :: "'a proc_scheme \<Rightarrow> (test_end \<times> 'a proc_scheme) option" where
  "dir_open_close_test s = do {
     s \<leftarrow> TEST_HEADER ''dir_open_close_test'' 303 s;
     (r, i) \<leftarrow> dir_open (fs_img s) (lit ''.'');
     let s = s\<lparr>read_index := i\<rparr>;
     if r \<noteq> 0 then Some (Ends FAIL, s)
     else do {
       let s = s\<lparr>read_index := snd dir_close\<rparr>;
       Some (if fst dir_close \<noteq> 0 then Ends FAIL else if dir_write [] 0 \<noteq> -1 then Ends FAIL else Ends PASS, s) } }"

definition file_open_close_test :: "'a proc_scheme \<Rightarrow> (test_end \<times> 'a proc_scheme) option" where
  "file_open_close_test s = do {
     s \<leftarrow> TEST_HEADER ''file_open_close_test'' 312 s;
     r \<leftarrow> file_open (fs_img s) (lit ''fish'');
     Some (if r \<noteq> 0 then Ends FAIL else if file_close \<noteq> 0 then Ends FAIL else if file_write [] 0 \<noteq> -1 then Ends FAIL else Ends PASS, s) }"

text \<open>
  \<open>file_read\<close> gets 0 for the address of the descriptor and loads the inode number from behind it; if that load does not
  fault, what follows is not given a meaning.
\<close>

definition file_read_at_0 :: "linked \<Rightarrow> 'a kernel_scheme \<Rightarrow> (test_end \<times> 'a kernel_scheme) option" where
  "file_read_at_0 lk s = (if load lk 4 s = None then Some (Raises 14, s) else None)"

definition file_read_test :: "linked \<Rightarrow> 'a kernel_scheme \<Rightarrow> (test_end \<times> 'a kernel_scheme) option" where
  "file_read_test lk s = do {
     s \<leftarrow> TEST_HEADER ''file_read_test'' 321 s;
     let s = clear_screen s;
     _ \<leftarrow> file_open (fs_img s) (lit ''verylargetextwithverylongname.tx'');
     file_read_at_0 lk s }"

definition file_read_exe_test :: "linked \<Rightarrow> 'a kernel_scheme \<Rightarrow> (test_end \<times> 'a kernel_scheme) option" where
  "file_read_exe_test lk s = do {
     s \<leftarrow> TEST_HEADER ''file_read_exe_test'' 334 s;
     let s = clear_screen s;
     _ \<leftarrow> file_open (fs_img s) (lit ''cat'');
     file_read_at_0 lk s }"

text \<open>Every call in it is a comment.\<close>

definition launch_tests :: "'a kernel_scheme \<Rightarrow> 'a kernel_scheme" where
  "launch_tests s = s"

text \<open>What the read number \<open>j\<close> of a directory returns.\<close>

definition read_length :: "buf list \<Rightarrow> nat \<Rightarrow> int" where
  "read_length names j = (if j < length names then int (length (names ! j)) else 0)"

subsection \<open>The state behind the messages\<close>

lemma header_shown:
  fixes s :: "'a screen_scheme"
  shows "\<exists>t. TEST_HEADER f n s = Some (fold putc t s)"
proof -
  have "shows_text (TEST_HEADER f n :: 'a screen_scheme \<Rightarrow> _)" unfolding TEST_HEADER_def by (rule shows_print) (simp add: bytes_def)
  then show ?thesis by (simp add: shows_text_def)
qed

lemma shown_more:
  fixes s :: "'a screen_scheme"
  shows "screen.more (fold putc t s) = screen.more s" "screen.more (clear_screen s) = screen.more s"
proof -
  show "screen.more (fold putc t s) = screen.more s" by (induction t arbitrary: s) simp_all
  show "screen.more (clear_screen s) = screen.more s" by (simp add: clear_screen_def clear_def Let_def upd_term_def)
qed

lemma more_kernel:
  fixes s s' :: "'a kernel_scheme"
  assumes "screen.more s = screen.more s'"
  shows "idt_table s = idt_table s'" "fs_img s = fs_img s'" "read_index s = read_index s'" "translate b u s = translate b u s'"
proof -
  show "idt_table s = idt_table s'" "fs_img s = fs_img s'" "read_index s = read_index s'" using assms by (cases s; cases s'; simp)+
  show "translate b u s = translate b u s'" by (intro ext) (simp only: translate_def kbd_fields_cong(6-8) [OF assms])
qed

lemma load_faults: "load lk va s = None \<longleftrightarrow> translate (pt_at lk) (pt_user_at lk) s False va = None"
  by (simp add: load_def)

lemma dir_reads_eq:
  fixes s :: "'a proc_scheme"
  assumes "fs_wf (fs_img s)" "names = dir_names (fs_img s)" "read_index s = of_nat (min k (length names))"
  shows "\<exists>s'. dir_reads ns s = Some (Ends (if ns = map (read_length names) [k..<k + length ns] then PASS else FAIL), s')"
  using assms
proof (induction ns arbitrary: k s)
  case (Cons n ns)
  let ?m = "min k (length names)"
  have l: "length names = img32 (fs_img s) 0" using Cons.prems(2) by (simp add: dir_names_def)
  then have m: "?m < 4294967296" using img32_bound [of "fs_img s" 0] by linarith
  have n: "entry_name (fs_img s) j = names ! j" if "j < length names" for j using that Cons.prems(2) by (simp add: dir_names_def)
  obtain out where out: "dir_read (fs_img s) (of_nat ?m) 10000 = Some (read_length names k, out, of_nat (min (Suc k) (length names)))"
    using dir_read_eq [OF Cons.prems(1) m, of 10000] n l that by (cases "k < length names") (auto simp: read_length_def min_def)
  let ?s = "s\<lparr>read_index := of_nat (min (Suc k) (length names))\<rparr>"
  obtain s' where s': "dir_reads ns ?s = Some (Ends (if ns = map (read_length names) [Suc k..<Suc k + length ns] then PASS else FAIL), s')"
    using Cons.IH [of ?s "Suc k"] Cons.prems(1,2) by auto
  have "map (read_length names) [k..<k + length (n # ns)] = read_length names k # map (read_length names) [Suc k..<Suc k + length ns]"
    using upt_conv_Cons [of k "k + length (n # ns)"] by (simp del: upt_Suc)
  moreover have "dir_reads (n # ns) s = (if read_length names k \<noteq> n then Some (Ends FAIL, ?s) else dir_reads ns ?s)"
    using out Cons.prems(3) by (simp add: Let_def)
  ultimately show ?case using s' by (auto simp del: upt_Suc dir_reads.simps)
qed simp

lemma dir_read_lengths:
  assumes "[] \<notin> set names"
  shows "name_lengths @ [0, 0, 0] = map (read_length names) [0..<20] \<longleftrightarrow> map (\<lambda>x. int (length x)) names = name_lengths"
proof
  assume e: "name_lengths @ [0, 0, 0] = map (read_length names) [0..<20]"
  have n: "read_length names j = (name_lengths @ [0, 0, 0]) ! j" if "j < 20" for j using that unfolding e by simp
  have "read_length names 16 = 5" "read_length names 17 = 0" using n [of 16] n [of 17] by (simp_all add: name_lengths_def)
  moreover have "names ! 17 \<noteq> []" if "17 < length names" using that assms by (metis nth_mem)
  ultimately have l: "length names = 17" by (auto simp: read_length_def split: if_splits)
  have "int (length (names ! j)) = name_lengths ! j" if "j < 17" for j
    using n [of j] that l by (simp add: read_length_def nth_append) (simp add: name_lengths_def)
  then show "map (\<lambda>x. int (length x)) names = name_lengths"
    using l by (intro nth_equalityI) (simp_all add: name_lengths_def)
next
  assume e: "map (\<lambda>x. int (length x)) names = name_lengths"
  have l: "length name_lengths = 17" by (simp add: name_lengths_def)
  then have n: "length names = 17" using arg_cong [OF e, of length] by simp
  have "int (length (names ! j)) = name_lengths ! j" if "j < 17" for j using that n unfolding e [symmetric] by simp
  moreover have "[0, 0, 0] ! (j - 17) = (0 :: int)" if "\<not> j < 17" "j < 20" for j
  proof -
    have "j = 17 \<or> j = 18 \<or> j = 19" using that by linarith
    then show ?thesis by auto
  qed
  ultimately show "name_lengths @ [0, 0, 0] = map (read_length names) [0..<20]"
    using l n by (intro nth_equalityI) (auto simp: read_length_def nth_append)
qed

lemma lookup_verdict:
  assumes "fs_wf img" "0 \<in> set fname"
  shows "(if cstr fname \<noteq> [] \<and> length (cstr fname) \<le> 32 \<and> cstr fname \<in> set (dir_names img)
    then \<exists>d. read_dentry_by_name img fname = Some (Inr d) else read_dentry_by_name img fname = Some (Inl (-1)))"
proof (cases "lookup_entry img (cstr fname)")
  case None
  then show ?thesis using lookup_entry_None [of img "cstr fname"] by (simp add: read_dentry_by_name_eq [OF assms])
next
  case (Some k)
  then have "k < img32 img 0" "cstr fname \<in> set (dir_names img)" using lookup_entry_Some lookup_entry_None [of img "cstr fname"] by auto
  moreover obtain d where "rd_dentry img k = Some d" using fs_wf_entry(3) [OF assms(1) calculation(1)] by blast
  ultimately show ?thesis using Some by (simp add: read_dentry_by_name_eq [OF assms])
qed

lemma gates_set:
  assumes "\<forall>h. addr h \<noteq> 0" "i < 10"
  shows "\<not> (offset_15_00 (initialize_idt addr idt i) = 0 \<and> offset_31_16 (initialize_idt addr idt i) = 0)"
proof -
  have "map_of idt_handlers i \<noteq> None"
    using assms(2) by (auto simp: map_of_eq_None_iff idt_handlers_def)
  then obtain h where h: "map_of idt_handlers i = Some h" by blast
  then have "gate_target (initialize_idt addr idt i) = addr h"
    using assms(2) initialize_idt_apply [of i addr idt] target_set by simp
  then show ?thesis using assms(1) by (auto simp: gate_target_def)
qed

text \<open>The second call of \<open>rtc_write\<close> in the test already has a null pointer to follow.\<close>

lemma null_write: "i \<noteq> 12 \<Longrightarrow> rtc_write_rounds (i # is) batches s = None"
  by (simp add: rtc_write_def rd32_def rd_def)

lemma rtc_write_stops: "rtc_write_test batches s = None \<or> (\<exists>s'. rtc_write_test batches s = Some (Waits, s'))"
proof -
  have "rev [0..<13] = 12 # 11 # rev [0..<11]" by (simp add: upt_rec)
  then show ?thesis using header_shown [of "''rtc_write_test''" 234 s]
    by (auto simp: rtc_write_test_def null_write simp del: rtc_write_rounds.simps(2) upt_rec_numeral)
      (auto simp: rtc_write_rounds.simps(2) [of 12] null_write simp del: rtc_write_rounds.simps(2) split: bind_splits option.splits)
qed

lemma init_devices_tables:
  fixes s :: "'a kernel_scheme"
  assumes "init_devices lk img s = Some s'" "length (process_rtc s) = 6"
  shows "idt_table s' = initialize_idt (stub_addr lk) (idt_table s)" "fs_img s' = img" "read_index s' = read_index s"
proof -
  define s1 where "s1 = keyboard_init (pit_init (i8259_init (s\<lparr>idt_table := initialize_idt (stub_addr lk) (idt_table s)\<rparr>)))"
  have m: "screen.more s1 = screen.more (s\<lparr>idt_table := initialize_idt (stub_addr lk) (idt_table s)\<rparr>)"
    by (simp add: s1_def keyboard_init_def enable_irq_def pit_init_def i8259_init_def machine_defs Let_def)
  obtain t where t: "rtc_init (reg_b lk) (reg_a lk) s1 = Some (t\<lparr>process_rtc := replicate 6 1024\<rparr>)" "screen.more t = screen.more s1"
  proof
    show "rtc_init (reg_b lk) (reg_a lk) s1 = Some ((sti (restore_flags (iflag s1) (outb ((reg_a lk AND 0xF0) OR MIN_VIR_RATE) RW (outb REG_A NMI (outb REG_A NMI
      (enable_irq 8 (outb (reg_b lk OR 0x40) RW (outb REG_B NMI (outb REG_B NMI (snd (cli_and_save s1))))))))))) \<lparr>process_rtc := replicate 6 1024\<rparr>)"
      using assms(2) kbd_fields_cong(3) [OF m] by (simp add: rtc_init_def machine_defs Let_def enable_irq_def each_process_rtc)
  qed (simp add: enable_irq_def machine_defs Let_def)
  let ?t = "t\<lparr>process_rtc := replicate 6 1024, fs_img := img\<rparr>"
  let ?p = "paging_init (pt_at lk) (pt_user_at lk) ?t"
  have i: "s' = sti (clear_screen (delete_cursor (process_init ?p)))"
    using t(1) assms(1) by (simp add: init_devices_def s1_def Let_def)
  obtain d p q where p: "?p = ?t\<lparr>pd := d, pt := p, pt_user := q\<rparr>"
    using paging_init_only [of ?t "pt_at lk" "pt_user_at lk"] unfolding tables_only_def by blast
  have "screen.more (sti (clear_screen (delete_cursor x))) = screen.more x" for x :: "'a kernel_scheme"
    by (simp add: sti_def shown_more delete_cursor_def outb_def)
  note k = more_kernel [OF this [of "process_init ?p"], folded i]
  have r: "idt_table (process_init x) = idt_table x" "fs_img (process_init x) = fs_img x" "read_index (process_init x) = read_index x" for x :: "'a kernel_scheme"
    by (simp_all add: process_init_def upd_term_def Let_def)
  show "idt_table s' = initialize_idt (stub_addr lk) (idt_table s)" "fs_img s' = img" "read_index s' = read_index s"
    using k(1-3) r [of ?p] more_kernel(1,3) [OF trans [OF t(2) m]] unfolding p by simp_all
qed

lemma self_tests:
  fixes s :: "'a kernel_scheme"
  assumes "idt_table s = initialize_idt (stub_addr lk) idt0" "\<forall>h. stub_addr lk h \<noteq> 0"
    and "page_inv (pt_at lk) (pt_user_at lk) f v s" "tables_at (pt_at lk) (pt_user_at lk)"
    and "fs_wf (fs_img s)" "[] \<notin> set (dir_names (fs_img s))" "read_index s = 0"
  shows "\<exists>t. idt_test s = Some (Ends PASS, fold putc t s)"
    "\<exists>t. paging_test_valid lk s = Some (Ends PASS, fold putc t s)"
    "\<exists>t. paging_test_invalid lk s = Some (Raises 14, fold putc t s)"
    "\<exists>t. terminal_write_test s = Some (Ends PASS, fold putc (t @ bytes ''hell'' @ [NL]) s)"
    "\<exists>s'. dir_read_test s = Some (Ends (if map (\<lambda>x. int (length x)) (dir_names (fs_img s)) = name_lengths then PASS else FAIL), s')"
    "\<exists>s'. dir_open_close_test s = Some (Ends (if bytes ''.'' \<in> set (dir_names (fs_img s)) then PASS else FAIL), s')"
    "file_open_close_test s = None \<or> (\<exists>s'. file_open_close_test s = Some (Ends FAIL, s'))"
    "file_read_test lk s = None \<or> (\<exists>s'. file_read_test lk s = Some (Raises 14, s'))"
    "rtc_write_test batches s = None \<or> (\<exists>s'. rtc_write_test batches s = Some (Waits, s'))"
proof -
  note sm = more_kernel [OF shown_more(1)]
  have tr: "translate (pt_at lk) (pt_user_at lk) s False va = (if 0xB8000 \<le> unat va \<and> unat va < 0xBC000 \<or> 0x400000 \<le> unat va \<and> unat va < 0x800000 then Some va else None)"
    if "unat va < 0x8000000" for va by (rule translate_kernel_eq [OF assms(3,4) that])
  have g: "\<not> list_ex (\<lambda>i. offset_15_00 (idt_table s i) = 0 \<and> offset_31_16 (idt_table s i) = 0) [0..<10]"
    unfolding list_ex_iff set_upt assms(1) using gates_set [OF assms(2)] by auto
  show "\<exists>t. idt_test s = Some (Ends PASS, fold putc t s)"
    using header_shown [of "''idt_test''" 39 s] g by (auto simp: idt_test_def sm simp del: upt_rec_numeral)
  show "\<exists>t. paging_test_valid lk s = Some (Ends PASS, fold putc t s)"
    using header_shown [of "''paging_test_valid''" 123 s] by (auto simp: paging_test_valid_def load_faults sm tr)
  show "\<exists>t. paging_test_invalid lk s = Some (Raises 14, fold putc t s)"
    using header_shown [of "''paging_test_invalid''" 150 s] by (auto simp: paging_test_invalid_def load_faults sm tr)
  show "\<exists>t. terminal_write_test s = Some (Ends PASS, fold putc (t @ bytes ''hell'' @ [NL]) s)"
    using header_shown [of "''terminal_write_test''" 203 s] by (auto simp: terminal_write_test_def terminal_write_def write_loop_eq bytes_def)
  show "\<exists>s'. dir_read_test s = Some (Ends (if map (\<lambda>x. int (length x)) (dir_names (fs_img s)) = name_lengths then PASS else FAIL), s')"
  proof -
    obtain t where h: "TEST_HEADER ''dir_read_test'' 272 (clear_screen s) = Some (fold putc t (clear_screen s))" using header_shown by blast
    let ?s = "fold putc t (clear_screen s)"
    have k: "fs_img ?s = fs_img s" "read_index ?s = 0" using assms(7) by (simp_all add: sm more_kernel(2,3) [OF shown_more(2)])
    have "length (name_lengths @ [0, 0, 0]) = 20" by (simp add: name_lengths_def)
    then show ?thesis using dir_reads_eq [of ?s "dir_names (fs_img s)" 0 "name_lengths @ [0, 0, 0]"] dir_read_lengths [OF assms(6)] k assms(5) h
      by (simp add: dir_read_test_def del: upt_rec_numeral)
  qed
  show "\<exists>s'. dir_open_close_test s = Some (Ends (if bytes ''.'' \<in> set (dir_names (fs_img s)) then PASS else FAIL), s')"
  proof -
    obtain t where h: "TEST_HEADER ''dir_open_close_test'' 303 s = Some (fold putc t s)" using header_shown by blast
    have "cstr (lit ''.'') = bytes ''.''" by (simp add: bytes_def cstr_def)
    then show ?thesis using lookup_verdict [OF assms(5), of "lit ''.''"] h
      by (auto simp: dir_open_close_test_def dir_open_def sm dir_close_def dir_write_def bytes_def Let_def split: if_splits)
  qed
  show "file_open_close_test s = None \<or> (\<exists>s'. file_open_close_test s = Some (Ends FAIL, s'))"
    using header_shown [of "''file_open_close_test''" 312 s] lookup_verdict [OF assms(5), of "lit ''fish''"]
    by (auto simp: file_open_close_test_def file_open_def sm split: if_splits)
  show "file_read_test lk s = None \<or> (\<exists>s'. file_read_test lk s = Some (Raises 14, s'))"
    using header_shown [of "''file_read_test''" 321 s] more_kernel(2) [OF shown_more(2)] more_kernel(4) [OF shown_more(2)]
    by (auto simp: file_read_test_def file_read_at_0_def load_faults sm tr Let_def split: bind_splits)
  show "rtc_write_test batches s = None \<or> (\<exists>s'. rtc_write_test batches s = Some (Waits, s'))"
    by (rule rtc_write_stops)
qed


lemma shell_img_names: "dir_names shell_img = [bytes ''shell'']"
  by (simp add: dir_names_def shell_img_words entry_name_def dentry_off_def) (simp add: shell_img_def cstr_def bytes_def)


end
