(* ===== verification/User_Support.thy ===== *)
theory User_Support
  imports Lib_String
begin

text \<open>
  The library of the user programs, \<^verbatim>\<open>syscalls/ece391support.c\<close>, and what they use of the kernel: the
  system calls of \<^verbatim>\<open>syscalls/ece391syscall.h\<close> as a record of operations on a state \<open>'s\<close>.  A program is a
  function of that record, so it runs on the kernel's own model and on any other.  Pointers are
  lists of bytes as in the kernel's library; the programs never pass a null pointer to a call that stores.
\<close>

record 's os =
  os_execute :: "buf \<Rightarrow> 's \<Rightarrow> (int \<times> 's) option"
  os_read :: "int \<Rightarrow> buf \<Rightarrow> int \<Rightarrow> 's \<Rightarrow> (buf \<times> int \<times> 's) option"
  os_write :: "int \<Rightarrow> buf \<Rightarrow> int \<Rightarrow> 's \<Rightarrow> (int \<times> 's) option"
  os_open :: "buf \<Rightarrow> 's \<Rightarrow> (int \<times> 's) option"
  os_close :: "int \<Rightarrow> 's \<Rightarrow> (int \<times> 's) option"
  os_getargs :: "buf \<Rightarrow> int \<Rightarrow> 's \<Rightarrow> (buf \<times> int \<times> 's) option"
  os_vidmap :: "u32 \<Rightarrow> 's \<Rightarrow> (int \<times> 's) option"
  os_call :: "int \<Rightarrow> 's \<Rightarrow> (int \<times> 's) option"

text \<open>\<open>ece391_read\<close>, \<open>ece391_getargs\<close>: the buffer after the call, the value, the state; \<open>os_call\<close> is a bare call number.\<close>

fun ece391_strlen :: "buf \<Rightarrow> nat option" where
  "ece391_strlen [] = None"
| "ece391_strlen (c # s) = (if c \<noteq> 0 then map_option Suc (ece391_strlen s) else Some 0)"

text \<open>\<open>ece391_strcpy\<close> within one object, from index \<open>src\<close> to index \<open>dst\<close>; the regions may overlap.\<close>

function ece391_strcpy :: "buf \<Rightarrow> nat \<Rightarrow> nat \<Rightarrow> buf option" where
  "ece391_strcpy b dst src =
     (if src < length b
      then (case wr b dst (b ! src) of
              None \<Rightarrow> None
            | Some b' \<Rightarrow> if b ! src \<noteq> 0 then ece391_strcpy b' (Suc dst) (Suc src) else Some b')
      else None)"
  by pat_completeness auto
termination
  by (relation "measure (\<lambda>(b, d, s). length b - s)") (auto simp: wr_def split: if_splits)

declare ece391_strcpy.simps [simp del]

definition ece391_fdputs :: "'s os \<Rightarrow> int \<Rightarrow> buf \<Rightarrow> 's \<Rightarrow> 's option" where
  "ece391_fdputs os fd s st = do { n \<leftarrow> ece391_strlen s; (_, st) \<leftarrow> os_write os fd s (int n) st; Some st }"

fun ece391_strcmp :: "buf \<Rightarrow> buf \<Rightarrow> int option" where
  "ece391_strcmp (a # s1) (b # s2) =
     (if a = b then (if a = 0 then Some 0 else ece391_strcmp s1 s2) else Some (uint a - uint b))"
| "ece391_strcmp _ _ = None"

fun ece391_strncmp_loop :: "buf \<Rightarrow> buf \<Rightarrow> nat \<Rightarrow> int option" where
  "ece391_strncmp_loop (a # s1) (b # s2) n =
     (if a = b then (if a = 0 \<or> n - 1 = 0 then Some 0 else ece391_strncmp_loop s1 s2 (n - 1)) else Some (uint a - uint b))"
| "ece391_strncmp_loop _ _ n = None"

definition ece391_strncmp :: "buf \<Rightarrow> buf \<Rightarrow> nat \<Rightarrow> int option" where
  "ece391_strncmp s1 s2 n = (if n = 0 then Some 0 else ece391_strncmp_loop s1 s2 n)"

function ece391_strrev_loop :: "buf \<Rightarrow> int \<Rightarrow> int \<Rightarrow> buf" where
  "ece391_strrev_loop s b e =
     (if b < e
      then ece391_strrev_loop (let tmp = s ! nat e; s = s[nat e := s ! nat b] in s[nat b := tmp]) (b + 1) (e - 1)
      else s)"
  by pat_completeness auto
termination
  by (relation "measure (\<lambda>(s, b, e). nat (e - b))") auto

definition ece391_strrev :: "buf \<Rightarrow> buf option" where
  "ece391_strrev s = do {
     n \<leftarrow> ece391_strlen s;
     let e = int n - 1;
     if e \<le> 0 then Some s else Some (ece391_strrev_loop s 0 e) }"

function ece391_itoa_loop :: "u32 \<Rightarrow> buf \<Rightarrow> nat \<Rightarrow> u32 \<Rightarrow> (buf \<times> nat) option" where
  "ece391_itoa_loop newval buf pos radix =
     (if newval > 0
      then (if radix = 0 then None
            else (case rd lookup (unat (newval mod radix)) of
                    None \<Rightarrow> None
                  | Some c \<Rightarrow>
                      (if pos < length buf
                       then ece391_itoa_loop (newval div radix) (buf[pos := c]) (Suc pos) radix
                       else None)))
      else Some (buf, pos))"
  by pat_completeness auto
termination
  by (relation "measure (\<lambda>(v, b, p, r). length b - p)") auto

definition ece391_itoa :: "u32 \<Rightarrow> buf \<Rightarrow> u32 \<Rightarrow> buf option" where
  "ece391_itoa value buf radix =
     (if value = 0 then do { b \<leftarrow> wr buf 0 (of_char (CHR ''0'')); wr b 1 0 }
      else do {
        (b, p) \<leftarrow> ece391_itoa_loop value buf 0 radix;
        b \<leftarrow> wr b p 0;
        ece391_strrev b })"

declare ece391_strrev_loop.simps [simp del] ece391_itoa_loop.simps [simp del]

text \<open>A string literal without and with a newline at its end, and its terminator.\<close>

abbreviation msg :: "string \<Rightarrow> buf" where "msg x \<equiv> bytes x @ [0]"
abbreviation msgln :: "string \<Rightarrow> buf" where "msgln x \<equiv> bytes x @ [10, 0]"

subsection \<open>The library functions\<close>

lemma ece391_strlen_eq: "ece391_strlen s = (if 0 \<in> set s then Some (length (cstr s)) else None)"
  by (induction s) (auto simp: cstr_def)

lemma ece391_strcmp_0_iff:
  assumes "0 \<in> set s" "0 \<in> set t"
  shows "\<exists>d. ece391_strcmp s t = Some d \<and> (d = 0 \<longleftrightarrow> cstr s = cstr t)"
  using assms
  by (induction s t rule: ece391_strcmp.induct) (auto simp: cstr_def unsigned_eq_0_iff dest: unsigned_word_eqI)

text \<open>The copies of \<open>itoa\<close> and \<open>strrev\<close> for user programs compute what the kernel's do.\<close>

lemma ece391_strrev_loop_eq: "0 \<le> b \<Longrightarrow> ece391_strrev_loop s b e = strrev_loop s b e"
proof (induction s b e rule: ece391_strrev_loop.induct)
  case (1 s b e)
  have "b < e \<Longrightarrow> (let tmp = s ! nat e; s = s[nat e := s ! nat b] in s[nat b := tmp]) = s[nat e := s ! nat b, nat b := s ! nat e]"
    by (simp add: Let_def)
  with 1 show ?case by (subst ece391_strrev_loop.simps, subst strrev_loop.simps) simp
qed

lemma ece391_strrev_eq: "ece391_strrev s = strrev s"
  by (cases "0 \<in> set s") (auto simp: ece391_strrev_def strrev_def ece391_strlen_eq strlen_eq Let_def ece391_strrev_loop_eq strrev_loop.simps [of s 0])

lemma ece391_itoa_loop_eq: "ece391_itoa_loop v b p r = itoa_loop v b p r"
  by (induction v b p r rule: ece391_itoa_loop.induct)
    (subst ece391_itoa_loop.simps, subst itoa_loop.simps, simp split: option.split)

lemma ece391_itoa_eq: "ece391_itoa v b r = itoa v b r"
proof -
  have "ece391_strrev = strrev" by (rule ext) (rule ece391_strrev_eq)
  then show ?thesis by (simp add: ece391_itoa_def itoa_def ece391_itoa_loop_eq)
qed

subsection \<open>Standard output\<close>

text \<open>
  What a program may expect of descriptor 1: in an acceptable state the call writes all its bytes, which appear one
  after the other on the display the program sees.
\<close>

locale std_output =
  fixes os :: "'s os" and ok :: "'s \<Rightarrow> bool" and view :: "'s \<Rightarrow> 'v" and emit :: "u8 \<Rightarrow> 'v \<Rightarrow> 'v"
  assumes write_out: "ok s \<Longrightarrow> n \<le> length b \<Longrightarrow>
    \<exists>s'. os_write os 1 b (int n) s = Some (int n, s') \<and> ok s' \<and> view s' = fold emit (take n b) (view s)"
begin

lemma fdputs_out:
  assumes "ok s" "0 \<in> set b"
  shows "\<exists>s'. ece391_fdputs os 1 b s = Some s' \<and> ok s' \<and> view s' = fold emit (cstr b) (view s)"
proof -
  have "take (length (cstr b)) b = cstr b" by (simp add: cstr_def flip: takeWhile_eq_take)
  then show ?thesis using write_out [OF assms(1), of "length (cstr b)" b] assms(2) length_cstr_le [of b]
    by (auto simp: ece391_fdputs_def ece391_strlen_eq)
qed

end

end
