(* ===== verification/User_Programs.thy ===== *)
theory User_Programs
  imports User_Support Lib_Printf
begin

text \<open>
  The user programs of \<^verbatim>\<open>src/syscalls\<close> as functions of the system calls: \<open>cat\<close>, \<open>ls\<close>, \<open>grep\<close>, \<open>hello\<close>,
  \<open>testprint\<close>, \<open>counter\<close> and the shell.  \<open>main\<close> gets the uninitialised contents of its local arrays as arguments and gives
  its return value, with which the start-up code calls halt.  Loops whose end depends on the system calls
  are partial functions: \<open>None\<close> is a fault or a loop that does not end.
\<close>

subsection \<open>Printing programs\<close>

definition testprint_main :: "'s os \<Rightarrow> 's \<Rightarrow> (int \<times> 's) option" where
  "testprint_main os st = do { st \<leftarrow> ece391_fdputs os 1 (msgln ''Hello, if this ran, the program was correct. Yay!'') st; Some (0, st) }"

definition hello_main :: "'s os \<Rightarrow> buf \<Rightarrow> 's \<Rightarrow> (int \<times> 's) option" where
  "hello_main os buf st = do {
     st \<leftarrow> ece391_fdputs os 1 (msg ''Hi, what's your name? '') st;
     (buf, cnt, st) \<leftarrow> os_read os 0 buf 1023 st;
     if cnt = -1 then do { st \<leftarrow> ece391_fdputs os 1 (msgln ''Can't read name from keyboard.'') st; Some (3, st) }
     else do {
       buf \<leftarrow> wr_int buf cnt 0;
       st \<leftarrow> ece391_fdputs os 1 (msg ''Hello, '') st;
       st \<leftarrow> ece391_fdputs os 1 buf st;
       Some (0, st) } }"

text \<open>The choice of \<open>counter\<close>, from the line that was read; \<open>None\<close> in the second component is \<open>Wrong Choice\<close>.\<close>

definition counter_max :: "buf \<Rightarrow> nat option option" where
  "counter_max buf = do {
     n \<leftarrow> ece391_strlen buf;
     c \<leftarrow> rd buf 0;
     if n > 2 \<or> n = 2 \<and> (c < of_char (CHR ''0'') \<or> c > of_char (CHR ''2'')) then Some None
     else Some (Some (if c = of_char (CHR ''0'') then 100 else if c = of_char (CHR ''1'') then 10000
                      else if c = of_char (CHR ''2'') then 100000 else 0)) }"

definition counter_step :: "'s os \<Rightarrow> nat \<Rightarrow> buf \<times> 's \<Rightarrow> (buf \<times> 's) option" where
  "counter_step os i = (\<lambda>(buf, st). do {
     buf \<leftarrow> ece391_itoa (of_nat i + 1) buf 10;
     st \<leftarrow> ece391_fdputs os 1 buf st;
     st \<leftarrow> ece391_fdputs os 1 (msgln '''') st;
     Some (buf, st) })"

definition counter_main :: "'s os \<Rightarrow> buf \<Rightarrow> 's \<Rightarrow> (int \<times> 's) option" where
  "counter_main os buf st = do {
     st \<leftarrow> ece391_fdputs os 1 (msgln ''Enter the Test Number: (0): 100, (1): 10000, (2): 100000'') st;
     (buf, cnt, st) \<leftarrow> os_read os 0 buf 1023 st;
     if (word_of_int cnt :: u32) = -1
     then do { st \<leftarrow> ece391_fdputs os 1 (msgln ''Can't read the number from keyboard.'') st; Some (3, st) }
     else do {
       buf \<leftarrow> wr buf (unat (word_of_int cnt :: u32)) 0;
       m \<leftarrow> counter_max buf;
       case m of
         None \<Rightarrow> do { st \<leftarrow> ece391_fdputs os 1 (msgln ''Wrong Choice!'') st; Some (0, st) }
       | Some n \<Rightarrow> do { (buf, st) \<leftarrow> each (counter_step os) [0..<n] (buf, st); Some (0, st) } } }"

subsection \<open>cat and ls\<close>

partial_function (option) cat_loop :: "'s os \<Rightarrow> int \<Rightarrow> buf \<Rightarrow> 's \<Rightarrow> (int \<times> 's) option" where
  "cat_loop os fd buf st = do {
     (buf, cnt, st) \<leftarrow> os_read os fd buf 1024 st;
     if cnt = 0 then Some (0, st)
     else if cnt = -1 then do { st \<leftarrow> ece391_fdputs os 1 (msgln ''file read failed'') st; Some (3, st) }
     else do {
       (r, st) \<leftarrow> os_write os 1 buf cnt st;
       if r = -1 then Some (3, st) else cat_loop os fd buf st } }"

definition cat_main :: "'s os \<Rightarrow> buf \<Rightarrow> 's \<Rightarrow> (int \<times> 's) option" where
  "cat_main os buf st = do {
     (buf, r, st) \<leftarrow> os_getargs os buf 1024 st;
     if r \<noteq> 0 then do { st \<leftarrow> ece391_fdputs os 1 (msgln ''could not read arguments'') st; Some (3, st) }
     else do {
       (fd, st) \<leftarrow> os_open os buf st;
       if fd = -1 then do { st \<leftarrow> ece391_fdputs os 1 (msgln ''file not found'') st; Some (2, st) }
       else cat_loop os fd buf st } }"

partial_function (option) ls_loop :: "'s os \<Rightarrow> int \<Rightarrow> buf \<Rightarrow> 's \<Rightarrow> (int \<times> 's) option" where
  "ls_loop os fd buf st = do {
     (buf, cnt, st) \<leftarrow> os_read os fd buf 32 st;
     if cnt = 0 then Some (0, st)
     else if cnt = -1 then do { st \<leftarrow> ece391_fdputs os 1 (msgln ''directory entry read failed'') st; Some (3, st) }
     else do {
       buf \<leftarrow> wr_int buf cnt 10;
       (r, st) \<leftarrow> os_write os 1 buf (cnt + 1) st;
       if r = -1 then Some (3, st) else ls_loop os fd buf st } }"

definition ls_main :: "'s os \<Rightarrow> buf \<Rightarrow> 's \<Rightarrow> (int \<times> 's) option" where
  "ls_main os buf st = do {
     (fd, st) \<leftarrow> os_open os (msg ''.'') st;
     if fd = -1 then do { st \<leftarrow> ece391_fdputs os 1 (msgln ''directory open failed'') st; Some (2, st) }
     else ls_loop os fd buf st }"

subsection \<open>The shell\<close>

text \<open>What the shell does with a result of execute.\<close>

definition shell_report :: "'s os \<Rightarrow> int \<Rightarrow> 's \<Rightarrow> 's option" where
  "shell_report os rval st =
     (if rval = -1 then ece391_fdputs os 1 (msgln ''no such command'') st
      else if rval = 256 then ece391_fdputs os 1 (msgln ''program terminated by exception'') st
      else if rval \<noteq> 0 then ece391_fdputs os 1 (msgln ''program terminated abnormally'') st
      else Some st)"

partial_function (option) shell_loop :: "'s os \<Rightarrow> buf \<Rightarrow> 's \<Rightarrow> (int \<times> 's) option" where
  "shell_loop os buf st = do {
     st \<leftarrow> ece391_fdputs os 1 (msg ''391OS> '') st;
     (buf, cnt, st) \<leftarrow> os_read os 0 buf 1023 st;
     if cnt = -1 then do { st \<leftarrow> ece391_fdputs os 1 (msgln ''read from keyboard failed'') st; Some (3, st) }
     else do {
       cnt \<leftarrow> (if cnt > 0 then do { c \<leftarrow> rd_int buf (cnt - 1); Some (if c = 10 then cnt - 1 else cnt) } else Some cnt);
       buf \<leftarrow> wr_int buf cnt 0;
       d \<leftarrow> ece391_strcmp buf (msg ''exit'');
       if d = 0 then Some (0, st)
       else do {
         c \<leftarrow> rd buf 0;
         if c = 0 then shell_loop os buf st
         else do {
           (rval, st) \<leftarrow> os_execute os buf st;
           st \<leftarrow> shell_report os rval st;
           shell_loop os buf st } } } }"

definition shell_main :: "'s os \<Rightarrow> buf \<Rightarrow> 's \<Rightarrow> (int \<times> 's) option" where
  "shell_main os buf st = do { st \<leftarrow> ece391_fdputs os 1 (msgln ''Starting 391 Shell'') st; shell_loop os buf st }"

subsection \<open>grep\<close>

text \<open>The scan for the end of a line.\<close>

function scan_line :: "buf \<Rightarrow> nat \<Rightarrow> nat \<Rightarrow> nat option" where
  "scan_line data line_end lst =
     (if line_end < lst
      then (case rd data line_end of
              None \<Rightarrow> None
            | Some c \<Rightarrow> if c \<noteq> 10 then scan_line data (Suc line_end) lst else Some line_end)
      else Some line_end)"
  by pat_completeness auto
termination
  by (relation "measure (\<lambda>(d, e, l). l - e)") auto

declare scan_line.simps [simp del]

text \<open>The search of one line for the string: at the first position where it occurs the line is shown.\<close>

function check_line :: "'s os \<Rightarrow> buf \<Rightarrow> nat \<Rightarrow> buf \<Rightarrow> buf \<Rightarrow> nat \<Rightarrow> nat \<Rightarrow> nat \<Rightarrow> 's \<Rightarrow> 's option" where
  "check_line os s s_len fname data line_start check line_end st =
     (if check < line_end
      then (case (rd s 0, rd data check) of
              (Some c, Some d) \<Rightarrow>
                (case (if c = d then ece391_strncmp (drop check data) s s_len else Some 1) of
                   None \<Rightarrow> None
                 | Some r \<Rightarrow>
                     if r = 0 then do {
                       st \<leftarrow> ece391_fdputs os 1 fname st;
                       st \<leftarrow> ece391_fdputs os 1 (msg '':'') st;
                       st \<leftarrow> ece391_fdputs os 1 (drop line_start data) st;
                       ece391_fdputs os 1 (msgln '''') st }
                     else check_line os s s_len fname data line_start (Suc check) line_end st)
            | _ \<Rightarrow> None)
      else Some st)"
  by pat_completeness auto
termination
  by (relation "measure (\<lambda>(os, s, n, f, d, ls, c, e, st). e - c)") auto

declare check_line.simps [simp del]

lemma scan_line_ge: "scan_line data e l = Some e' \<Longrightarrow> e \<le> e'"
proof (induction data e l rule: scan_line.induct)
  case (1 data e l)
  then show ?case using scan_line.simps [of data e l] by (auto split: if_splits option.splits)
qed

text \<open>
  The loop over the lines in the buffer: it ends with the rest of an incomplete line moved to the front, or with
  the buffer used up; the result is the buffer, \<open>last\<close> and the state.
\<close>

function grep_lines :: "'s os \<Rightarrow> buf \<Rightarrow> nat \<Rightarrow> buf \<Rightarrow> int \<Rightarrow> buf \<Rightarrow> nat \<Rightarrow> nat \<Rightarrow> 's \<Rightarrow> (buf \<times> nat \<times> 's) option" where
  "grep_lines os s s_len fname cnt data lst line_start st =
     (case scan_line data line_start lst of
        None \<Rightarrow> None
      | Some line_end \<Rightarrow>
          (case rd data line_end of
             None \<Rightarrow> None
           | Some c \<Rightarrow>
               if c \<noteq> 10 \<and> cnt \<noteq> 0 \<and> line_start \<noteq> 0 then do {
                 data \<leftarrow> wr data line_end 0;
                 data \<leftarrow> ece391_strcpy data 0 line_start;
                 Some (data, lst - line_start, st) }
               else
                 (case check_line os s s_len fname (data[line_end := 0]) line_start line_start line_end st of
                    None \<Rightarrow> None
                  | Some st \<Rightarrow>
                      if line_end + 1 \<ge> lst then Some (data[line_end := 0], 0, st)
                      else grep_lines os s s_len fname cnt (data[line_end := 0]) lst (line_end + 1) st)))"
  by pat_completeness auto
termination
  by (relation "measure (\<lambda>(os, s, n, f, c, d, l, ls, st). l - ls)") (auto dest: scan_line_ge)

declare grep_lines.simps [simp del]

partial_function (option) grep_file :: "'s os \<Rightarrow> buf \<Rightarrow> nat \<Rightarrow> buf \<Rightarrow> int \<Rightarrow> buf \<Rightarrow> nat \<Rightarrow> 's \<Rightarrow> (int \<times> 's) option" where
  "grep_file os s s_len fname fd data lst st = do {
     (d, cnt, st) \<leftarrow> os_read os fd (drop lst data) (1024 - int lst) st;
     let data = take lst data @ d;
     if cnt = -1 then do { st \<leftarrow> ece391_fdputs os 1 (msgln ''file read failed'') st; Some (-1, st) }
     else do {
       (data, lst, st) \<leftarrow> grep_lines os s s_len fname cnt data (lst + nat cnt) 0 st;
       if cnt = 0 then do {
         (r, st) \<leftarrow> os_close os fd st;
         if r = -1 then do { st \<leftarrow> ece391_fdputs os 1 (msgln ''file close failed'') st; Some (-1, st) }
         else Some (0, st) }
       else grep_file os s s_len fname fd data lst st } }"

definition do_one_file :: "'s os \<Rightarrow> buf \<Rightarrow> buf \<Rightarrow> buf \<Rightarrow> 's \<Rightarrow> (int \<times> 's) option" where
  "do_one_file os data s fname st = do {
     s_len \<leftarrow> ece391_strlen s;
     (fd, st) \<leftarrow> os_open os fname st;
     if fd = -1 then do { st \<leftarrow> ece391_fdputs os 1 (msgln ''file open failed'') st; Some (-1, st) }
     else grep_file os s s_len fname fd data 0 st }"

text \<open>\<open>data\<close> is what every call of \<open>do_one_file\<close> finds in its local buffer.\<close>

partial_function (option) grep_dir :: "'s os \<Rightarrow> buf \<Rightarrow> buf \<Rightarrow> int \<Rightarrow> buf \<Rightarrow> 's \<Rightarrow> (int \<times> 's) option" where
  "grep_dir os data search fd buf st = do {
     (buf, cnt, st) \<leftarrow> os_read os fd buf 32 st;
     if cnt = 0 then Some (0, st)
     else if cnt = -1 then do { st \<leftarrow> ece391_fdputs os 1 (msgln ''directory entry read failed'') st; Some (3, st) }
     else do {
       c \<leftarrow> rd buf 0;
       if c = of_char (CHR ''.'') then grep_dir os data search fd buf st
       else do {
         buf \<leftarrow> wr_int buf cnt 0;
         (r, st) \<leftarrow> do_one_file os data search buf st;
         if r \<noteq> 0 then Some (3, st) else grep_dir os data search fd buf st } } }"

definition grep_main :: "'s os \<Rightarrow> buf \<Rightarrow> buf \<Rightarrow> buf \<Rightarrow> 's \<Rightarrow> (int \<times> 's) option" where
  "grep_main os data buf search st = do {
     (search, r, st) \<leftarrow> os_getargs os search 1024 st;
     if r \<noteq> 0 then do { st \<leftarrow> ece391_fdputs os 1 (msgln ''could not read argument'') st; Some (3, st) }
     else do {
       (fd, st) \<leftarrow> os_open os (msg ''.'') st;
       if fd = -1 then do { st \<leftarrow> ece391_fdputs os 1 (msgln ''directory open failed'') st; Some (2, st) }
       else grep_dir os data search fd buf st } }"

subsection \<open>Programs that only print\<close>

context std_output begin

lemma testprint_prints:
  "ok s \<Longrightarrow> \<exists>s'. testprint_main os s = Some (0, s') \<and> ok s'
    \<and> view s' = fold emit (bytes ''Hello, if this ran, the program was correct. Yay!'' @ [10]) (view s)"
  using fdputs_out [of s "msgln ''Hello, if this ran, the program was correct. Yay!''"]
  by (auto simp: testprint_main_def bytes_def cstr_def)

lemma counter_loop_prints:
  "ok s \<Longrightarrow> length buf = 1024 \<Longrightarrow> n < 4294967295 \<Longrightarrow>
    \<exists>buf' s'. each (counter_step os) [0..<n] (buf, s) = Some (buf', s') \<and> ok s' \<and> length buf' = 1024
      \<and> view s' = fold emit (concat (map (\<lambda>i. num_text 10 (of_nat (Suc i)) @ [10]) [0..<n])) (view s)"
proof (induction n)
  case (Suc n)
  then obtain b1 s1 where s1: "each (counter_step os) [0..<n] (buf, s) = Some (b1, s1)" "ok s1" "length b1 = 1024"
    "view s1 = fold emit (concat (map (\<lambda>i. num_text 10 (of_nat (Suc i)) @ [10]) [0..<n])) (view s)" by auto
  let ?t = "num_text 10 (of_nat (Suc n))"
  have z: "0 \<notin> set ?t" "length ?t \<le> 10" 
    using item_text_nonzero(2) num_text_facts(2) [of 10 _ 10, OF _ _ u32_digits(2)] by simp_all
  let ?b = "?t @ 0 # drop (Suc (length ?t)) b1"
  have u: "unat (10 :: u32) = 10" by simp
  have "itoa (of_nat (Suc n)) b1 10 = Some ?b" by (rule itoa_num_text [of 10 _ 10 b1, unfolded u, OF _ _ u32_digits(2)]) (use s1(3) in simp_all)
  then have i: "ece391_itoa (of_nat n + 1) b1 10 = Some ?b" by (simp add: ece391_itoa_eq add.commute)
  obtain s2 where s2: "ece391_fdputs os 1 ?b s1 = Some s2" "ok s2" "view s2 = fold emit ?t (view s1)"
    using fdputs_out [OF s1(2), of ?b] z(1) by auto
  obtain s3 where s3: "ece391_fdputs os 1 (msgln '''') s2 = Some s3" "ok s3" "view s3 = fold emit [10] (view s2)"
    using fdputs_out [OF s2(2), of "msgln ''''"] by (auto simp: bytes_def cstr_def)
  have "counter_step os n (b1, s1) = Some (?b, s3)" using i s2(1) s3(1) by (simp add: counter_step_def)
  moreover have "length ?b = 1024" using z(2) s1(3) by simp
  ultimately show ?case using s1(1,4) s2(3) s3(2,3) by (simp add: each_append)
qed simp

end

subsection \<open>A file as a program sees it\<close>

text \<open>
  The contract of a descriptor that denotes a file: \<open>at p\<close> holds while the next read starts at position \<open>p\<close> of
  \<open>content\<close>; a read delivers as many of the remaining bytes as the buffer takes, and writing to the
  display does not move the position.
\<close>

locale file_source = std_output os ok view emit
  for os :: "'s os" and ok :: "'s \<Rightarrow> bool" and view :: "'s \<Rightarrow> 'v" and emit :: "u8 \<Rightarrow> 'v \<Rightarrow> 'v" +
  fixes fd :: int and content :: buf and at :: "nat \<Rightarrow> 's \<Rightarrow> bool"
  assumes at_ok: "at p s \<Longrightarrow> ok s \<and> p \<le> length content"
    and read_at: "at p s \<Longrightarrow> 0 < n \<Longrightarrow> n \<le> 1024 \<Longrightarrow> n \<le> length b \<Longrightarrow> c = take n (drop p content) \<Longrightarrow>
      \<exists>s'. os_read os fd b (int n) s = Some (c @ drop (length c) b, int (length c), s') \<and> at (p + length c) s' \<and> view s' = view s"
    and write_at: "at p s \<Longrightarrow> os_write os 1 b m s = Some (r, s') \<Longrightarrow> at p s'"
begin

lemma cat_loop_prints:
  "at p s \<Longrightarrow> length buf = 1024 \<Longrightarrow>
    \<exists>s'. cat_loop os fd buf s = Some (0, s') \<and> at (length content) s' \<and> view s' = fold emit (drop p content) (view s)"
proof (induction "length content - p" arbitrary: p s buf rule: less_induct)
  case less
  define c where "c = take 1024 (drop p content)"
  obtain s1 where s1: "os_read os fd buf 1024 s = Some (c @ drop (length c) buf, int (length c), s1)" "at (p + length c) s1" "view s1 = view s"
    using read_at [OF less.prems(1), of 1024 buf c] less.prems(2) by (auto simp: c_def)
  have p: "p \<le> length content" "ok s1" using at_ok [OF less.prems(1)] at_ok [OF s1(2)] by simp_all
  have l: "length (c @ drop (length c) buf) = 1024" using less.prems(2) by (simp add: c_def)
  show ?case
  proof (cases "p = length content")
    case True
    then show ?thesis using s1 by (subst cat_loop.simps) (simp add: c_def)
  next
    case False
    then have c: "0 < length c" "length content - (p + length c) < length content - p" using p(1) by (simp_all add: c_def)
    obtain s2 where s2: "os_write os 1 (c @ drop (length c) buf) (int (length c)) s1 = Some (int (length c), s2)" "view s2 = fold emit c (view s1)"
      using write_out [OF p(2), of "length c" "c @ drop (length c) buf"] by auto
    obtain s3 where s3: "cat_loop os fd (c @ drop (length c) buf) s2 = Some (0, s3)" "at (length content) s3"
      "view s3 = fold emit (drop (p + length c) content) (view s2)"
      using less.hyps [OF c(2) write_at [OF s1(2) s2(1)] l] by blast
    have "drop p content = c @ drop (p + length c) content"
      using append_take_drop_id [of 1024 "drop p content"] by (simp add: c_def min_def add.commute)
    then have "view s3 = fold emit (drop p content) (view s)" using s3(3) s2(2) s1(3) by simp
    then show ?thesis using s1(1) s2(1) s3(1,2) c(1) by (subst cat_loop.simps) auto
  qed
qed

end

text \<open>The contract of a descriptor for a directory of non-empty names that fit in 32 bytes.\<close>

locale name_source = std_output os ok view emit
  for os :: "'s os" and ok :: "'s \<Rightarrow> bool" and view :: "'s \<Rightarrow> 'v" and emit :: "u8 \<Rightarrow> 'v \<Rightarrow> 'v" +
  fixes fd :: int and names :: "buf list" and at :: "nat \<Rightarrow> 's \<Rightarrow> bool"
  assumes at_ok: "at k s \<Longrightarrow> ok s \<and> k \<le> length names"
    and names_fit: "at k s \<Longrightarrow> name \<in> set names \<Longrightarrow> 0 < length name \<and> length name \<le> 32"
    and read_name: "at k s \<Longrightarrow> k < length names \<Longrightarrow> length b = 33 \<Longrightarrow>
      \<exists>b' s'. os_read os fd b 32 s = Some (b', int (length (names ! k)), s') \<and> length b' = 33
        \<and> take (length (names ! k)) b' = names ! k \<and> at (Suc k) s' \<and> view s' = view s"
    and read_end: "at (length names) s \<Longrightarrow> length b = 33 \<Longrightarrow>
      \<exists>b' s'. os_read os fd b 32 s = Some (b', 0, s') \<and> at (length names) s' \<and> view s' = view s"
    and write_at: "at k s \<Longrightarrow> os_write os 1 b m s = Some (r, s') \<Longrightarrow> at k s'"
begin

lemma ls_loop_prints:
  "at k s \<Longrightarrow> length buf = 33 \<Longrightarrow>
    \<exists>s'. ls_loop os fd buf s = Some (0, s') \<and> at (length names) s'
      \<and> view s' = fold emit (concat (map (\<lambda>name. name @ [10]) (drop k names))) (view s)"
proof (induction "length names - k" arbitrary: k s buf)
  case 0
  then have "k = length names" using at_ok [OF 0(2)] by simp
  then show ?case using read_end [of s buf] 0 by (subst ls_loop.simps) auto
next
  case (Suc d)
  then have k: "k < length names" by simp
  let ?n = "names ! k"
  have n: "0 < length ?n" "length ?n \<le> 32" using names_fit [OF Suc.prems(1), of ?n] k by simp_all
  obtain b s1 where s1: "os_read os fd buf 32 s = Some (b, int (length ?n), s1)" "length b = 33" "take (length ?n) b = ?n"
    "at (Suc k) s1" "view s1 = view s" using read_name [OF Suc.prems(1) k Suc.prems(2)] by blast
  let ?b = "b[length ?n := 10]"
  have t: "take (Suc (length ?n)) ?b = ?n @ [10]" using s1(2,3) n by (simp add: take_Suc_conv_app_nth)
  obtain s2 where s2: "os_write os 1 ?b (int (Suc (length ?n))) s1 = Some (int (Suc (length ?n)), s2)" "ok s2"
    "view s2 = fold emit (?n @ [10]) (view s1)"
    using write_out [of s1 "Suc (length ?n)" ?b] at_ok [OF s1(4)] s1(2) n t by auto
  have d: "d = length names - Suc k" using Suc.hyps(2) by simp
  obtain s3 where s3: "ls_loop os fd ?b s2 = Some (0, s3)" "at (length names) s3"
    "view s3 = fold emit (concat (map (\<lambda>name. name @ [10]) (drop (Suc k) names))) (view s2)"
    using Suc.hyps(1) [OF d write_at [OF s1(4) s2(1)], of ?b] s1(2) by auto
  have "wr_int b (int (length ?n)) 10 = Some ?b" using s1(2) n by simp
  moreover have "drop k names = ?n # drop (Suc k) names" using k by (simp add: Cons_nth_drop_Suc)
  ultimately show ?case using s1(1,5) s2 s3 n by (subst ls_loop.simps) (simp add: add.commute)
qed

end

end
