(* ===== verification/User_Kernel.thy ===== *)
theory User_Kernel
  imports User_Programs Exec
begin

text \<open>
  User programs on the kernel: the system calls of the kernel's model as the interface the programs use.  A session is a
  kernel state with the interrupts to come: a call that has to wait consumes the next batch of them, and a session
  that runs out of batches waits for ever, which is \<open>None\<close>.  \<open>prog\<close> says what the program of a name does
  once it has been started.
\<close>

type_synonym 'a session = "'a proc_scheme \<times> 'a proc_scheme handlers list"

definition kernel_read :: "int \<Rightarrow> buf \<Rightarrow> int \<Rightarrow> 'a session \<Rightarrow> (buf \<times> int \<times> 'a session) option" where
  "kernel_read fd b n = (\<lambda>(s, batches).
     case sys_read fd (Some b) n [] [] s of
       None \<Rightarrow> None
     | Some (b', Returned r s') \<Rightarrow> Some (b', r, (s', batches))
     | Some (b', Blocked s') \<Rightarrow>
         (case batches of
            [] \<Rightarrow> None
          | evs # batches \<Rightarrow>
              (case sys_read fd (Some b) n evs [] s of
                 Some (b', Returned r s') \<Rightarrow> Some (b', r, (s', batches))
               | _ \<Rightarrow> None)))"

text \<open>
  Execute as the calling program sees it: if the kernel enters user mode, the new program runs to its end and calls
  halt with the low byte of its result, which continues in the caller's frame with the value of \<open>eax\<close>.
\<close>

definition kernel_execute :: "(buf \<Rightarrow> 'a session \<Rightarrow> (int \<times> 'a session) option) \<Rightarrow> buf \<Rightarrow> 'a session \<Rightarrow> (int \<times> 'a session) option" where
  "kernel_execute prog cmd = (\<lambda>(s, batches). do {
     (c, s) \<leftarrow> sys_execute cmd s;
     case c of
       Ret r \<Rightarrow> Some (r, (s, batches))
     | Enter_user eip esp0 \<Rightarrow> do {
         (name, args) \<leftarrow> parse_command cmd;
         (status, (s, batches)) \<leftarrow> prog name (s, batches);
         (c, s) \<leftarrow> sys_halt (word_of_int status) s;
         case c of Leave_frame frame eax \<Rightarrow> Some (sint eax, (s, batches)) | _ \<Rightarrow> None }
     | _ \<Rightarrow> None })"

text \<open>
  The calls together.  A bare call number is checked by the entry stub: outside of 1 to 10 the result is \<open>-1\<close>; a number
  inside with whatever the registers hold is not given a meaning.
\<close>

definition kernel_os :: "(buf \<Rightarrow> 'a session \<Rightarrow> (int \<times> 'a session) option) \<Rightarrow> 'a session os" where
  "kernel_os prog =
     \<lparr>os_execute = kernel_execute prog,
      os_read = kernel_read,
      os_write = (\<lambda>fd b n (s, bt). map_option (\<lambda>(r, s). (r, (s, bt))) (sys_write fd (Some b) n s)),
      os_open = (\<lambda>f (s, bt). map_option (\<lambda>(r, s). (r, (s, bt))) (sys_open f s)),
      os_close = (\<lambda>fd (s, bt). map_option (\<lambda>(r, s). (r, (s, bt))) (sys_close fd s)),
      os_getargs = (\<lambda>b n (s, bt). map_option (\<lambda>(r, b). (b, r, (s, bt))) (sys_getargs (Some b) n s)),
      os_vidmap = (\<lambda>p (s, bt). Some (fst (sys_vidmap p s), (s, bt))),
      os_call = (\<lambda>n st. if n > 10 \<or> n < 1 then Some (-1, st) else None)\<rparr>"

text \<open>What a program sees of the machine: memory, display, terminals and devices.\<close>

definition kview :: "'a session \<Rightarrow> screen" where
  "kview = (\<lambda>(s, bt). screen.truncate s)"

definition out_ok :: "'a proc_scheme \<Rightarrow> bool" where
  "out_ok s \<longleftrightarrow> cur_ok s \<and> file_op_table_ptr (fdt_of (cur_pid s) s ! 1) = Stdout_opt \<and> fd_flags (fdt_of (cur_pid s) s ! 1) = 1"

text \<open>
  A session after calls on files: of the kernel beyond the display only the descriptors of the current process and the
  directory index may have changed, and no interrupts have been consumed.
\<close>

definition only_files :: "'a session \<Rightarrow> 'a session \<Rightarrow> bool" where
  "only_files st st' \<longleftrightarrow> snd st' = snd st \<and> (\<exists>fdt ri. screen.more (fst st') = screen.more ((fst st)
     \<lparr>read_index := ri,
      pcbs := (pcbs (fst st))(cur_pid (fst st) := (pcbs (fst st) (cur_pid (fst st)))\<lparr>file_descriptor_table := fdt\<rparr>)\<rparr>))"

text \<open>Beside the descriptor \<open>fd\<close> the descriptors and the directory index are those of \<open>st\<close>.\<close>

definition other_fds :: "int \<Rightarrow> 'a proc_scheme \<Rightarrow> 'a proc_scheme \<Rightarrow> bool" where
  "other_fds fd s s' \<longleftrightarrow> (fdt_of (cur_pid s) s')[nat fd := closed_entry] = (fdt_of (cur_pid s) s)[nat fd := closed_entry] \<and> read_index s' = read_index s"

definition kfile_at :: "'a session \<Rightarrow> int \<Rightarrow> buf \<Rightarrow> u32 \<Rightarrow> nat \<Rightarrow> 'a session \<Rightarrow> bool" where
  "kfile_at st fd img ino p = (\<lambda>(s, bt). only_files st (s, bt) \<and> fs_wf img \<and> unat ino < img32 img 4 \<and> fs_img s = img \<and> out_ok s \<and> 2 \<le> fd \<and> other_fds fd (fst st) s
     \<and> file_at fd ino (of_nat p) s \<and> p \<le> file_len img (unat ino))"

text \<open>The descriptor of the directory; the place in it is the kernel's \<open>read_index\<close>, whatever the descriptor's position.\<close>

definition kdir_at :: "'a session \<Rightarrow> int \<Rightarrow> buf \<Rightarrow> nat \<Rightarrow> 'a session \<Rightarrow> bool" where
  "kdir_at st fd img k = (\<lambda>(s, bt). only_files st (s, bt) \<and> fs_wf img \<and> [] \<notin> set (dir_names img) \<and> fs_img s = img \<and> out_ok s \<and> 2 \<le> fd \<and> fd < 8
     \<and> file_op_table_ptr (fdt_of (cur_pid s) s ! nat fd) = Dir_opt \<and> fd_flags (fdt_of (cur_pid s) s ! nat fd) = 1
     \<and> read_index s = of_nat k \<and> k \<le> length (dir_names img))"

text \<open>A descriptor is free; the number of free descriptors; the arguments of the current process; the type and inode of a name in the directory.\<close>

definition free_fd :: "'a proc_scheme \<Rightarrow> bool" where
  "free_fd s \<longleftrightarrow> list_ex (\<lambda>i. fd_flags (fdt_of (cur_pid s) s ! i) = 0) [2..<8]"

definition free_fds :: "'a proc_scheme \<Rightarrow> nat" where
  "free_fds s = length (filter (\<lambda>i. fd_flags (fdt_of (cur_pid s) s ! i) = 0) [2..<8])"

definition args_of :: "'a proc_scheme \<Rightarrow> buf" where
  "args_of s = cstr (cmd_args (pcbs s (cur_pid s)))"

definition entry_type :: "buf \<Rightarrow> buf \<Rightarrow> (u32 \<times> u32) option" where
  "entry_type img name =
     (case read_dentry_by_name img (name @ [0]) of Some (Inr d) \<Rightarrow> Some (file_type d, inode_num d) | _ \<Rightarrow> None)"

text \<open>
  An image with the directory itself and one executable file \<open>cat\<close> of 28 bytes, and a state in which process 0 runs on it with
  the argument \<open>cat\<close>.
\<close>

definition user_img :: buf where
  "user_img = [2, 0, 0, 0, 1, 0, 0, 0, 1, 0, 0, 0] @ replicate 52 0
     @ [46] @ replicate 31 0 @ [1, 0, 0, 0, 0, 0, 0, 0] @ replicate 24 0
     @ [99, 97, 116] @ replicate 29 0 @ [2, 0, 0, 0, 0, 0, 0, 0] @ replicate 3928 0
     @ [28, 0, 0, 0, 0, 0, 0, 0] @ replicate 4088 0
     @ [0x7F, 0x45, 0x4C, 0x46] @ replicate 20 0 @ [0x1C, 0x80, 0x04, 0x08] @ replicate 4068 0"

definition user_state :: proc where
  "user_state = (boot_proc user_img)\<lparr>pid_array := [1, 1, 1, 0, 0, 0],
     pcbs := (\<lambda>_. blank_pcb\<lparr>file_descriptor_table := std_entry Stdin_opt # std_entry Stdout_opt # replicate 6 closed_entry,
       cmd_args := [99, 97, 116] @ replicate 125 0\<rparr>)\<rparr>"

subsection \<open>The display\<close>

lemma truncate_putc: "screen.truncate (putc c s) = putc c (screen.truncate s)"
  by (simp add: putc_def put_char_def Let_def cli_def sti_def upd_term_def screen.truncate_def case_prod_beta)

lemma truncate_fold_putc: "screen.truncate (fold putc cs s) = fold putc cs (screen.truncate s)"
  by (induction cs arbitrary: s) (simp_all add: truncate_putc)

lemma more_fold_putc: "screen.more (fold putc cs s) = screen.more s"
  by (induction cs arbitrary: s) simp_all

lemma proc_fold_putc [simp]:
  fixes s :: "'a proc_scheme"
  shows "pcbs (fold putc cs s) = pcbs s" "cur_pid (fold putc cs s) = cur_pid s" "optab (fold putc cs s) = optab s"
    "fs_img (fold putc cs s) = fs_img s" "pid_array (fold putc cs s) = pid_array s" "read_index (fold putc cs s) = read_index s"
proof -
  have m: "screen.more (fold putc cs s) = screen.more s" by (rule more_fold_putc)
  then show "pcbs (fold putc cs s) = pcbs s" "cur_pid (fold putc cs s) = cur_pid s" "optab (fold putc cs s) = optab s"
    "fs_img (fold putc cs s) = fs_img s" "pid_array (fold putc cs s) = pid_array s" "read_index (fold putc cs s) = read_index s"
    by (cases "fold putc cs s"; cases s; simp)+
qed

lemma out_ok_fold_putc [simp]: "out_ok (fold putc cs s) = out_ok s"
proof -
  have "tables_ready (fold putc cs s) = tables_ready s" by (rule tables_ready_cong) simp
  then show ?thesis by (simp add: out_ok_def cur_ok_def fdt_of_def)
qed

lemma sys_write_out:
  assumes "out_ok s" "n \<le> length b"
  shows "sys_write 1 (Some b) (int n) s = Some (int n, fold putc (take n b) s)"
proof -
  have c: "cur_ok s" "file_op_table_ptr (fdt_of (cur_pid s) s ! 1) = Stdout_opt" "fd_flags (fdt_of (cur_pid s) s ! 1) = 1"
    using assms(1) by (simp_all add: out_ok_def)
  note d = cur_okD [OF c(1)]
  show ?thesis using c(2,3) d(1,2,4) tables_readyD(5) [OF d(3)] assms(2)
    by (simp add: sys_write_def call_write_def terminal_write_def write_loop_eq)
qed

lemma fdputs_kernel:
  assumes "out_ok s" "0 \<in> set b"
  shows "ece391_fdputs (kernel_os prog) 1 b (s, bt) = Some (fold putc (cstr b) s, bt)"
proof -
  have "take (length (cstr b)) b = cstr b" by (simp add: cstr_def flip: takeWhile_eq_take)
  then show ?thesis using sys_write_out [OF assms(1) length_cstr_le [of b]] assms(2)
    by (simp add: ece391_fdputs_def ece391_strlen_eq kernel_os_def)
qed

interpretation kout: std_output "kernel_os prog" "\<lambda>(s, bt). out_ok s" kview putc for prog
  by unfold_locales (auto simp: kernel_os_def kview_def sys_write_out truncate_fold_putc)

lemma sys_write_any:
  assumes "out_ok s" "sys_write 1 (Some b) m s = Some (r, s')"
  shows "\<exists>cs. s' = fold putc cs s"
proof -
  have c: "cur_ok s" "file_op_table_ptr (fdt_of (cur_pid s) s ! 1) = Stdout_opt" "fd_flags (fdt_of (cur_pid s) s ! 1) = 1"
    using assms(1) by (simp_all add: out_ok_def)
  note d = cur_okD [OF c(1)]
  have w: "\<exists>cs. u = fold putc cs t" if "write_loop c n t = Some u" for c n and t u :: "'a proc_scheme"
    using that
  proof (induction c n t rule: write_loop.induct)
    case (1 b s)
    then show ?case by (intro exI [of _ "[]"]) simp
  next
    case (3 c b n s)
    then obtain cs where "u = fold putc cs (putc c s)" by auto
    then show ?case by (intro exI [of _ "c # cs"]) simp
  qed simp
  have "terminal_write (Some b) m s = Some (r, s')"
    using assms(2) c(2,3) d(1,2,4) tables_readyD(5) [OF d(3)] by (simp add: sys_write_def call_write_def)
  then show ?thesis using w by (auto simp: terminal_write_def split: if_splits bind_splits intro: exI [of _ "[]"])
qed

lemma only_files_refl [simp]: "only_files st st"
  unfolding only_files_def
  by (intro conjI refl exI [of _ "file_descriptor_table (pcbs (fst st) (cur_pid (fst st)))"] exI [of _ "read_index (fst st)"]) simp

lemma only_files_cur: "only_files st (s, bt) \<Longrightarrow> cur_pid s = cur_pid (fst st)"
  by (cases s; cases "fst st") (auto simp: only_files_def)

lemma only_files_set_fd:
  assumes "only_files st (s, bt)"
  shows "only_files st (set_fd (cur_pid s) i e s, bt)" "only_files st (s\<lparr>read_index := j\<rparr>, bt)"
proof -
  obtain fdt ri where m: "screen.more s = screen.more ((fst st)\<lparr>read_index := ri,
      pcbs := (pcbs (fst st))(cur_pid (fst st) := (pcbs (fst st) (cur_pid (fst st)))\<lparr>file_descriptor_table := fdt\<rparr>)\<rparr>)"
    and b: "bt = snd st"
    using assms by (auto simp: only_files_def)
  note c = only_files_cur [OF assms]
  have "screen.more (set_fd (cur_pid s) i e s) = screen.more ((fst st)\<lparr>read_index := ri,
      pcbs := (pcbs (fst st))(cur_pid (fst st) := (pcbs (fst st) (cur_pid (fst st)))\<lparr>file_descriptor_table := fdt[i := e]\<rparr>)\<rparr>)"
    using m c by (cases s; cases "fst st") (simp add: set_fd_def upd_pcb_def)
  then show "only_files st (set_fd (cur_pid s) i e s, bt)" using b unfolding only_files_def by auto
  have "screen.more (s\<lparr>read_index := j\<rparr>) = screen.more ((fst st)\<lparr>read_index := j,
      pcbs := (pcbs (fst st))(cur_pid (fst st) := (pcbs (fst st) (cur_pid (fst st)))\<lparr>file_descriptor_table := fdt\<rparr>)\<rparr>)"
    using m by (cases s; cases "fst st") simp
  then show "only_files st (s\<lparr>read_index := j\<rparr>, bt)" using b unfolding only_files_def by auto
qed

lemma other_fds_set_fd:
  assumes "other_fds fd s t" "cur_pid t = cur_pid s"
  shows "other_fds fd s (set_fd (cur_pid t) (nat fd) e t)" "other_fds fd s (fold putc cs t)"
  using assms by (simp_all add: other_fds_def fdt_of_def) (simp add: set_fd_def)

lemma other_fds_opened: "other_fds fd s (set_fd (cur_pid s) (nat fd) e s)"
  by (rule other_fds_set_fd) (simp_all add: other_fds_def)

lemma only_files_trans:
  assumes "only_files st (s, bt)" "only_files (s, bt) st'"
  shows "only_files st st'"
proof -
  obtain r where r: "fst st = r" by simp
  obtain f i where m: "screen.more s = screen.more (r\<lparr>read_index := i, pcbs := (pcbs r)(cur_pid r := (pcbs r (cur_pid r))\<lparr>file_descriptor_table := f\<rparr>)\<rparr>)"
    and b: "bt = snd st" using assms(1) r by (auto simp: only_files_def)
  obtain f' i' where m': "screen.more (fst st') = screen.more (s\<lparr>read_index := i', pcbs := (pcbs s)(cur_pid s := (pcbs s (cur_pid s))\<lparr>file_descriptor_table := f'\<rparr>)\<rparr>)"
    and b': "snd st' = bt" using assms(2) by (auto simp: only_files_def)
  have "screen.more (fst st') = screen.more (r\<lparr>read_index := i', pcbs := (pcbs r)(cur_pid r := (pcbs r (cur_pid r))\<lparr>file_descriptor_table := f'\<rparr>)\<rparr>)"
    using m m' by (cases s; cases r; simp)
  then show ?thesis using b b' r unfolding only_files_def by auto
qed

lemma only_files_putc: "only_files st (s, bt) \<Longrightarrow> only_files st (fold putc cs s, bt)"
  by (simp add: only_files_def more_fold_putc)

subsection \<open>Files\<close>

lemma truncate_set_fd [simp]: "screen.truncate (set_fd pid i e s) = screen.truncate s"
  by (simp add: set_fd_def upd_pcb_def screen.truncate_def)

lemma out_ok_set_fd:
  assumes "out_ok s" "i \<noteq> 1" "file_op_table_ptr e \<noteq> Null_ptr \<or> fd_flags e = 0"
  shows "out_ok (set_fd (cur_pid s) i e s)"
  using assms cur_ok_set_fd [of s e i] cur_okD(2) [of s] by (simp add: out_ok_def fdt_of_def)

lemma file_at_fold_putc [simp]: "file_at fd ino p (fold putc cs s) = file_at fd ino p s"
proof -
  have "tables_ready (fold putc cs s) = tables_ready s" by (rule tables_ready_cong) simp
  then show ?thesis by (simp add: file_at_def cur_ok_def fdt_of_def)
qed

lemma kfile_read:
  assumes "kfile_at st fd img ino p (s, bt)" "0 < n" "n \<le> 1024" "n \<le> length b" "c = take n (drop p (file_content img (unat ino)))"
  shows "\<exists>s'. kernel_read fd b (int n) (s, bt) = Some (c @ drop (length c) b, int (length c), (s', bt))
    \<and> kfile_at st fd img ino (p + length c) (s', bt) \<and> screen.truncate s' = screen.truncate s"
proof -
  have a: "fs_wf img" "unat ino < img32 img 4" "fs_img s = img" "out_ok s" "2 \<le> fd" "file_at fd ino (of_nat p) s" "p \<le> file_len img (unat ino)"
    using assms(1) by (simp_all add: kfile_at_def)
  have u: "unat (of_nat p :: u32) = p" "unat (of_nat n :: u32) = n"
    using a(7) inode_okD(1) [OF fs_wf_inode [OF a(1,2)]] assms(3) by simp_all
  have l: "length c \<le> length b" using assms(4,5) by simp
  have of: "only_files st (s, bt)" "other_fds fd (fst st) s" using assms(1) by (simp_all add: kfile_at_def)
  have "file_read (fs_img s) ino (of_nat p) (int n) = Some (int (length c), c)"
    using a(1-3,7) u assms(5) by (simp add: file_read_def read_data_eq Let_def)
  from sys_read_file [OF a(6) this l, of "[]" "[]"] obtain s' where s':
    "sys_read fd (Some b) (int n) [] [] s = Some (c @ drop (length c) b, Returned (int (length c)) s')"
    "file_at fd ino (of_nat p + word_of_int (int (length c))) s'" "fs_img s' = fs_img s"
    "s' = set_fd (cur_pid s) (nat fd)
        \<lparr>file_op_table_ptr = File_opt, fd_inode_num = ino, file_pos = of_nat p + word_of_int (int (length c)), fd_flags = 1\<rparr> s" by blast
  have "nat fd \<noteq> 1" using a(5,6) by (simp add: file_at_def)
  then have "out_ok s'" unfolding s'(4) by (intro out_ok_set_fd [OF a(4)]) simp_all
  moreover have "p + length c \<le> file_len img (unat ino)" using assms(5) a(7) by simp
  moreover have "only_files st (s', bt)" unfolding s'(4) by (rule only_files_set_fd) (rule of(1))
  moreover have "other_fds fd (fst st) s'" unfolding s'(4) by (rule other_fds_set_fd [OF of(2) only_files_cur [OF of(1)]])
  ultimately show ?thesis using s' a(1-5) by (simp add: kernel_read_def kfile_at_def)
qed

interpretation kfile: file_source "kernel_os prog" "\<lambda>(s, bt). out_ok s" kview putc fd "file_content img (unat ino)" "kfile_at st fd img ino"
  for prog st fd img ino
proof unfold_locales
  fix p and s :: "'a session"
  show "kfile_at st fd img ino p s \<Longrightarrow> (case s of (s, bt) \<Rightarrow> out_ok s) \<and> p \<le> length (file_content img (unat ino))"
    by (cases s) (simp add: kfile_at_def)
next
  fix p n and s :: "'a session" and b c :: buf
  assume "kfile_at st fd img ino p s" "0 < n" "n \<le> 1024" "n \<le> length b" "c = take n (drop p (file_content img (unat ino)))"
  then show "\<exists>s'. os_read (kernel_os prog) fd b (int n) s = Some (c @ drop (length c) b, int (length c), s')
      \<and> kfile_at st fd img ino (p + length c) s' \<and> kview s' = kview s"
    using kfile_read [of st fd img ino p "fst s" "snd s" n b c] by (cases s) (auto simp: kernel_os_def kview_def)
next
  fix p and s s' :: "'a session" and b :: buf and m r
  assume k: "kfile_at st fd img ino p s" "os_write (kernel_os prog) 1 b m s = Some (r, s')"
  obtain t bt where s: "s = (t, bt)" by (cases s)
  then obtain t' where "sys_write 1 (Some b) m t = Some (r, t')" "s' = (t', bt)" using k(2) by (auto simp: kernel_os_def)
  moreover have "out_ok t" using k(1) s by (simp add: kfile_at_def)
  ultimately show "kfile_at st fd img ino p s'" using sys_write_any [of t b m r t'] k(1) s
    by (auto simp: kfile_at_def only_files_putc other_fds_set_fd(2) dest: only_files_cur)
qed

subsection \<open>The directory\<close>

lemma sys_read_dir:
  assumes "out_ok s" "2 \<le> fd" "fd < 8" "fdt_of (cur_pid s) s ! nat fd = e" "file_op_table_ptr e = Dir_opt" "fd_flags e = 1"
    and "dir_read (fs_img s) (read_index s) n = Some (k, bs, i)" "length bs \<le> length b"
  shows "sys_read fd (Some b) n evs late s = Some (bs @ drop (length bs) b, Returned k
    (set_fd (cur_pid s) (nat fd) (e\<lparr>file_pos := file_pos e + word_of_int k\<rparr>) (s\<lparr>read_index := i\<rparr>)))"
proof -
  have c: "cur_ok s" using assms(1) by (simp add: out_ok_def)
  note d = cur_okD [OF c]
  have "rd_int (file_descriptor_table (pcbs s (cur_pid s))) fd = Some e" using assms(2-4) d(2,4) by simp
  moreover have "fdt_of (cur_pid s) (s\<lparr>read_index := i\<rparr>) ! nat fd = e" using assms(4) by (simp add: fdt_of_def)
  ultimately show ?thesis using assms(2,3,5-8) d(1) tables_readyD(2) [OF d(3)]
    by (simp add: sys_read_def Let_def call_read_def store_user_def)
qed

lemma out_ok_read_index [simp]: "out_ok (s\<lparr>read_index := i\<rparr>) = out_ok s"
  using tables_ready_cong [of "s\<lparr>read_index := i\<rparr>" s] by (simp add: out_ok_def cur_ok_def fdt_of_def)

lemma truncate_read_index [simp]: "screen.truncate ((s :: 'a proc_scheme)\<lparr>read_index := i\<rparr>) = screen.truncate s"
  by (simp add: screen.truncate_def)

lemma kdir_moved:
  assumes "kdir_at st fd img k (s, bt)" "j \<le> length (dir_names img)"
  shows "kdir_at st fd img j (set_fd (cur_pid s) (nat fd) ((fdt_of (cur_pid s) s ! nat fd)\<lparr>file_pos := q\<rparr>) (s\<lparr>read_index := of_nat j\<rparr>), bt)"
proof -
  let ?e = "(fdt_of (cur_pid s) s ! nat fd)\<lparr>file_pos := q\<rparr>"
  have a: "out_ok s" "2 \<le> fd" "fd < 8" "file_op_table_ptr ?e = Dir_opt" "fd_flags ?e = 1" using assms(1) by (simp_all add: kdir_at_def)
  have "out_ok (set_fd (cur_pid (s\<lparr>read_index := of_nat j\<rparr>)) (nat fd) ?e (s\<lparr>read_index := of_nat j\<rparr>))"
    by (rule out_ok_set_fd) (use a in simp_all)
  moreover have "length (fdt_of (cur_pid s) s) = 8" using a(1) cur_okD(2) by (auto simp: out_ok_def)
  moreover have "only_files st (set_fd (cur_pid (s\<lparr>read_index := of_nat j\<rparr>)) (nat fd) ?e (s\<lparr>read_index := of_nat j\<rparr>), bt)"
    by (intro only_files_set_fd) (use assms(1) in \<open>simp add: kdir_at_def\<close>)
  ultimately show ?thesis using assms a by (simp add: kdir_at_def fdt_of_def) (simp add: set_fd_def)
qed

lemma free_fd_moved:
  "free_fd (set_fd (cur_pid s) i ((fdt_of (cur_pid s) s ! i)\<lparr>file_pos := q\<rparr>) (s\<lparr>read_index := j\<rparr>)) = free_fd s"
proof -
  have "fd_flags (xs[i := (xs ! i)\<lparr>file_pos := q\<rparr>] ! k) = fd_flags (xs ! k)" for xs :: "fd_t list" and k
    by (cases "i < length xs"; cases "k = i") (simp_all add: list_update_beyond)
  then show ?thesis by (simp add: free_fd_def fdt_of_def)
qed

lemma kdir_read:
  assumes "kdir_at st fd img k (s, bt)" "length b = 33"
  shows "\<exists>b' s'. kernel_read fd b 32 (s, bt) =
      Some (b', if k < length (dir_names img) then int (length (dir_names img ! k)) else 0, (s', bt)) \<and> length b' = 33
    \<and> (k < length (dir_names img) \<longrightarrow> take (length (dir_names img ! k)) b' = dir_names img ! k \<and> kdir_at st fd img (Suc k) (s', bt))
    \<and> (k = length (dir_names img) \<longrightarrow> kdir_at st fd img k (s', bt)) \<and> screen.truncate s' = screen.truncate s \<and> free_fd s' = free_fd s"
proof -
  have a: "fs_wf img" "fs_img s = img" "out_ok s" "2 \<le> fd" "fd < 8" "read_index s = of_nat k" "k \<le> length (dir_names img)"
    "file_op_table_ptr (fdt_of (cur_pid s) s ! nat fd) = Dir_opt" "fd_flags (fdt_of (cur_pid s) s ! nat fd) = 1"
    using assms(1) by (simp_all add: kdir_at_def)
  have n: "length (dir_names img) = img32 img 0" "k < img32 img 0 \<Longrightarrow> dir_names img ! k = entry_name img k"
    by (simp_all add: dir_names_def)
  have k: "k < 4294967296" using a(7) img32_bound [of img 0] n(1) by linarith
  obtain out where out: "dir_read img (of_nat k) 32 =
      (if k < img32 img 0 then Some (int (length (entry_name img k)), out, of_nat (Suc k)) else Some (0, [], of_nat k))"
    "length out = 33" "k < img32 img 0 \<longrightarrow> cstr out = entry_name img k" using dir_read_eq [OF a(1) k] by blast
  let ?e = "fdt_of (cur_pid s) s ! nat fd"
  show ?thesis
  proof (cases "k < img32 img 0")
    case True
    let ?n = "entry_name img k"
    have "sys_read fd (Some b) 32 [] [] s = Some (out, Returned (int (length ?n))
        (set_fd (cur_pid s) (nat fd) (?e\<lparr>file_pos := file_pos ?e + word_of_int (int (length ?n))\<rparr>) (s\<lparr>read_index := of_nat (Suc k)\<rparr>)))"
      using sys_read_dir [OF a(3-5) refl a(8,9), of 32 "int (length ?n)" out "of_nat (Suc k)" b "[]" "[]"] out True assms(2) a(2,6) by simp
    moreover have "take (length ?n) out = ?n" using out(3) True take_length_cstr [of out] by simp
    ultimately show ?thesis using True n kdir_moved [OF assms(1), of "Suc k"] out(2)
      by (auto simp: kernel_read_def free_fd_moved)
  next
    case False
    have "sys_read fd (Some b) 32 [] [] s = Some (b, Returned 0
        (set_fd (cur_pid s) (nat fd) (?e\<lparr>file_pos := file_pos ?e + word_of_int 0\<rparr>) (s\<lparr>read_index := of_nat k\<rparr>)))"
      using sys_read_dir [OF a(3-5) refl a(8,9), of 32 0 "[]" "of_nat k" b "[]" "[]"] out False assms(2) a(2,6) by simp
    then show ?thesis using False n kdir_moved [OF assms(1) a(7), of "file_pos ?e"] assms(2)
      free_fd_moved [of s "nat fd" "file_pos ?e" "of_nat k"] by (auto simp: kernel_read_def)
  qed
qed

lemma kdir_held:
  assumes "kdir_at st fd img k (s, bt)"
  shows "dir_held [2, 3, 4, 5, 6, 7] s"
proof -
  have "2 \<le> fd" "fd < 8" "file_op_table_ptr (fdt_of (cur_pid s) s ! nat fd) = Dir_opt" "fd_flags (fdt_of (cur_pid s) s ! nat fd) \<noteq> 0"
    using assms by (simp_all add: kdir_at_def)
  moreover have "fd = 2 \<or> fd = 3 \<or> fd = 4 \<or> fd = 5 \<or> fd = 6 \<or> fd = 7" using calculation(1,2) by linarith
  ultimately show ?thesis unfolding dir_held_def by auto
qed

interpretation kdir: name_source "kernel_os prog" "\<lambda>(s, bt). out_ok s" kview putc fd "dir_names img" "kdir_at st fd img"
  for prog st fd img
proof unfold_locales
  fix k and s :: "'a session"
  show "kdir_at st fd img k s \<Longrightarrow> (case s of (s, bt) \<Rightarrow> out_ok s) \<and> k \<le> length (dir_names img)"
    by (cases s) (simp add: kdir_at_def)
next
  fix k and s :: "'a session" and name :: buf
  assume "kdir_at st fd img k s" "name \<in> set (dir_names img)"
  then have "name \<noteq> []" "name \<in> set (dir_names img)" by (cases s; force simp: kdir_at_def)+
  then show "0 < length name \<and> length name \<le> 32"
    by (auto simp: dir_names_def entry_name_def intro: order_trans [OF length_cstr_le])
next
  fix k and s :: "'a session" and b :: buf
  assume "kdir_at st fd img k s" "k < length (dir_names img)" "length b = 33"
  then show "\<exists>b' s'. os_read (kernel_os prog) fd b 32 s = Some (b', int (length (dir_names img ! k)), s') \<and> length b' = 33
      \<and> take (length (dir_names img ! k)) b' = dir_names img ! k \<and> kdir_at st fd img (Suc k) s' \<and> kview s' = kview s"
    using kdir_read [of st fd img k "fst s" "snd s" b] by (cases s) (auto simp: kernel_os_def kview_def)
next
  fix s :: "'a session" and b :: buf
  assume "kdir_at st fd img (length (dir_names img)) s" "length b = 33"
  then show "\<exists>b' s'. os_read (kernel_os prog) fd b 32 s = Some (b', 0, s') \<and> kdir_at st fd img (length (dir_names img)) s' \<and> kview s' = kview s"
    using kdir_read [of st fd img "length (dir_names img)" "fst s" "snd s" b] by (cases s) (auto simp: kernel_os_def kview_def)
next
  fix k and s s' :: "'a session" and b :: buf and m r
  assume k: "kdir_at st fd img k s" "os_write (kernel_os prog) 1 b m s = Some (r, s')"
  obtain t bt where s: "s = (t, bt)" by (cases s)
  then obtain t' where "sys_write 1 (Some b) m t = Some (r, t')" "s' = (t', bt)" using k(2) by (auto simp: kernel_os_def)
  moreover have "out_ok t" using k(1) s by (simp add: kdir_at_def)
  ultimately show "kdir_at st fd img k s'" using sys_write_any [of t b m r t'] k(1) s
    by (auto simp: kdir_at_def fdt_of_def only_files_putc)
qed

subsection \<open>cat and ls on the kernel\<close>

lemma sys_open_entry:
  assumes "cur_ok s" "read_dentry_by_name (fs_img s) fname = Some (Inr d)" "free_fd s"
  shows "\<exists>fd. 2 \<le> fd \<and> fd < 8 \<and> fd_flags (fdt_of (cur_pid s) s ! nat fd) = 0
    \<and> (file_type d = 2 \<longrightarrow> sys_open fname s = Some (fd, set_fd (cur_pid s) (nat fd) (open_entry File_opt (inode_num d)) s))
    \<and> (file_type d = 1 \<longrightarrow> sys_open fname s = Some (fd, set_fd (cur_pid s) (nat fd) (open_entry Dir_opt (inode_num d)) s))"
proof -
  note c = cur_okD [OF assms(1)]
  obtain k where k: "find_fd (fdt_of (cur_pid s) s) 2 = Some k" "2 \<le> k" "k \<le> 8"
    "\<forall>j. 2 \<le> j \<longrightarrow> j < k \<longrightarrow> fd_flags (fdt_of (cur_pid s) s ! nat j) \<noteq> 0" "k < 8 \<longrightarrow> fd_flags (fdt_of (cur_pid s) s ! nat k) = 0"
    using find_fd_least [OF c(2), of 2] by auto
  obtain i where "2 \<le> i" "i < 8" "fd_flags (fdt_of (cur_pid s) s ! i) = 0"
    using assms(3) unfolding free_fd_def list_ex_iff by (metis set_upt atLeastLessThan_iff)
  then have "k < 8" using k(2-4) spec [OF k(4), of "int i"] by auto
  then show ?thesis using k c(1,4) assms(2) by (intro exI [of _ k]) (simp add: sys_open_def)
qed

lemma free_fds_other:
  fixes s :: "'a proc_scheme"
  assumes "2 \<le> free_fds s"
  shows "free_fd s" "free_fd (set_fd (cur_pid s) i e s)"
proof -
  let ?X = "{j \<in> {2..<8}. fd_flags (fdt_of (cur_pid s) s ! j) = 0}"
  have "free_fds s = card ?X" 
    using distinct_card [of "filter (\<lambda>i. fd_flags (fdt_of (cur_pid s) s ! i) = 0) [2..<8]", symmetric]
    unfolding free_fds_def set_filter set_upt by (simp only: distinct_filter distinct_upt)
  then have "\<not> ?X \<subseteq> {i}" using card_mono [of "{i}" ?X] assms by auto
  then obtain j where j: "2 \<le> j" "j < 8" "fd_flags (fdt_of (cur_pid s) s ! j) = 0" "j \<noteq> i" by auto
  have f: "free_fd u" if "fd_flags (fdt_of (cur_pid u) u ! j) = 0" for u :: "'a proc_scheme"
    unfolding free_fd_def list_ex_iff set_upt using that j(1,2) by (intro bexI [of _ j]) simp_all
  show "free_fd s" by (rule f) (rule j(3))
  show "free_fd (set_fd (cur_pid s) i e s)" by (rule f) (use j in \<open>simp add: fdt_of_def\<close>)
qed

lemma fresh_fd_ok:
  assumes "out_ok s" "2 \<le> fd" "fd < 8" "t \<noteq> Null_ptr"
  shows "out_ok (set_fd (cur_pid s) (nat fd) (open_entry t ino) s)"
    "fdt_of (cur_pid s) (set_fd (cur_pid s) (nat fd) (open_entry t ino) s) ! nat fd = open_entry t ino"
proof -
  show "out_ok (set_fd (cur_pid s) (nat fd) (open_entry t ino) s)"
    by (rule out_ok_set_fd) (use assms in \<open>simp_all add: open_entry_def\<close>)
  have "length (fdt_of (cur_pid s) s) = 8" using assms(1) cur_okD(2) by (auto simp: out_ok_def)
  then show "fdt_of (cur_pid s) (set_fd (cur_pid s) (nat fd) (open_entry t ino) s) ! nat fd = open_entry t ino"
    using assms(2,3) by (simp add: fdt_of_def)
qed

lemma entry_type_name:
  assumes "entry_type img name = Some (t, ino)" "fs_wf img" "0 \<notin> set name" "0 \<in> set fname" "cstr fname = name"
  shows "\<exists>d. read_dentry_by_name img fname = Some (Inr d) \<and> file_type d = t \<and> inode_num d = ino" "name \<noteq> []"
proof -
  have "read_dentry_by_name img fname = read_dentry_by_name img (name @ [0])"
    using assms(2-5) by (simp add: read_dentry_by_name_eq)
  then show "\<exists>d. read_dentry_by_name img fname = Some (Inr d) \<and> file_type d = t \<and> inode_num d = ino"
    using assms(1) by (auto simp: entry_type_def split: option.splits sum.splits)
  show "name \<noteq> []" using assms(1,2) by (auto simp: entry_type_def read_dentry_by_name_eq)
qed

lemma getargs_args:
  assumes "cur_ok s" "args_of s \<noteq> []" "128 < n" "n \<le> length b"
  shows "sys_getargs (Some b) (int n) s = Some (0, args_of s @ 0 # drop (Suc (length (args_of s))) b)" "length (args_of s) < 128"
proof -
  let ?a = "cmd_args (pcbs s (cur_pid s))"
  have a: "length ?a = 128" "0 \<in> set ?a" "get_pcb (cur_pid s) s = Some (pcbs s (cur_pid s))"
    using assms(1) cur_okD(1) by (auto simp: cur_ok_def pcb_ok_def)
  obtain r where r: "?a = args_of s @ 0 # r" using cstr_split [OF a(2)] by (auto simp: args_of_def)
  then show l: "length (args_of s) < 128" using a(1) arg_cong [OF r, of length] by simp
  have "strlen ?a = Some (length (args_of s))" using a(2) by (simp add: strlen_eq args_of_def)
  moreover have "take (length (args_of s)) ?a = args_of s" by (subst r) simp
  ultimately show "sys_getargs (Some b) (int n) s = Some (0, args_of s @ 0 # drop (Suc (length (args_of s))) b)"
    using a(3) assms(2-4) l by (simp add: sys_getargs_def store_user_def)
qed

lemma open_file_at:
  assumes "out_ok s" "fs_wf (fs_img s)" "free_fd s" "entry_type (fs_img s) (cstr fb) = Some (2, ino)"
    and "unat ino < img32 (fs_img s) 4" "0 \<in> set fb"
  shows "\<exists>fd s'. os_open (kernel_os prog) fb (s, bt) = Some (fd, (s', bt)) \<and> 2 \<le> fd \<and> fd < 8 \<and> fd_flags (fdt_of (cur_pid s) s ! nat fd) = 0
    \<and> kfile_at (s, bt) fd (fs_img s) ino 0 (s', bt) \<and> kview (s', bt) = kview (s, bt)"
proof -
  have c: "cur_ok s" "0 \<notin> set (cstr fb)" using assms(1) by (simp_all add: out_ok_def)
  obtain d where d: "read_dentry_by_name (fs_img s) fb = Some (Inr d)" "file_type d = 2" "inode_num d = ino"
    using entry_type_name(1) [OF assms(4,2) c(2) assms(6) refl] by blast
  obtain fd where fd: "2 \<le> fd" "fd < 8" "sys_open fb s = Some (fd, set_fd (cur_pid s) (nat fd) (open_entry File_opt ino) s)"
    "fd_flags (fdt_of (cur_pid s) s ! nat fd) = 0"
    using sys_open_entry [OF c(1) d(1) assms(3)] d(2,3) by blast
  let ?s = "set_fd (cur_pid s) (nat fd) (open_entry File_opt ino) s"
  note o = fresh_fd_ok [OF assms(1) fd(1,2), of File_opt ino]
  have "only_files (s, bt) (?s, bt)" by (rule only_files_set_fd) simp
  then have "kfile_at (s, bt) fd (fs_img s) ino 0 (?s, bt)"
    using o fd(1,2) assms(2,5) other_fds_opened [of fd s "open_entry File_opt ino"] by (auto simp: kfile_at_def file_at_def out_ok_def open_entry_def)
  then show ?thesis using fd by (intro exI [of _ fd] exI [of _ ?s]) (simp add: kernel_os_def kview_def)
qed

lemma cat_on_kernel:
  assumes "out_ok s" "fs_wf (fs_img s)" "free_fd s" "entry_type (fs_img s) (args_of s) = Some (2, ino)"
    and "unat ino < img32 (fs_img s) 4" "length buf = 1024"
  shows "\<exists>s'. cat_main (kernel_os prog) buf (s, bt) = Some (0, (s', bt)) \<and> only_files (s, bt) (s', bt) \<and> out_ok s'
    \<and> screen.truncate s' = fold putc (file_content (fs_img s) (unat ino)) (screen.truncate s) \<and> read_index s' = read_index s"
proof -
  have c: "cur_ok s" "0 \<notin> set (args_of s)" using assms(1) by (simp_all add: out_ok_def args_of_def)
  let ?b = "args_of s @ 0 # drop (Suc (length (args_of s))) buf"
  have f: "0 \<in> set ?b" "cstr ?b = args_of s" using c(2) by simp_all
  note g = getargs_args [OF c(1) entry_type_name(2) [OF assms(4,2) c(2) f], of 1024 buf]
  obtain fd u where fd: "os_open (kernel_os prog) ?b (s, bt) = Some (fd, (u, bt))" "2 \<le> fd"
    "kfile_at (s, bt) fd (fs_img s) ino 0 (u, bt)" "kview (u, bt) = kview (s, bt)"
    using open_file_at [OF assms(1-3) _ assms(5) f(1), of prog bt] assms(4) f(2) by auto
  have "length ?b = 1024" using assms(6) g(2) by simp
  then obtain st' where st': "cat_loop (kernel_os prog) fd ?b (u, bt) = Some (0, st')"
    "kfile_at (s, bt) fd (fs_img s) ino (length (file_content (fs_img s) (unat ino))) st'"
    "kview st' = fold putc (drop 0 (file_content (fs_img s) (unat ino))) (kview (s, bt))"
    using kfile.cat_loop_prints [OF fd(3), of ?b prog] fd(4) by auto
  obtain s' bt' where s': "st' = (s', bt')" by (cases st')
  then have "bt' = bt" "only_files (s, bt) (s', bt)" "out_ok s'" "read_index s' = read_index s"
    using st'(2) by (auto simp: kfile_at_def only_files_def other_fds_def)
  moreover have "os_getargs (kernel_os prog) buf 1024 (s, bt) = Some (?b, 0, (s, bt))" using g(1) assms(6) by (simp add: kernel_os_def)
  then have "cat_main (kernel_os prog) buf (s, bt) = cat_loop (kernel_os prog) fd ?b (u, bt)"
    using fd(1,2) by (simp add: cat_main_def)
  ultimately show ?thesis using st'(1,3) s' by (auto simp: kview_def)
qed

text \<open>
  \<open>cat\<close> on the kernel: started with the name of a regular file as its argument, with a free descriptor and its standard
  output in place, it ends with status 0 after the whole content of the file, in order, and nothing else has
  appeared on its terminal; of the rest of the kernel only its descriptors have changed.
\<close>

theorem cat_prints_file:
  assumes "out_ok s" "fs_wf (fs_img s)" "free_fd s" "entry_type (fs_img s) (args_of s) = Some (2, ino)"
    and "unat ino < img32 (fs_img s) 4" "length buf = 1024"
  shows "\<exists>s'. cat_main (kernel_os prog) buf (s, bt) = Some (0, (s', bt)) \<and> only_files (s, bt) (s', bt)
    \<and> screen.truncate s' = fold putc (file_content (fs_img s) (unat ino)) (screen.truncate s)"
  using cat_on_kernel [OF assms, of prog bt] by blast

lemma open_dir_at:
  assumes "out_ok s" "fs_wf (fs_img s)" "[] \<notin> set (dir_names (fs_img s))" "free_fd s" "entry_type (fs_img s) [of_char (CHR ''.'')] = Some (1, ino)"
    and "read_index s = of_nat k" "k \<le> length (dir_names (fs_img s))"
  shows "\<exists>fd e. os_open (kernel_os prog) (msg ''.'') (s, bt) = Some (fd, (set_fd (cur_pid s) (nat fd) e s, bt)) \<and> 2 \<le> fd
    \<and> kdir_at (s, bt) fd (fs_img s) k (set_fd (cur_pid s) (nat fd) e s, bt) \<and> kview (set_fd (cur_pid s) (nat fd) e s, bt) = kview (s, bt)"
proof -
  have c: "cur_ok s" using assms(1) by (simp add: out_ok_def)
  have m: "0 \<in> set (msg ''.'')" "cstr (msg ''.'') = [of_char (CHR ''.'')]" by (simp_all add: bytes_def cstr_def)
  have "0 \<notin> set [of_char (CHR ''.'') :: u8]" by simp
  from entry_type_name(1) [OF assms(5,2) this m] obtain d where
    d: "read_dentry_by_name (fs_img s) (msg ''.'') = Some (Inr d)" "file_type d = 1" "inode_num d = ino" by blast
  obtain fd where fd: "2 \<le> fd" "fd < 8" "sys_open (msg ''.'') s = Some (fd, set_fd (cur_pid s) (nat fd) (open_entry Dir_opt ino) s)"
    using sys_open_entry [OF c d(1) assms(4)] d(2,3) by blast
  let ?s = "set_fd (cur_pid s) (nat fd) (open_entry Dir_opt ino) s"
  note o = fresh_fd_ok [OF assms(1) fd(1,2), of Dir_opt ino]
  have "only_files (s, bt) (?s, bt)" by (rule only_files_set_fd) simp
  moreover have "read_index ?s = of_nat k" using assms(6) by (simp add: set_fd_def)
  ultimately have "kdir_at (s, bt) fd (fs_img s) k (?s, bt)"
    using o fd(1,2) assms(2,3,7) by (auto simp: kdir_at_def open_entry_def)
  then show ?thesis using fd by (intro exI [of _ fd] exI [of _ "open_entry Dir_opt ino"]) (simp add: kernel_os_def kview_def)
qed

lemma ls_on_kernel:
  assumes "out_ok s" "fs_wf (fs_img s)" "[] \<notin> set (dir_names (fs_img s))" "free_fd s" "entry_type (fs_img s) [of_char (CHR ''.'')] = Some (1, ino)"
    and "read_index s = of_nat k" "k \<le> length (dir_names (fs_img s))" "length buf = 33"
  shows "\<exists>s'. ls_main (kernel_os prog) buf (s, bt) = Some (0, (s', bt)) \<and> only_files (s, bt) (s', bt) \<and> out_ok s'
    \<and> screen.truncate s' = fold putc (concat (map (\<lambda>name. name @ [10]) (drop k (dir_names (fs_img s))))) (screen.truncate s)
    \<and> dir_held [2, 3, 4, 5, 6, 7] s'"
proof -
  obtain fd u where fd: "os_open (kernel_os prog) (msg ''.'') (s, bt) = Some (fd, (u, bt))" "2 \<le> fd" "kdir_at (s, bt) fd (fs_img s) k (u, bt)"
    "kview (u, bt) = kview (s, bt)"
    using open_dir_at [OF assms(1-7), of prog bt] by blast
  then obtain st' where st': "ls_loop (kernel_os prog) fd buf (u, bt) = Some (0, st')"
    "kdir_at (s, bt) fd (fs_img s) (length (dir_names (fs_img s))) st'"
    "kview st' = fold putc (concat (map (\<lambda>name. name @ [10]) (drop k (dir_names (fs_img s))))) (kview (s, bt))"
    using kdir.ls_loop_prints [of "(s, bt)" fd "fs_img s" k "(u, bt)" buf prog] assms(8) by auto
  obtain s' bt' where s': "st' = (s', bt')" by (cases st')
  then have "bt' = bt" "only_files (s, bt) (s', bt)" "out_ok s'" "dir_held [2, 3, 4, 5, 6, 7] s'"
    using st'(2) kdir_held [of "(s, bt)" fd "fs_img s" _ s' bt] by (auto simp: kdir_at_def only_files_def)
  moreover have "ls_main (kernel_os prog) buf (s, bt) = ls_loop (kernel_os prog) fd buf (u, bt)"
    using fd(1,2) by (simp add: ls_main_def)
  ultimately show ?thesis using st'(1,3) s' by (auto simp: kview_def)
qed

text \<open>
  \<open>ls\<close> on the kernel: it ends with status 0 after printing the names of all entries of the directory from the
  current directory index on, in order, each on a line of its own, also those that fill all 32 bytes.
\<close>

theorem ls_prints_names:
  assumes "out_ok s" "fs_wf (fs_img s)" "[] \<notin> set (dir_names (fs_img s))" "free_fd s" "entry_type (fs_img s) [of_char (CHR ''.'')] = Some (1, ino)"
    and "read_index s = of_nat k" "k \<le> length (dir_names (fs_img s))" "length buf = 33"
  shows "\<exists>s'. ls_main (kernel_os prog) buf (s, bt) = Some (0, (s', bt)) \<and> only_files (s, bt) (s', bt)
    \<and> screen.truncate s' = fold putc (concat (map (\<lambda>name. name @ [10]) (drop k (dir_names (fs_img s))))) (screen.truncate s)"
  using ls_on_kernel [OF assms, of prog bt] by blast

subsection \<open>Instances\<close>

lemma length_user_img: "length user_img = 12288"
  by (simp add: user_img_def)

lemma user_img_words:
  "img32 user_img 0 = 2" "img32 user_img 4 = 1" "img32 user_img 8 = 1" "img32 user_img 4096 = 28" "img32 user_img 4100 = 0"
  by (simp_all add: img32_def rd32_def rd_def length_user_img) (simp_all add: user_img_def nth_append le32_def)

lemma user_img_wf: "fs_wf user_img"
  by (simp add: fs_wf_def inode_ok_def user_img_words length_user_img file_len_def file_block_def)

lemma user_img_content: "file_len user_img 0 = 28"
  "file_content user_img 0 = [0x7F, 0x45, 0x4C, 0x46] @ replicate 20 0 @ [0x1C, 0x80, 0x04, 0x08]" (is "_ = ?elf")
proof -
  show l: "file_len user_img 0 = 28" by (simp add: file_len_def user_img_words)
  obtain pre post where p: "user_img = pre @ ?elf @ post" "length pre = 8192"
    by (rule that [of "take 8192 user_img" "replicate 4068 0"]) (simp_all add: user_img_def)
  have "content_byte user_img 0 i = ?elf ! i" if "i < 28" for i
  proof -
    have "content_byte user_img 0 i = user_img ! (8192 + i)"
      using that by (simp add: content_byte_def file_block_def user_img_words)
    also have "\<dots> = (?elf @ post) ! i" unfolding p(1) using p(2) by (simp only: nth_append) simp
    also have "\<dots> = ?elf ! i" by (rule nth_append_left) (use that in simp)
    finally show ?thesis .
  qed
  then show "file_content user_img 0 = ?elf" by (intro nth_equalityI) (simp_all add: file_content_def l)
qed

lemma user_img_entries:
  "entry_name user_img 0 = [46]" "entry_name user_img 1 = [99, 97, 116]"
  "rd_dentry user_img 0 = Some \<lparr>file_name = [46] @ replicate 31 0, file_type = 1, inode_num = 0\<rparr>"
  "rd_dentry user_img 1 = Some \<lparr>file_name = [99, 97, 116] @ replicate 29 0, file_type = 2, inode_num = 0\<rparr>"
  by (simp_all add: entry_name_def rd_dentry_def dentry_off_def rd32_def rd_def length_user_img)
    (simp_all add: user_img_def nth_append le32_def cstr_def)

lemma user_img_lookup:
  "dir_names user_img = [[46], [99, 97, 116]]" "entry_type user_img [46] = Some (1, 0)" "entry_type user_img [99, 97, 116] = Some (2, 0)"
  using user_img_entries read_dentry_by_name_eq [OF user_img_wf, of "[46, 0]"] read_dentry_by_name_eq [OF user_img_wf, of "[99, 97, 116, 0]"]
  by (simp_all add: dir_names_def entry_type_def lookup_entry_def user_img_words upt_rec cstr_def)

lemma user_state_ok: "out_ok user_state" "free_fd user_state" "fs_img user_state = user_img" "args_of user_state = [99, 97, 116]"
  "read_index user_state = 0" "procs_ok user_state" "kb_safe user_state" "ta user_state = 0"
proof -
  have t: "tables_ready user_state"
    using boot_proc_procs(1) [of user_img] tables_ready_cong [of user_state "boot_proc user_img"] by (simp add: user_state_def procs_ok_def)
  then show "out_ok user_state"
    by (simp add: out_ok_def cur_ok_def) (simp add: user_state_def boot_proc_ok fdt_of_def pcb_ok_def std_entry_def closed_entry_def blank_pcb_def list_all_iff)
  show "free_fd user_state" "fs_img user_state = user_img" "args_of user_state = [99, 97, 116]"
    by (simp_all add: free_fd_def args_of_def user_state_def boot_proc_ok fdt_of_def closed_entry_def cstr_def list_ex_iff upt_rec)
  show "read_index user_state = 0"
    by (simp add: user_state_def boot_proc_def process_init_def upd_term_def Let_def kbd.extend_def)
  show "procs_ok user_state"
    by (rule procs_okI) (use t boot_proc_procs(1) [of user_img] in
      \<open>auto simp: procs_ok_def user_state_def pcb_ok_def blank_pcb_def std_entry_def closed_entry_def list_all_iff\<close>)
  show "kb_safe user_state" "ta user_state = 0"
    using boot_proc_procs(5) [of user_img] boot_proc_procs(3) [of user_img] by (simp_all add: kb_safe_def user_state_def)
qed

theorem cat_prints_file_witness:
  "\<exists>s'. cat_main (kernel_os (\<lambda>_ _. None)) (replicate 1024 0) (user_state, []) = Some (0, (s', []))
    \<and> screen.truncate s' = fold putc ([0x7F, 0x45, 0x4C, 0x46] @ replicate 20 0 @ [0x1C, 0x80, 0x04, 0x08]) (screen.truncate user_state)"
  using cat_prints_file [of user_state 0 "replicate 1024 0" "\<lambda>_ _. None" "[]"]
  by (auto simp: user_state_ok user_img_wf user_img_lookup user_img_words user_img_content)

theorem ls_prints_names_witness:
  "\<exists>s'. ls_main (kernel_os (\<lambda>_ _. None)) (replicate 33 0) (user_state, []) = Some (0, (s', []))
    \<and> screen.truncate s' = fold putc [46, 10, 99, 97, 116, 10] (screen.truncate user_state)"
  using ls_prints_names [of user_state 0 0 "replicate 33 0" "\<lambda>_ _. None" "[]"]
  by (auto simp: user_state_ok user_img_wf user_img_lookup)

end
