(* ===== verification/User_Session.thy ===== *)
theory User_Session
  imports User_Kernel
begin

text \<open>
  Sessions of the shell on the kernel: the shell waits for a line, the user types it, the kernel starts the program,
  which runs to its end and halts, and the shell prompts again.
\<close>

text \<open>The display as the running program sees it: memory, cursor, page and active terminal.\<close>

definition display :: "'a screen_scheme \<Rightarrow> mem \<times> int \<times> int \<times> u32 \<times> nat" where
  "display s = (pmem s, cursor_x (terminals s (ta s)), cursor_y (terminals s (ta s)), video_mem s, ta s)"

text \<open>Standard input in place.\<close>

definition in_ok :: "'a proc_scheme \<Rightarrow> bool" where
  "in_ok s \<longleftrightarrow> file_op_table_ptr (fdt_of (cur_pid s) s ! 0) = Stdin_opt \<and> fd_flags (fdt_of (cur_pid s) s ! 0) = 1"

text \<open>A shell runs in the foreground on a terminal with an empty line buffer and no modifier key held.\<close>

definition shell_ready :: "'a proc_scheme \<Rightarrow> bool" where
  "shell_ready s \<longleftrightarrow> console_inv s \<and> kb_inv s \<and> kb_line s = [] \<and> plain_keys s \<and> ts s = ta s
     \<and> procs_ok s \<and> 0 \<le> cur_pid s \<and> cur_pid s < 6 \<and> pid_array s ! nat (cur_pid s) \<noteq> 0
     \<and> fs_wf (fs_img s) \<and> read_index s = 0 \<and> in_ok s \<and> out_ok s"

text \<open>What remains of the kernel's state when a program that only reads files has ended.\<close>

definition back_in :: "nat \<Rightarrow> 'a proc_scheme \<Rightarrow> 'a proc_scheme \<Rightarrow> bool" where
  "back_in i s s' \<longleftrightarrow> cur_pid s' = cur_pid s \<and> pid_array s' = pid_array s \<and> fs_img s' = fs_img s \<and> optab s' = optab s
     \<and> ts s' = ts s \<and> ta s' = ta s \<and> read_index s' = 0 \<and> video_mem s' = video_mem s \<and> term_init_done s' = term_init_done s
     \<and> plain_keys s' = plain_keys s \<and> length (process_rtc s') = length (process_rtc s)
     \<and> pd s' = pd (map_program (cur_pid s) s) \<and> pt s' = pt s
     \<and> pte_addr_31_12 (pt_user s' VID_MEM_INDEX) = pte_addr_31_12 (pt_user s VID_MEM_INDEX)
     \<and> (\<forall>q. q \<noteq> int i \<longrightarrow> pcbs s' q = pcbs s q) \<and> pcb_ok (pcbs s' (int i)) \<and> all_closed (fdt_of (int i) s')
     \<and> active_pid (terminals s' (ta s)) = cur_pid s \<and> terminal_buf (terminals s' (ta s)) = replicate 128 0
     \<and> (\<forall>k. buf_idx (terminals s' k) = buf_idx (terminals s k)) \<and> (\<forall>k. k \<noteq> ta s \<longrightarrow> terminals s' k = terminals s k)
     \<and> keyboard_buf s' = (if ts s = ta s then replicate 128 0 else keyboard_buf s)
     \<and> key_idx s' = (if ts s = ta s then 0 else key_idx s)"

text \<open>
  The contract of a program that reads files and prints: started with these arguments over this image, its descriptors free and the
  directory index 0, it prints \<open>out\<close>, ends with status \<open>st\<close> and leaves all of the kernel but its own
  descriptors alone; the directory index is 0 again when its descriptors have been closed.
\<close>

definition prints :: "('a session \<Rightarrow> (int \<times> 'a session) option) \<Rightarrow> buf \<Rightarrow> buf \<Rightarrow> buf \<Rightarrow> int \<Rightarrow> bool" where
  "prints m img args out st \<longleftrightarrow> (\<forall>s bt. out_ok s \<and> free_fds s = 6 \<and> fs_img s = img \<and> read_index s = 0 \<and> args_of s = args \<longrightarrow>
     (\<exists>s'. m (s, bt) = Some (st, (s', bt)) \<and> only_files (s, bt) (s', bt) \<and> out_ok s'
       \<and> screen.truncate s' = fold putc out (screen.truncate s) \<and> dir_held [2, 3, 4, 5, 6, 7] s'))"

text \<open>
  What the shell shows for a command line, and the memory after the kernel has loaded its program as process \<open>i\<close>.
\<close>

definition answers :: "(buf \<Rightarrow> 'a session \<Rightarrow> (int \<times> 'a session) option) \<Rightarrow> buf \<Rightarrow> buf \<Rightarrow> buf \<Rightarrow> buf \<Rightarrow> buf \<Rightarrow> bool" where
  "answers prog img name args cs out \<longleftrightarrow> cs \<noteq> [] \<and> 0 \<notin> set cs \<and> NL \<notin> set cs \<and> length cs < 128 \<and> cs \<noteq> bytes ''exit'' \<and> 0 \<notin> set args
     \<and> (\<forall>r. parse_command (cs @ 0 # r) = Some (name, args))
     \<and> (case exec_file img name of
          None \<Rightarrow> out = bytes ''no such command'' @ [NL]
        | Some ino \<Rightarrow> file_len img (unat ino) \<le> 0x3B8000 \<and> prints (prog name) img args out 0)"

definition loaded :: "buf \<Rightarrow> nat \<Rightarrow> buf \<Rightarrow> mem \<Rightarrow> mem" where
  "loaded img i name m = (case exec_file img name of
     None \<Rightarrow> m | Some ino \<Rightarrow> mem_store (program_phys (int i) 0x48000) (file_content img (unat ino)) m)"

subsection \<open>One program from execute to halt\<close>

lemma display_putc:
  fixes s :: "'a screen_scheme" and t :: "'b screen_scheme"
  assumes "display s = display t"
  shows "display (putc c s) = display (putc c t)"
proof -
  have e: "ta s = ta t" "pmem s = pmem t" "video_mem s = video_mem t" "cursor_x (terminals s (ta t)) = cursor_x (terminals t (ta t))"
    "cursor_y (terminals s (ta t)) = cursor_y (terminals t (ta t))" using assms by (auto simp: display_def)
  show ?thesis by (simp add: display_def putc_def put_char_def Let_def cli_def sti_def upd_term_def case_prod_beta e)
qed

lemma display_fold_putc:
  fixes s :: "'a screen_scheme" and t :: "'b screen_scheme"
  shows "display s = display t \<Longrightarrow> display (fold putc cs s) = display (fold putc cs t)"
proof (induction cs arbitrary: s t)
  case (Cons c cs)
  show ?case using Cons.IH [OF display_putc [OF Cons.prems]] by simp
qed simp

lemma screen_state_eq: "screen.truncate s = screen.truncate t \<Longrightarrow> screen.more s = screen.more t \<Longrightarrow> s = t"
  by (cases s; cases t) (simp add: screen.truncate_def)

lemma more_files:
  fixes s t :: "'a proc_scheme"
  shows "screen.more s = screen.more t \<Longrightarrow> screen.more (s\<lparr>read_index := i, pcbs := p\<rparr>) = screen.more (t\<lparr>read_index := i, pcbs := p\<rparr>)"
  by (cases s; cases t) simp

lemma only_files_state:
  assumes "only_files (u, bt) (v, bt)" "screen.truncate v = fold putc cs (screen.truncate u)"
  shows "\<exists>fdt ri. v = (fold putc cs u)\<lparr>read_index := ri,
    pcbs := (pcbs u)(cur_pid u := (pcbs u (cur_pid u))\<lparr>file_descriptor_table := fdt\<rparr>)\<rparr>"
proof -
  let ?w = "fold putc cs u"
  obtain fdt ri where m: "screen.more v = screen.more (u\<lparr>read_index := ri,
      pcbs := (pcbs u)(cur_pid u := (pcbs u (cur_pid u))\<lparr>file_descriptor_table := fdt\<rparr>)\<rparr>)"
    using assms(1) by (auto simp: only_files_def)
  have w: "screen.more ?w = screen.more u" "screen.truncate v = screen.truncate ?w"
    using assms(2) by (simp_all add: more_fold_putc truncate_fold_putc)
  let ?p = "(pcbs u)(cur_pid u := (pcbs u (cur_pid u))\<lparr>file_descriptor_table := fdt\<rparr>)"
  have a: "screen.more (?w\<lparr>read_index := ri, pcbs := ?p\<rparr>) = screen.more (u\<lparr>read_index := ri, pcbs := ?p\<rparr>)"
    by (rule more_files [OF w(1)])
  have b: "screen.truncate (?w\<lparr>read_index := ri, pcbs := ?p\<rparr>) = screen.truncate ?w" by (simp add: screen.truncate_def)
  have "v = ?w\<lparr>read_index := ri, pcbs := ?p\<rparr>"
    by (rule screen_state_eq) (simp_all only: a b w(2) m)
  then show ?thesis by blast
qed

lemma kbd_fold_putc:
  fixes s :: "'a kbd_scheme"
  shows "caps (fold putc cs s) = caps s" "l_shift (fold putc cs s) = l_shift s" "r_shift (fold putc cs s) = r_shift s"
    "ctrl (fold putc cs s) = ctrl s" "ts (fold putc cs s) = ts s" "ta (fold putc cs s) = ta s" "video_mem (fold putc cs s) = video_mem s"
    "prev_pid (fold putc cs s) = prev_pid s" "process_rtc (fold putc cs s) = process_rtc s"
    "pd (fold putc cs s) = pd s" "pt (fold putc cs s) = pt s" "pt_user (fold putc cs s) = pt_user s"
    "term_init_done (fold putc cs s) = term_init_done s" "keyboard_buf (fold putc cs s) = keyboard_buf s"
    "key_idx (fold putc cs s) = key_idx s"
    "terminal_buf (terminals (fold putc cs s) k) = terminal_buf (terminals s k)"
    "buf_idx (terminals (fold putc cs s) k) = buf_idx (terminals s k)"
    "active_pid (terminals (fold putc cs s) k) = active_pid (terminals s k)"
proof -
  have m: "screen.more (fold putc cs s) = screen.more s" by (rule more_fold_putc)
  then show "caps (fold putc cs s) = caps s" "l_shift (fold putc cs s) = l_shift s" "r_shift (fold putc cs s) = r_shift s"
    "ctrl (fold putc cs s) = ctrl s" by (cases "fold putc cs s"; cases s; simp)+
  show "prev_pid (fold putc cs s) = prev_pid s" "process_rtc (fold putc cs s) = process_rtc s"
    "pd (fold putc cs s) = pd s" "pt (fold putc cs s) = pt s" "pt_user (fold putc cs s) = pt_user s"
    "term_init_done (fold putc cs s) = term_init_done s" "keyboard_buf (fold putc cs s) = keyboard_buf s"
    "key_idx (fold putc cs s) = key_idx s"
    by (rule kbd_fields_cong [OF m])+
  show "ts (fold putc cs s) = ts s" "ta (fold putc cs s) = ta s" "video_mem (fold putc cs s) = video_mem s"
    "terminal_buf (terminals (fold putc cs s) k) = terminal_buf (terminals s k)"
    "buf_idx (terminals (fold putc cs s) k) = buf_idx (terminals s k)"
    "active_pid (terminals (fold putc cs s) k) = active_pid (terminals s k)"
    by (induction cs arbitrary: s) (simp_all add: putc_def put_char_def Let_def cli_def sti_def upd_term_def case_prod_beta)
qed

lemma other_terminal_fold_putc: "k \<noteq> ta s \<Longrightarrow> terminals (fold putc cs s) k = terminals s k"
proof (induction cs arbitrary: s)
  case (Cons c cs)
  have "terminals (putc c s) k = terminals s k"
    using Cons.prems by (simp add: putc_def put_char_def Let_def cli_def sti_def upd_term_def case_prod_beta)
  then show ?case using Cons by simp
qed simp

text \<open>A program that has just been started meets the precondition of the contract.\<close>

lemma started_ready:
  assumes "procs_ok s" "i < 6" "0 \<notin> set args" "length args < 128"
  shows "procs_ok (started at bs args (chosen i s))" "out_ok (started at bs args (chosen i s))"
    "free_fds (started at bs args (chosen i s)) = 6" "args_of (started at bs args (chosen i s)) = args"
proof -
  let ?u = "started at bs args (chosen i s)"
  have fp: "pcb_ok (fresh_pcb (int i) par args e0 e1 (pcbs s (int i)))" for par e0 e1
    using procs_okD(3) [OF assms(1), of "int i"] assms(2,4)
    by (simp add: fresh_pcb_def pcb_ok_def std_entry_def closed_entry_def list_all_iff)
  have tr: "tables_ready ?u" using tables_ready_cong [of ?u s] assms(1) by (simp add: procs_ok_def)
  show p: "procs_ok ?u"
    by (rule procs_okI) (use assms(1) tr fp procs_okD(1) [OF assms(1)] in \<open>auto simp: procs_ok_def\<close>)
  have "cur_ok ?u" by (rule cur_ok_procs [OF p]) (use assms(2) in simp_all)
  then show "out_ok ?u" by (simp add: out_ok_def fdt_of_def fresh_pcb_def std_entry_def)
  show "free_fds ?u = 6" by (simp add: free_fds_def fdt_of_def fresh_pcb_def closed_entry_def upt_rec)
  show "args_of ?u = args" using assms(3) by (simp add: args_of_def fresh_pcb_def)
qed

lemma plain_started: "plain_keys (started at bs args (chosen i s)) = plain_keys s"
  by (simp add: plain_keys_def started_def Let_def chosen_def cli_def)

lemma plain_fold_putc: "plain_keys (fold putc cs s) = plain_keys s"
  by (simp add: plain_keys_def kbd_fold_putc)

lemma plain_detached: "plain_keys (detached q s) = plain_keys s"
  by (simp add: plain_keys_def detached_def map_program_def set_pd_def cli_def Let_def)

lemma map_program_twice: "pd u = pd (map_program p s) \<Longrightarrow> pd (map_program q u) = pd (map_program q s)"
  by (simp add: map_program_def set_pd_def Let_def)

lemma low_byte: "0 \<le> st \<Longrightarrow> st < 256 \<Longrightarrow> sint (ucast (word_of_int st :: u8) :: u32) = st"
  by (simp add: signed_ucast_eq unsigned_of_int signed_of_int take_bit_int_eq_self signed_take_bit_int_eq_self)

text \<open>The state in which a started program has printed \<open>out\<close>, up to its own descriptors and the directory index.\<close>

lemma back_in_handed_back:
  assumes "procs_ok s" "least_free (pid_array s) i" "3 \<le> i" "0 \<le> cur_pid s" "cur_pid s < 6" "pid_array s ! nat (cur_pid s) \<noteq> 0"
    and v: "v = (fold putc out (started (ta s) bs args (chosen i s)))\<lparr>read_index := ri,
      pcbs := (pcbs s)(int i := p)\<rparr>"
    and t: "fd_only (int i) (detached (cur_pid s) v) t" "all_closed (fdt_of (int i) t)" "read_index t = 0" "pcb_ok p"
  shows "back_in i s (handed_back (ta s) (cur_pid s) e t)"
    "display (handed_back (ta s) (cur_pid s) e t)
      = display (fold putc out (s\<lparr>pmem := mem_store (program_phys (int i) 0x48000) bs (pmem s)\<rparr>))"
proof -
  let ?u = "started (ta s) bs args (chosen i s)"
  note f = fd_onlyD [OF t(1)] detached_fields [of "cur_pid s" v]
  have fr: "pid_array s ! i = 0" "i < 6" using assms(2) by (simp_all add: least_free_def)
  have "nat (cur_pid s) \<noteq> i" using fr(1) assms(6) by auto
  then have i: "pid_array s ! i = 0" "i < 6" "int i \<noteq> cur_pid s" using fr by auto
  have l: "length (pid_array s) = 6" using assms(1) by (simp add: procs_ok_def)
  have v0: "pid_array v = (pid_array s)[i := 1]" "cur_pid v = int i" using v by simp_all
  have "(pid_array s)[i := 0] = pid_array s" using list_update_id [of "pid_array s" i] i(1) by simp
  then have pa: "pid_array t = pid_array s" using v0 by (simp add: f)
  have pd: "pd t = pd (map_program (cur_pid s) s)"
  proof -
    have "pd v = pd (map_program (int i) (chosen i s))" using v by (simp add: kbd_fold_putc)
    then have "pd v = pd (map_program (int i) s)" by (simp add: map_program_def set_pd_def Let_def)
    then show ?thesis using map_program_twice [of v "int i" s "cur_pid s"] by (simp add: f)
  qed
  have "plain_keys v = plain_keys (fold putc out ?u)" using v by (simp add: plain_keys_def)
  moreover have "plain_keys t = plain_keys (detached (cur_pid s) v)" using t(1) by (auto simp: fd_only_def plain_keys_def)
  ultimately have c: "plain_keys t = plain_keys s" by (simp add: plain_detached plain_fold_putc plain_started)
  have tv: "ts v = ts s" "ta v = ta s" "video_mem v = video_mem s" "keyboard_buf v = keyboard_buf s"
    using v by (simp_all add: kbd_fold_putc)
  have ot: "terminals v k = terminals s k" if "k \<noteq> ta s" for k
    using that v other_terminal_fold_putc [of k ?u out] by simp
  have bi: "buf_idx (terminals v k) = buf_idx (terminals s k)" for k
    using v by (simp add: kbd_fold_putc)
  have pu: "pt v = pt s" "pte_addr_31_12 (pt_user v VID_MEM_INDEX) = pte_addr_31_12 (pt_user s VID_MEM_INDEX)"
    "process_rtc v = process_rtc s" "term_init_done v = term_init_done s" "fs_img v = fs_img s" "optab v = optab s" "key_idx v = key_idx s"
    using v by (simp_all add: kbd_fold_putc)
  have pcs: "pcbs t q = pcbs s q" if "q \<noteq> int i" for q using that f v by simp
  have hp: "plain_keys (handed_back (ta s) (cur_pid s) e t) = plain_keys t"
    "fdt_of (int i) (handed_back (ta s) (cur_pid s) e t) = fdt_of (int i) t"
    by (simp_all add: fdt_of_def handed_back_fields) (simp add: handed_back_def plain_keys_def)
  have "pcb_ok (pcbs t (int i))" using f v t(4) by simp
  then show "back_in i s (handed_back (ta s) (cur_pid s) e t)"
    using t(2,3) pa pd c i tv ot bi pu pcs hp unfolding back_in_def handed_back_fields by (simp add: f)
  show "display (handed_back (ta s) (cur_pid s) e t)
      = display (fold putc out (s\<lparr>pmem := mem_store (program_phys (int i) 0x48000) bs (pmem s)\<rparr>))"
  proof -
    have "display (handed_back (ta s) (cur_pid s) e t) = display v"
      using tv by (simp add: display_def handed_back_fields f)
    also have "\<dots> = display (fold putc out ?u)" using v by (simp add: display_def)
    also have "\<dots> = display (fold putc out (s\<lparr>pmem := mem_store (program_phys (int i) 0x48000) bs (pmem s)\<rparr>))"
      by (rule display_fold_putc) (simp add: display_def)
    finally show ?thesis .
  qed
qed

lemma execute_prints:
  assumes "procs_ok s" "kb_safe s" "ta s < 3" "0 \<le> cur_pid s" "cur_pid s < 6" "pid_array s ! nat (cur_pid s) \<noteq> 0"
    and "fs_wf (fs_img s)" "parse_command cmd = Some (name, args)" "0 \<notin> set args"
    and "exec_file (fs_img s) name = Some ino" "file_len (fs_img s) (unat ino) \<le> 0x3B8000"
    and "least_free (pid_array s) i" "3 \<le> i"
    and "read_index s = 0" "prints (prog name) (fs_img s) args out st" "0 \<le> st" "st < 256"
  shows "\<exists>s'. kernel_execute prog cmd (s, bt) = Some (st, (s', bt)) \<and> back_in i s s'
    \<and> display s' = display (fold putc out (s\<lparr>pmem :=
        mem_store (program_phys (int i) 0x48000) (file_content (fs_img s) (unat ino)) (pmem s)\<rparr>))"
proof -
  let ?bs = "file_content (fs_img s) (unat ino)"
  let ?u = "started (ta s) ?bs args (chosen i s)"
  have i: "i < 6" using assms(12) by (simp add: least_free_def)
  have al: "length args < 128"
    using assms(8) by (auto simp: parse_command_def split: bind_splits prod.splits if_splits)
  note u = started_ready [OF assms(1) i assms(9) al, of "ta s" ?bs]
  have ri: "read_index ?u = read_index s" by (simp add: started_def chosen_def cli_def Let_def)
  obtain eip where e: "sys_execute cmd s = Some (Enter_user eip 0x83FFFFC, ?u)"
    using sys_execute_started [OF assms(7,1,8,10,12,11)] by blast
  obtain v where v: "prog name (?u, bt) = Some (st, (v, bt))" "only_files (?u, bt) (v, bt)" "out_ok v"
    "screen.truncate v = fold putc out (screen.truncate ?u)" "dir_held [2, 3, 4, 5, 6, 7] v"
    using assms(14,15) u(2-4) ri unfolding prints_def by fastforce
  obtain fdt r where ve: "v = (fold putc out ?u)\<lparr>read_index := r,
      pcbs := (pcbs ?u)(int i := (pcbs ?u (int i))\<lparr>file_descriptor_table := fdt\<rparr>)\<rparr>"
    using only_files_state [OF v(2,4)] by auto
  let ?p = "(pcbs ?u (int i))\<lparr>file_descriptor_table := fdt\<rparr>"
  have ps: "pcbs v = (pcbs s)(int i := ?p)" "cur_pid v = int i" "ta v = ta s" using ve by (simp_all add: kbd_fold_putc)
  have pok: "pcb_ok ?p" using v(3) ps by (simp add: out_ok_def cur_ok_def)
  have "procs_ok v"
    by (rule procs_okI) (use v(3) ve assms(1) pok ps(1) procs_okD(1) [OF assms(1)] in
      \<open>auto simp: out_ok_def cur_ok_def procs_ok_def kbd_fold_putc\<close>)
  moreover have "kb_safe v" using ve assms(2) by (simp add: kb_safe_def kbd_fold_putc list_all_iff)
  moreover have "parent_pid (pcbs v (cur_pid v)) = cur_pid s" "pcb_ebp (pcbs v (cur_pid v)) = ebp s"
    using ps assms(13) by (simp_all add: fresh_pcb_def)
  ultimately obtain t where t: "halt_helper (ucast (word_of_int st :: u8)) v = Some (Leave_frame (ebp s) (ucast (word_of_int st :: u8)),
      handed_back (ta s) (cur_pid s) (ebp s) t)" "fd_only (int i) (detached (cur_pid s) v) t" "all_closed (fdt_of (int i) t)" "read_index t = 0"
    using halt_parent_eq [of v "cur_pid s" "ucast (word_of_int st :: u8)"] ps assms(3-5) i v(5) by auto
  have "kernel_execute prog cmd (s, bt) = Some (st, (handed_back (ta s) (cur_pid s) (ebp s) t, bt))"
    using e v(1) t(1) assms(8) low_byte [OF assms(16,17)] by (simp add: kernel_execute_def sys_halt_def)
  moreover have "v = (fold putc out ?u)\<lparr>read_index := r, pcbs := (pcbs s)(int i := ?p)\<rparr>" using ve by simp
  note back_in_handed_back [OF assms(1,12,13,4-6) this t(2-4) pok]
  ultimately show ?thesis by blast
qed

subsection \<open>Programs that meet the contract\<close>

lemma free_fds_all: "free_fds s = 6 \<Longrightarrow> free_fd s"
  by (rule free_fds_other(1)) simp

lemma cat_prints:
  assumes "fs_wf img" "entry_type img f = Some (2, ino)" "unat ino < img32 img 4" "length buf = 1024"
  shows "prints (cat_main (kernel_os p) buf) img f (file_content img (unat ino)) 0"
  unfolding prints_def using cat_on_kernel [of _ ino buf p] free_fds_all assms by (fastforce simp: dir_held_def)

lemma ls_prints:
  assumes "fs_wf img" "[] \<notin> set (dir_names img)" "entry_type img [of_char (CHR ''.'')] = Some (1, ino)" "length buf = 33"
  shows "prints (ls_main (kernel_os p) buf) img args (concat (map (\<lambda>name. name @ [10]) (dir_names img))) 0"
  unfolding prints_def using ls_on_kernel [of _ ino 0 buf p] free_fds_all assms by fastforce

lemma testprint_meets: "prints (testprint_main (kernel_os p)) img args
    (bytes ''Hello, if this ran, the program was correct. Yay!'' @ [10]) 0"
  unfolding prints_def
  by (auto simp: testprint_main_def fdputs_kernel bytes_def cstr_def only_files_putc truncate_fold_putc dir_held_def
      simp del: fold.simps intro: only_files_putc)

subsection \<open>Typing a command\<close>

lemma type_line:
  assumes "kb_inv s" "plain_keys s" "ts s = ta s" "NL \<notin> set (kb_line s)" "console_inv s"
    and "map key_char ks = map Some cs" "NL \<notin> set cs" "length (kb_line s) + length cs < 128"
  shows "\<exists>s1. each keyboard_handler (ks @ [0x1C]) s = Some s1
    \<and> wait_while typing (map keyboard_handler (ks @ [0x1C])) s = Some (False, s1)
    \<and> kb_inv s1 \<and> kb_line s1 = kb_line s @ cs @ [NL] \<and> plain_keys s1 \<and> ts s1 = ts s \<and> console_inv s1 \<and> kb_frame s s1"
  using assms
proof (induction ks arbitrary: s cs)
  case Nil
  have nl: "key_char 0x1C = Some NL" by code_simp
  have "accepts (kb_line s) NL" using Nil.prems by (auto simp: accepts_def)
  from key_press [OF Nil.prems(1,2) nl this] obtain t where
    t: "keyboard_handler 0x1C s = Some t" "kb_inv t" "plain_keys t" "kb_line t = kb_line s @ [NL]" "ts t = ts s" "ta t = ta s" by blast
  have "console_inv t" "kb_frame s t"
    using keyboard_handler_step [OF Nil.prems(5), of "0x1C"] t(1) Nil.prems(5) by (auto simp: console_step_def)
  moreover have "typing s" "\<not> typing t" using Nil.prems t by (simp_all add: typing_iff)
  ultimately show ?case using t Nil.prems by simp
next
  case (Cons k ks)
  then obtain c cs' where cs: "cs = c # cs'" "key_char k = Some c" "map key_char ks = map Some cs'" by (cases cs) auto
  have "accepts (kb_line s) c" using Cons.prems cs by (auto simp: accepts_def)
  from key_press [OF Cons.prems(1,2) cs(2) this] obtain t where
    t: "keyboard_handler k s = Some t" "kb_inv t" "plain_keys t" "kb_line t = kb_line s @ [c]" "ts t = ts s" "ta t = ta s"
    by blast
  have ci: "console_inv t" "kb_frame s t"
    using keyboard_handler_step [OF Cons.prems(5), of k] t(1) Cons.prems(5) by (auto simp: console_step_def)
  have "typing s" using Cons.prems by (simp add: typing_iff)
  moreover obtain s1 where "each keyboard_handler (ks @ [0x1C]) t = Some s1"
    "wait_while typing (map keyboard_handler (ks @ [0x1C])) t = Some (False, s1)"
    "kb_inv s1" "kb_line s1 = kb_line t @ cs' @ [NL]" "plain_keys s1" "ts s1 = ts t" "console_inv s1" "kb_frame t s1"
    using Cons.IH [of t cs'] Cons.prems cs t ci by auto
  ultimately show ?case using t cs kb_frame_trans [OF ci(2)] by auto
qed

lemma shell_ready_fold_putc:
  assumes "shell_ready s"
  shows "shell_ready (fold putc cs s)"
proof -
  let ?t = "fold putc cs s"
  have "console_step s ?t" by (rule console_step_fold_putc)
  then have c: "console_inv ?t" using assms by (simp add: console_step_def shell_ready_def)
  have "kb_inv ?t" "kb_line ?t = []" using kbd_screen_cong [OF more_fold_putc, of cs s] assms by (simp_all add: shell_ready_def)
  moreover have "procs_ok ?t" using assms tables_ready_cong [of ?t s] by (simp add: shell_ready_def procs_ok_def kbd_fold_putc)
  ultimately show ?thesis using assms c
    by (simp add: shell_ready_def kbd_fold_putc plain_fold_putc in_ok_def fdt_of_def)
qed

lemma sti_on: "iflag s \<Longrightarrow> sti s = s"
  by (simp add: sti_def)

lemma iflag_fold_putc: "cs \<noteq> [] \<Longrightarrow> iflag (fold putc cs s)"
proof (induction cs rule: rev_induct)
  case (snoc c cs)
  then show ?case by simp
qed simp

text \<open>The state after a line has been read, and the entry of standard input moved.\<close>

lemma shell_ready_read:
  assumes "shell_ready s" "kb_frame s s1" "console_inv s1" "plain_keys s1" "ts s1 = ts s"
    and s': "s' = set_fd (cur_pid s) 0 ((fdt_of (cur_pid s) s ! 0)\<lparr>file_pos := q\<rparr>)
      (sti ((cli s1)\<lparr>keyboard_buf := replicate 128 0, key_idx := 0\<rparr>))"
  shows "shell_ready s'" "display s' = display s1" "pid_array s' = pid_array s" "cur_pid s' = cur_pid s" "fs_img s' = fs_img s"
    "read_index s' = read_index s" "ts s' = ts s" "ta s' = ta s" "0 < j \<Longrightarrow> fdt_of (cur_pid s) s' ! j = fdt_of (cur_pid s) s ! j"
    "parent_pid (pcbs s' k) = parent_pid (pcbs s k) \<and> pcb_ebp (pcbs s' k) = pcb_ebp (pcbs s k)"
proof -
  let ?b = "sti ((cli s1)\<lparr>keyboard_buf := replicate 128 0, key_idx := 0\<rparr>)"
  let ?e = "(fdt_of (cur_pid s) s ! 0)\<lparr>file_pos := q\<rparr>"
  note f = kb_frame_proc [OF assms(2)]
  have b: "cur_pid ?b = cur_pid s" "pid_array ?b = pid_array s" "pcbs ?b = pcbs s" "optab ?b = optab s" "fs_img ?b = fs_img s"
    "read_index ?b = read_index s" "ta ?b = ta s" "ts ?b = ts s" "process_rtc ?b = process_rtc s" "plain_keys ?b" "kb_inv ?b" "kb_line ?b = []"
    using f assms(4,5) by (simp_all add: cli_def sti_def plain_keys_def kb_inv_def line_ok_clear kb_line_def)
  have "console_inv (cli s1)" using assms(3) console_stepD [OF console_step_machine(1)] by blast
  then have "console_inv ((cli s1)\<lparr>keyboard_buf := replicate 128 0, key_idx := 0\<rparr>)"
    using console_step_kb_buf(1) [of "replicate 128 0" 0 "cli s1"] console_stepD by fastforce
  then have ci: "console_inv ?b" using console_stepD [OF console_step_machine(2)] by blast
  have m: "set_fd p i e t = t\<lparr>pcbs := (pcbs t)(p := (pcbs t p)\<lparr>file_descriptor_table := (fdt_of p t)[i := e]\<rparr>)\<rparr>"
    for p i e and t :: "'a proc_scheme" by (simp add: set_fd_def upd_pcb_def fdt_of_def)
  show "display s' = display s1" "pid_array s' = pid_array s" "cur_pid s' = cur_pid s" "fs_img s' = fs_img s"
    "read_index s' = read_index s" "ts s' = ts s" "ta s' = ta s"
    using b unfolding s' m by (simp_all add: display_def cli_def sti_def)
  show "fdt_of (cur_pid s) s' ! j = fdt_of (cur_pid s) s ! j" if "0 < j" using b that unfolding s' m by (simp add: fdt_of_def)
  show "parent_pid (pcbs s' k) = parent_pid (pcbs s k) \<and> pcb_ebp (pcbs s' k) = pcb_ebp (pcbs s k)" using b unfolding s' m by simp
  have sr: "procs_ok s" "0 \<le> cur_pid s" "cur_pid s < 6" "in_ok s" "out_ok s" "pid_array s ! nat (cur_pid s) \<noteq> 0" "fs_wf (fs_img s)" "ts s = ta s"
    "read_index s = 0" using assms(1) by (simp_all add: shell_ready_def)
  have e: "file_op_table_ptr ?e = Stdin_opt" "fd_flags ?e = 1" using sr(4) by (simp_all add: in_ok_def)
  have "pcb_ok ((pcbs s (cur_pid s))\<lparr>file_descriptor_table := (fdt_of (cur_pid s) s)[0 := ?e]\<rparr>)"
    using pcb_ok_set_fd [OF procs_okD(1) [OF sr(1-3)], of ?e 0] e by (simp add: fdt_of_def)
  then have "procs_ok s'"
    using sr(1) tables_ready_cong [of s' s] procs_okD(1) [OF sr(1)] b unfolding s' m
    by (intro procs_okI) (auto simp: procs_ok_def fdt_of_def)
  moreover have "out_ok ?b" using sr(5) b tables_ready_cong [of ?b s] by (simp add: out_ok_def cur_ok_def fdt_of_def)
  then have "out_ok s'" unfolding s' using out_ok_set_fd [of ?b 0 ?e] e b(1) by simp
  moreover have "in_ok s'" using b e procs_okD(2) [OF sr(1-3)] unfolding s' m by (simp add: in_ok_def fdt_of_def)
  moreover have "console_inv s'" "kb_inv s'" "kb_line s' = []" "plain_keys s'"
    using ci b(10-12) unfolding s' m
    by (simp_all add: console_inv_def screen_inv_def kb_safe_def video_ok_def out_page_def kb_inv_def kb_line_def plain_keys_def)
  moreover have "pid_array s' = pid_array s" "cur_pid s' = cur_pid s" "fs_img s' = fs_img s" "ts s' = ts s" "ta s' = ta s"
    "read_index s' = read_index s" using b unfolding s' m by simp_all
  ultimately show "shell_ready s'" using sr unfolding shell_ready_def by simp
qed

lemma kernel_read_line:
  assumes "shell_ready s" "iflag s" "map key_char ks = map Some cs" "NL \<notin> set cs" "length cs < 128" "length cs \<le> nb" "length cs < length buf"
  shows "\<exists>s1 s'. each keyboard_handler (ks @ [0x1C]) s = Some s1
    \<and> kernel_read 0 buf (int nb) (s, map keyboard_handler (ks @ [0x1C]) # bt) =
        Some (cs @ NL # drop (Suc (length cs)) buf, int (length cs) + 1, (s', bt))
    \<and> shell_ready s' \<and> display s' = display s1 \<and> pid_array s' = pid_array s \<and> cur_pid s' = cur_pid s \<and> fs_img s' = fs_img s
    \<and> read_index s' = read_index s \<and> ts s' = ts s \<and> ta s' = ta s
    \<and> (\<forall>j. 0 < j \<longrightarrow> fdt_of (cur_pid s) s' ! j = fdt_of (cur_pid s) s ! j)
    \<and> (\<forall>k. parent_pid (pcbs s' k) = parent_pid (pcbs s k) \<and> pcb_ebp (pcbs s' k) = pcb_ebp (pcbs s k))"
proof -
  have sr: "kb_inv s" "plain_keys s" "ts s = ta s" "kb_line s = []" "console_inv s" "procs_ok s" "0 \<le> cur_pid s" "cur_pid s < 6" "in_ok s"
    using assms(1) by (simp_all add: shell_ready_def)
  obtain s1 where s1: "each keyboard_handler (ks @ [0x1C]) s = Some s1"
    "wait_while typing (map keyboard_handler (ks @ [0x1C])) s = Some (False, s1)"
    "kb_inv s1" "kb_line s1 = cs @ [NL]" "plain_keys s1" "ts s1 = ts s" "console_inv s1" "kb_frame s s1"
    using type_line [OF sr(1-3) _ sr(5) assms(3,4)] sr(4) assms(5) by auto
  note f = kb_frame_proc [OF s1(8)]
  define b where "b = sti ((cli s1)\<lparr>keyboard_buf := replicate 128 0, key_idx := 0\<rparr>)"
  let ?e = "fdt_of (cur_pid s) s ! 0"
  let ?out = "cs @ NL # drop (Suc (length cs)) buf"
  define s' where "s' = set_fd (cur_pid s) 0 (?e\<lparr>file_pos := file_pos ?e + word_of_int (int (length cs) + 1)\<rparr>) b"
  note r = shell_ready_read [OF assms(1) s1(8,7,5,6) s'_def [unfolded b_def]]
  have kb: "length (keyboard_buf s1) = 128" "keyboard_buf s1 = cs @ NL # replicate (128 - key_idx s1) 0"
    using kb_line_buf [OF s1(3)] s1(3,4) by (simp_all add: kb_inv_def line_ok_def)
  have c: "copy_line (keyboard_buf (cli s1)) nb = Some (cs @ [NL])"
    using copy_line_eq [OF assms(4), of _ nb] kb(2) assms(6) by (simp add: cli_def)
  have cl: "clear_keyboard_buf_caller (cli s1) = Some (0, (cli s1)\<lparr>keyboard_buf := replicate 128 0, key_idx := 0\<rparr>)"
    by (rule kb_clear_eq) (use kb(1) in \<open>simp add: cli_def\<close>)
  have tr: "terminal_read (Some buf) (int nb) (map keyboard_handler (ks @ [0x1C])) [] s = Some (?out, Returned (int (length cs) + 1) b)"
    using s1(2) c cl assms(7) by (simp add: terminal_read_def sti_on [OF assms(2)] b_def Let_def)
  have tb: "terminal_read (Some buf) (int nb) [] [] s = Some (buf, Blocked s)"
    using sr(4) typing_iff [OF sr(1)] by (simp add: terminal_read_def sti_on [OF assms(2)])
  have c0: "rd_int (file_descriptor_table (pcbs s (cur_pid s))) 0 = Some ?e" "get_pcb (cur_pid s) s = Some (pcbs s (cur_pid s))"
    "fd_flags ?e \<noteq> 0" "optab s (file_op_table_ptr ?e) = Some \<lparr>op_open = Terminal_open, op_close = Terminal_close, op_read = Terminal_read, op_write = Invalid_write\<rparr>"
    using procs_okD [OF sr(6-8)] sr(6,9) tables_readyD(4) [of s] by (simp_all add: rd_int_def rd_def fdt_of_def in_ok_def procs_ok_def)
  have fb: "fdt_of (cur_pid s) b = fdt_of (cur_pid s) s" using f by (simp add: b_def cli_def sti_def fdt_of_def)
  have "sys_read 0 (Some buf) (int nb) [] [] s = Some (buf, Blocked s)"
    using c0 tb by (simp add: sys_read_def Let_def call_read_def)
  moreover have "sys_read 0 (Some buf) (int nb) (map keyboard_handler (ks @ [0x1C])) [] s = Some (?out, Returned (int (length cs) + 1) s')"
    unfolding sys_read_def Let_def using c0 by (simp add: call_read_def tr fb s'_def del: map_append)
  ultimately have "kernel_read 0 buf (int nb) (s, map keyboard_handler (ks @ [0x1C]) # bt) = Some (?out, int (length cs) + 1, (s', bt))"
    by (simp add: kernel_read_def)
  then show ?thesis using s1(1) r by blast
qed

subsection \<open>The shell\<close>

lemma back_in_ready:
  assumes "shell_ready s" "back_in i s s'" "int i \<noteq> cur_pid s" "i < 6" "display s' = display (fold putc out (s\<lparr>pmem := m\<rparr>))"
  shows "shell_ready s'"
proof -
  have sr: "console_inv s" "plain_keys s" "ts s = ta s" "procs_ok s" "0 \<le> cur_pid s" "cur_pid s < 6" "pid_array s ! nat (cur_pid s) \<noteq> 0"
    "fs_wf (fs_img s)" "in_ok s" "out_ok s" using assms(1) by (simp_all add: shell_ready_def)
  have b0: "read_index s' = 0" using assms(2) by (simp add: back_in_def)
  have b: "cur_pid s' = cur_pid s" "pid_array s' = pid_array s" "fs_img s' = fs_img s" "optab s' = optab s" "ts s' = ts s" "ta s' = ta s"
    "video_mem s' = video_mem s" "term_init_done s' = term_init_done s" "plain_keys s' = plain_keys s"
    "length (process_rtc s') = length (process_rtc s)"
    "pte_addr_31_12 (pt_user s' VID_MEM_INDEX) = pte_addr_31_12 (pt_user s VID_MEM_INDEX)"
    "\<forall>q. q \<noteq> int i \<longrightarrow> pcbs s' q = pcbs s q" "pcb_ok (pcbs s' (int i))" "terminal_buf (terminals s' (ta s)) = replicate 128 0"
    "\<forall>k. buf_idx (terminals s' k) = buf_idx (terminals s k)" "\<forall>k. k \<noteq> ta s \<longrightarrow> terminals s' k = terminals s k"
    "keyboard_buf s' = replicate 128 0" "key_idx s' = 0"
    using assms(2) sr(3) by (simp_all add: back_in_def)
  let ?w = "fold putc out (s\<lparr>pmem := m\<rparr>)"
  have "screen_inv (s\<lparr>pmem := m\<rparr>)" using sr(1) by (simp add: console_inv_def screen_inv_def)
  then have w: "screen_inv ?w" using console_step_fold_putc [of "s\<lparr>pmem := m\<rparr>" out] sr(1)
    by (auto simp: console_step_def console_inv_def kb_safe_def video_ok_def out_page_def)
  have ta: "ta s < 3" "ts s < 3" using sr(1) by (simp_all add: console_inv_def screen_inv_def)
  have "cursor_x (terminals s' (ta s)) = cursor_x (terminals ?w (ta s))" "cursor_y (terminals s' (ta s)) = cursor_y (terminals ?w (ta s))"
    using assms(5) b(6) by (simp_all add: display_def kbd_fold_putc)
  then have "cursor_ok (terminals s' (ta s))" using screen_invD [OF w ta(1)] by (simp add: cursor_ok_def)
  then have "cursor_ok (terminals s' k)" if "k < 3" for k
    using that b(16) sr(1) screen_invD [of s k] by (cases "k = ta s") (simp_all add: console_inv_def)
  then have "screen_inv s'" using ta b(5,6) by (intro screen_invI) simp_all
  moreover have "length (terminal_buf (terminals s' k)) = 128 \<and> buf_idx (terminals s' k) \<le> 128" if "k < 3" for k
    using that sr(1) b(14-16) kb_safeD(2) [of s k] by (cases "k = ta s") (auto simp: console_inv_def kb_safe_def list_all_iff)
  then have "kb_safe s'" using b(17,18) by (simp add: kb_safe_def list_all_iff)
  moreover have "term_init_done s' \<longrightarrow> video_ok s'" using sr(1) b by (simp add: console_inv_def video_ok_def out_page_def)
  ultimately have "console_inv s'" by (simp add: console_inv_def)
  moreover have "kb_inv s'" "kb_line s' = []" using b by (simp_all add: kb_inv_def line_ok_clear kb_line_def)
  moreover have "procs_ok s'"
  proof (rule procs_okI)
    show "tables_ready s'" "length (pid_array s') = 6" "length (process_rtc s') = 6"
      using sr(4) b(2,10) tables_ready_cong [OF b(4)] by (simp_all add: procs_ok_def)
    show "pcb_ok (pcbs s' pid)" if "0 \<le> pid" "pid < 6" for pid
      using that b(12,13) procs_okD(1) [OF sr(4)] by (cases "pid = int i") simp_all
  qed
  moreover have "pcbs s' (cur_pid s) = pcbs s (cur_pid s)" using b(12) assms(3) by simp
  ultimately show ?thesis using sr b b0 tables_ready_cong [OF b(4)]
    by (simp add: shell_ready_def in_ok_def out_ok_def cur_ok_def fdt_of_def)
qed

lemma shell_ready_cli: "shell_ready s \<Longrightarrow> shell_ready (cli s)"
proof -
  assume s: "shell_ready s"
  have "console_inv (cli s)" using console_stepD [OF console_step_machine(1)] s by (auto simp: shell_ready_def)
  then show ?thesis using s tables_ready_cong [of "cli s" s]
    by (simp add: shell_ready_def in_ok_def out_ok_def cur_ok_def fdt_of_def procs_ok_def)
      (simp add: cli_def kb_inv_def kb_line_def plain_keys_def)
qed

text \<open>One round of the shell, up to the call of execute.\<close>

lemma shell_round:
  assumes "shell_ready s" "map key_char ks = map Some cs" "cs \<noteq> []" "0 \<notin> set cs" "NL \<notin> set cs" "length cs < 128" "length buf = 1024"
  shows "\<exists>s1 s2. each keyboard_handler (ks @ [0x1C]) (fold putc (bytes ''391OS> '') s) = Some s1
    \<and> shell_loop (kernel_os prog) buf (s, map keyboard_handler (ks @ [0x1C]) # bt) =
        (let b = cs @ 0 # drop (Suc (length cs)) buf
         in if cs = bytes ''exit'' then Some (0, (s2, bt))
            else do { (rval, st) \<leftarrow> kernel_execute prog b (s2, bt); st \<leftarrow> shell_report (kernel_os prog) rval st; shell_loop (kernel_os prog) b st })
    \<and> shell_ready s2 \<and> display s2 = display s1 \<and> pid_array s2 = pid_array s \<and> cur_pid s2 = cur_pid s \<and> fs_img s2 = fs_img s"
proof -
  let ?p = "fold putc (bytes ''391OS> '') s"
  let ?b = "cs @ 0 # drop (Suc (length cs)) buf"
  have o: "out_ok s" using assms(1) by (simp add: shell_ready_def)
  have p: "ece391_fdputs (kernel_os prog) 1 (msg ''391OS> '') (s, bt') = Some (?p, bt')" for bt'
    using fdputs_kernel [OF o, of "msg ''391OS> ''"] by (simp add: bytes_def cstr_def)
  have i: "iflag ?p" by (rule iflag_fold_putc) (simp add: bytes_def)
  obtain s1 s2 where r: "each keyboard_handler (ks @ [0x1C]) ?p = Some s1"
    "kernel_read 0 buf 1023 (?p, map keyboard_handler (ks @ [0x1C]) # bt) =
        Some (cs @ NL # drop (Suc (length cs)) buf, int (length cs) + 1, (s2, bt))"
    "shell_ready s2" "display s2 = display s1" "pid_array s2 = pid_array ?p" "cur_pid s2 = cur_pid ?p" "fs_img s2 = fs_img ?p"
    using kernel_read_line [OF shell_ready_fold_putc [OF assms(1)] i assms(2,5,6), of 1023 buf bt] assms(6,7) by auto
  obtain c cs' where c: "cs = c # cs'" "c \<noteq> 0" using assms(3,4) by (cases cs) auto
  obtain d where d: "ece391_strcmp ?b (msg ''exit'') = Some d" "d = 0 \<longleftrightarrow> cs = bytes ''exit''"
  proof -
    have "cstr ?b = cs" using assms(4) by simp
    moreover have "cstr (msg ''exit'') = bytes ''exit''" by (simp add: bytes_def cstr_def)
    ultimately show ?thesis using ece391_strcmp_0_iff [of ?b "msg ''exit''"] that by auto
  qed
  have w: "wr_int (cs @ NL # drop (Suc (length cs)) buf) (int (length cs)) 0 = Some ?b" using assms(6,7) by (simp add: list_update_append)
  have n: "rd_int (cs @ NL # drop (Suc (length cs)) buf) (int (length cs)) = Some NL" using assms(6,7) by (simp add: rd_int_def)
  have "shell_loop (kernel_os prog) buf (s, map keyboard_handler (ks @ [0x1C]) # bt) =
        (let b = ?b
         in if cs = bytes ''exit'' then Some (0, (s2, bt))
            else do { (rval, st) \<leftarrow> kernel_execute prog b (s2, bt); st \<leftarrow> shell_report (kernel_os prog) rval st; shell_loop (kernel_os prog) b st })"
    by (subst shell_loop.simps) (use p r(2) w n d c in \<open>simp add: kernel_os_def Let_def del: map_append\<close>)
  then show ?thesis using r by (intro exI [of _ s1] exI [of _ s2]) simp
qed

lemma shell_command:
  assumes "shell_ready s" "map key_char ks = map Some cs" "length buf = 1024" "answers prog (fs_img s) name args cs out"
    and "least_free (pid_array s) i" "3 \<le> i"
  shows "\<exists>s1 s' buf'. each keyboard_handler (ks @ [0x1C]) (fold putc (bytes ''391OS> '') s) = Some s1
    \<and> shell_loop (kernel_os prog) buf (s, map keyboard_handler (ks @ [0x1C]) # bt) = shell_loop (kernel_os prog) buf' (s', bt)
    \<and> length buf' = 1024 \<and> shell_ready s' \<and> pid_array s' = pid_array s \<and> cur_pid s' = cur_pid s \<and> fs_img s' = fs_img s
    \<and> display s' = display (fold putc out (s1\<lparr>pmem := loaded (fs_img s) i name (pmem s1)\<rparr>))"
proof -
  have a: "cs \<noteq> []" "0 \<notin> set cs" "NL \<notin> set cs" "length cs < 128" "cs \<noteq> bytes ''exit''" "0 \<notin> set args"
    "\<forall>r. parse_command (cs @ 0 # r) = Some (name, args)" using assms(4) by (simp_all add: answers_def)
  let ?b = "cs @ 0 # drop (Suc (length cs)) buf"
  have lb: "length ?b = 1024" using a(4) assms(3) by simp
  obtain s1 s2 where r: "each keyboard_handler (ks @ [0x1C]) (fold putc (bytes ''391OS> '') s) = Some s1"
    "shell_loop (kernel_os prog) buf (s, map keyboard_handler (ks @ [0x1C]) # bt) =
        do { (rval, st) \<leftarrow> kernel_execute prog ?b (s2, bt); st \<leftarrow> shell_report (kernel_os prog) rval st; shell_loop (kernel_os prog) ?b st }"
    "shell_ready s2" "display s2 = display s1" "pid_array s2 = pid_array s" "cur_pid s2 = cur_pid s" "fs_img s2 = fs_img s"
    using shell_round [OF assms(1,2) a(1-4) assms(3), of prog bt] a(5) unfolding Let_def by auto
  have sr: "procs_ok s2" "kb_safe s2" "ta s2 < 3" "0 \<le> cur_pid s2" "cur_pid s2 < 6" "pid_array s2 ! nat (cur_pid s2) \<noteq> 0" "fs_wf (fs_img s2)"
    "out_ok s2" "read_index s2 = 0" using r(3) by (simp_all add: shell_ready_def console_inv_def screen_inv_def)
  have p: "parse_command ?b = Some (name, args)" using a(7) by blast
  have ds: "display (s2\<lparr>pmem := m (pmem s2)\<rparr>) = display (s1\<lparr>pmem := m (pmem s1)\<rparr>)" for m
    using r(4) by (auto simp: display_def)
  show ?thesis
  proof (cases "exec_file (fs_img s) name")
    case None
    have "sys_execute ?b s2 = Some (Ret (-1), cli s2)" using sys_execute_eq(1) [OF sr(7,1) p] None r(7) by simp
    moreover have "out_ok (cli s2)" using shell_ready_cli [OF r(3)] by (simp add: shell_ready_def)
    note fdputs_kernel [OF this, of "msgln ''no such command''" prog bt]
    moreover have "cstr (msgln ''no such command'') = out" "0 \<in> set (msgln ''no such command'')"
      using assms(4) None by (simp_all add: answers_def bytes_def cstr_def)
    ultimately have "shell_loop (kernel_os prog) buf (s, map keyboard_handler (ks @ [0x1C]) # bt)
        = shell_loop (kernel_os prog) ?b (fold putc out (cli s2), bt)"
      using r(2) by (simp add: kernel_execute_def shell_report_def)
    moreover have "shell_ready (fold putc out (cli s2))" by (rule shell_ready_fold_putc [OF shell_ready_cli [OF r(3)]])
    moreover have "display (fold putc out (cli s2)) = display (fold putc out (s1\<lparr>pmem := loaded (fs_img s) i name (pmem s1)\<rparr>))"
      by (rule display_fold_putc) (use r(4) None in \<open>auto simp: display_def loaded_def cli_def\<close>)
    ultimately show ?thesis using r(1,5-7) lb
      by (intro exI [of _ s1] exI [of _ "fold putc out (cli s2)"] exI [of _ ?b]) (simp add: cli_def)
  next
    case (Some ino)
    have pr: "file_len (fs_img s2) (unat ino) \<le> 0x3B8000" "prints (prog name) (fs_img s2) args out 0"
      using assms(4) Some r(7) by (simp_all add: answers_def)
    obtain s' where s': "kernel_execute prog ?b (s2, bt) = Some (0, (s', bt))" "back_in i s2 s'"
      "display s' = display (fold putc out (s2\<lparr>pmem := loaded (fs_img s) i name (pmem s2)\<rparr>))"
      using execute_prints [where prog = prog, OF sr(1-7) p a(6) _ pr(1) _ assms(6) sr(9) pr(2)] Some r(5,7) assms(5) by (auto simp: loaded_def)
    have "nat (cur_pid s2) \<noteq> i" using assms(5) sr(6) r(5) by (auto simp: least_free_def)
    then have i: "i < 6" "int i \<noteq> cur_pid s2" using assms(5) by (auto simp: least_free_def)
    have "display s' = display (fold putc out (s1\<lparr>pmem := loaded (fs_img s) i name (pmem s1)\<rparr>))"
      unfolding s'(3) by (rule display_fold_putc [OF ds])
    moreover have "shell_ready s'" by (rule back_in_ready [OF r(3) s'(2) i(2,1) s'(3)])
    ultimately show ?thesis using r(1,2,5-7) lb s'(1,2)
      by (intro exI [of _ s1] exI [of _ s'] exI [of _ ?b]) (simp add: shell_report_def back_in_def)
  qed
qed

lemma shell_rounds:
  assumes "shell_ready s" "length buf = 1024" "least_free (pid_array s) i" "3 \<le> i" "map key_char quit = map Some (bytes ''exit'')"
    and "\<forall>(ks, cs) \<in> set lines. map key_char ks = map Some cs \<and> (\<exists>name args out. answers prog (fs_img s) name args cs out)"
  shows "\<exists>s'. shell_loop (kernel_os prog) buf (s, map (\<lambda>(ks, cs). map keyboard_handler (ks @ [0x1C])) lines
      @ map keyboard_handler (quit @ [0x1C]) # bt) = Some (0, (s', bt)) \<and> shell_ready s' \<and> pid_array s' = pid_array s"
  using assms
proof (induction lines arbitrary: s buf)
  case Nil
  have e: "bytes ''exit'' \<noteq> []" "0 \<notin> set (bytes ''exit'')" "NL \<notin> set (bytes ''exit'')" "length (bytes ''exit'') < 128"
    by (simp_all add: bytes_def)
  show ?case using shell_round [OF Nil.prems(1,5) e Nil.prems(2), of prog bt] by (auto simp: Let_def)
next
  case (Cons l lines)
  obtain ks cs where l: "l = (ks, cs)" by (cases l)
  then obtain name args out where a: "map key_char ks = map Some cs" "answers prog (fs_img s) name args cs out"
    using Cons.prems(6) by auto
  let ?rest = "map (\<lambda>(ks, cs). map keyboard_handler (ks @ [0x1C])) lines @ map keyboard_handler (quit @ [0x1C]) # bt"
  obtain s' buf' where s': "shell_loop (kernel_os prog) buf (s, map keyboard_handler (ks @ [0x1C]) # ?rest) = shell_loop (kernel_os prog) buf' (s', ?rest)"
    "length buf' = 1024" "shell_ready s'" "pid_array s' = pid_array s" "fs_img s' = fs_img s"
    using shell_command [OF Cons.prems(1) a(1) Cons.prems(2) a(2) Cons.prems(3,4), of ?rest] by blast
  obtain s'' where "shell_loop (kernel_os prog) buf' (s', ?rest) = Some (0, (s'', bt))" "shell_ready s''" "pid_array s'' = pid_array s'"
  proof -
    have "\<forall>(ks, cs) \<in> set lines. map key_char ks = map Some cs \<and> (\<exists>name args out. answers prog (fs_img s') name args cs out)"
      using Cons.prems(6) s'(5) by simp
    moreover have "least_free (pid_array s') i" using Cons.prems(3) s'(4) by simp
    ultimately show ?thesis using Cons.IH [OF s'(3,2) _ Cons.prems(4,5)] that by blast
  qed
  then show ?case using s'(1,4) l by auto
qed



subsection \<open>Instances\<close>

lemma user_state_shell: "shell_ready user_state" "least_free (pid_array user_state) 3"
proof -
  have "console_inv user_state" "kb_inv user_state" "kb_line user_state = []" "plain_keys user_state" "ts user_state = ta user_state"
    "cur_pid user_state = 0" "pid_array user_state = [1, 1, 1, 0, 0, 0]"
    by (simp_all add: user_state_def boot_proc_def process_init_def upd_term_def Let_def kbd.extend_def blank_defs console_inv_def
        screen_inv_def kb_safe_def cursor_ok_def kb_inv_def kb_line_def line_ok_def plain_keys_def list_all_iff)
  moreover have "in_ok user_state" by (simp add: in_ok_def user_state_def fdt_of_def std_entry_def)
  ultimately show "shell_ready user_state" "least_free (pid_array user_state) 3"
    using user_state_ok user_img_wf by (simp_all add: shell_ready_def least_free_def upt_rec)
qed

text \<open>The command \<open>cat cat\<close> and an unknown one.\<close>

lemma user_answers:
  "answers (\<lambda>_. cat_main (kernel_os (\<lambda>_ _. None)) (replicate 1024 0) :: unit session \<Rightarrow> _) user_img [99, 97, 116] [99, 97, 116] [99, 97, 116, 32, 99, 97, 116]
    (file_content user_img 0)"
  "answers p user_img [108, 115] [] [108, 115] (bytes ''no such command'' @ [NL])"
proof -
  have e: "exec_file user_img [99, 97, 116] = Some 0" "exec_file user_img [108, 115] = None"
    using read_dentry_by_name_eq [OF user_img_wf, of "[99, 97, 116, 0]"] read_dentry_by_name_eq [OF user_img_wf, of "[108, 115, 0]"] user_img_entries
    by (simp_all add: exec_file_def lookup_entry_def user_img_words upt_rec cstr_def user_img_content)
  have "prints (cat_main (kernel_os (\<lambda>_ _. None)) (replicate 1024 0) :: unit session \<Rightarrow> _) user_img [99, 97, 116] (file_content user_img 0) 0"
    using cat_prints [OF user_img_wf user_img_lookup(3), of "replicate 1024 0"] by (simp add: user_img_words)
  moreover have "parse_command ([99, 97, 116, 32, 99, 97, 116] @ 0 # r) = Some ([99, 97, 116], [99, 97, 116])" for r
    using parse_with_args [of "[99, 97, 116]" "[99, 97, 116]" 0 r] by (simp add: name_char_def)
  moreover have "parse_command ([108, 115] @ 0 # r) = Some ([108, 115], [])" for r
    using parse_no_args [of "[108, 115]" 0 r] by (simp add: name_char_def)
  ultimately show "answers (\<lambda>_. cat_main (kernel_os (\<lambda>_ _. None)) (replicate 1024 0) :: unit session \<Rightarrow> _) user_img [99, 97, 116] [99, 97, 116] [99, 97, 116, 32, 99, 97, 116]
    (file_content user_img 0)"
    "answers p user_img [108, 115] [] [108, 115] (bytes ''no such command'' @ [NL])"
    using e user_img_content(1) by (simp_all add: answers_def) (simp_all add: bytes_def)
qed

lemma command_keys:
  "map key_char [0x2E, 0x1E, 0x14, 0x39, 0x2E, 0x1E, 0x14] = map Some [99, 97, 116, 32, 99, 97, 116]"
  "map key_char [0x12, 0x2D, 0x17, 0x14] = map Some (bytes ''exit'')" "map key_char [0x26, 0x1F] = map Some [108, 115]"
  by code_simp+



end
