(* ===== verification/User_Syserr.thy ===== *)
theory User_Syserr
  imports User_Session
begin

text \<open>
  The test program of the system calls, \<^verbatim>\<open>syscalls/ece391syserr.c\<close>: calls with bad descriptors, names, pointers and
  call numbers, each of which the kernel has to refuse.  Every test prints its verdict and returns 0 or 2.  The local
  buffers that are passed uninitialised are arguments.
\<close>

abbreviation NEG_FD :: int where "NEG_FD \<equiv> -1073741823"
abbreviation BIG_FD :: int where "BIG_FD \<equiv> 1073741823"
abbreviation BIG_NUM :: int where "BIG_NUM \<equiv> 1073741823"
abbreviation NEG_NUM :: int where "NEG_NUM \<equiv> -1073741823"

definition call_sys :: "'s os \<Rightarrow> int \<Rightarrow> 's \<Rightarrow> (int \<times> 's) option" where
  "call_sys os num st = os_call os num st"

text \<open>The two patterns all tests share: a call that was not refused is reported, and the verdict at the end.\<close>

definition complain :: "'s os \<Rightarrow> bool \<Rightarrow> string \<Rightarrow> int \<Rightarrow> 's \<Rightarrow> (int \<times> 's) option" where
  "complain os bad m fail st = (if bad then do { st \<leftarrow> ece391_fdputs os 1 (msgln m) st; Some (2, st) } else Some (fail, st))"

definition verdict :: "'s os \<Rightarrow> string \<Rightarrow> int \<Rightarrow> 's \<Rightarrow> (int \<times> 's) option" where
  "verdict os name fail st = do {
     st \<leftarrow> ece391_fdputs os 1 (msgln (name @ (if fail \<noteq> 0 then '': FAIL'' else '': PASS''))) st;
     Some (fail, st) }"

definition err_fd :: "int \<Rightarrow> string \<Rightarrow> 's os \<Rightarrow> buf \<Rightarrow> 's \<Rightarrow> (int \<times> 's) option" where
  "err_fd fd name os buf st = do {
     (buf, r, st) \<leftarrow> os_read os fd buf 31 st;
     (fail, st) \<leftarrow> complain os (r \<noteq> -1) ''read fail'' 0 st;
     (r, st) \<leftarrow> os_write os fd buf 31 st;
     (fail, st) \<leftarrow> complain os (r \<noteq> -1) ''write fail'' fail st;
     (r, st) \<leftarrow> os_close os fd st;
     (fail, st) \<leftarrow> complain os (r \<noteq> -1) ''close fail'' fail st;
     verdict os name fail st }"

definition err_neg_fd :: "'s os \<Rightarrow> buf \<Rightarrow> 's \<Rightarrow> (int \<times> 's) option" where
  "err_neg_fd = err_fd NEG_FD ''err_neg_fd''"

definition err_big_fd :: "'s os \<Rightarrow> buf \<Rightarrow> 's \<Rightarrow> (int \<times> 's) option" where
  "err_big_fd = err_fd BIG_FD ''err_big_fd''"

definition err_open_lots :: "'s os \<Rightarrow> 's \<Rightarrow> (int \<times> 's) option" where
  "err_open_lots os st = do {
     (cnt, st) \<leftarrow> each (\<lambda>i (cnt, st). do { (r, st) \<leftarrow> os_open os (msg ''.'') st; Some (if r = -1 then cnt + 1 else cnt, st) })
       [0..<7] (0 :: int, st);
     st \<leftarrow> each (\<lambda>i st. do { (_, st) \<leftarrow> os_close os (int i) st; Some st }) [2..<8] st;
     verdict os ''err_open_lots'' (if cnt = 1 then 0 else 2) st }"

definition err_open :: "'s os \<Rightarrow> 's \<Rightarrow> (int \<times> 's) option" where
  "err_open os st = do {
     (r, st) \<leftarrow> os_open os (msg ''helloo'') st;
     (fail, st) \<leftarrow> complain os (r \<noteq> -1) (CHR 0x27 # ''helloo'' @ CHR 0x27 # '' fail'') 0 st;
     (r, st) \<leftarrow> os_open os (msg ''shel'') st;
     (fail, st) \<leftarrow> complain os (r \<noteq> -1) (CHR 0x27 # ''shel'' @ CHR 0x27 # '' fail'') fail st;
     (r, st) \<leftarrow> os_open os (msg '''') st;
     (fail, st) \<leftarrow> complain os (r \<noteq> -1) ''empty string fail'' fail st;
     verdict os ''err_open'' fail st }"

definition err_unopened :: "'s os \<Rightarrow> buf \<Rightarrow> 's \<Rightarrow> (int \<times> 's) option" where
  "err_unopened os buf st = do {
     (fail, st) \<leftarrow> each (\<lambda>i (fail, st). do { (r, st) \<leftarrow> os_close os (int i) st;
         complain os (r \<noteq> -1) ''close unopened or invalid fd fail'' fail st }) [0..<8] (0, st);
     (buf, fail, st) \<leftarrow> each (\<lambda>i (buf, fail, st). do { (buf, r, st) \<leftarrow> os_read os (int i) buf 31 st;
         (fail, st) \<leftarrow> complain os (r \<noteq> -1) ''read from unopened fd fail'' fail st; Some (buf, fail, st) }) [2..<8] (buf, fail, st);
     (fail, st) \<leftarrow> each (\<lambda>i (fail, st). do { (r, st) \<leftarrow> os_write os (int i) buf 31 st;
         complain os (r \<noteq> -1) ''write to unopened fd fail'' fail st }) [2..<8] (fail, st);
     verdict os ''err_unopened'' fail st }"

definition err_vidmap :: "'s os \<Rightarrow> 's \<Rightarrow> (int \<times> 's) option" where
  "err_vidmap os st = do {
     (r, st) \<leftarrow> os_vidmap os 0 st;
     (fail, st) \<leftarrow> complain os (r \<noteq> -1) ''Null pointer fail'' 0 st;
     (r, st) \<leftarrow> os_vidmap os 0x400000 st;
     (fail, st) \<leftarrow> complain os (r \<noteq> -1) ''Kernel pointer fail fail'' fail st;
     verdict os ''err_vidmap'' fail st }"

definition err_stdin_out :: "'s os \<Rightarrow> buf \<Rightarrow> 's \<Rightarrow> (int \<times> 's) option" where
  "err_stdin_out os buf st = do {
     (r, st) \<leftarrow> os_write os 0 buf 31 st;
     (fail, st) \<leftarrow> complain os (r \<noteq> -1) ''write to stdin fail'' 0 st;
     (buf, r, st) \<leftarrow> os_read os 1 buf 31 st;
     (fail, st) \<leftarrow> complain os (r \<noteq> -1) ''read from stdout fail'' fail st;
     verdict os ''err_stdin_out'' fail st }"

definition err_syscall_num :: "'s os \<Rightarrow> 's \<Rightarrow> (int \<times> 's) option" where
  "err_syscall_num os st = do {
     (r, st) \<leftarrow> call_sys os BIG_NUM st;
     (fail, st) \<leftarrow> complain os (r \<noteq> -1) ''syscall 0 fail'' 0 st;
     (r, st) \<leftarrow> call_sys os NEG_NUM st;
     (fail, st) \<leftarrow> complain os (r \<noteq> -1) ''big num syscall fail'' fail st;
     (r, st) \<leftarrow> call_sys os 0 st;
     (fail, st) \<leftarrow> complain os (r \<noteq> -1) ''neg num syscall fail'' fail st;
     verdict os ''err_syscall_num'' fail st }"

text \<open>The choice \<open>0\<close>: all tests, and the sum of their results.\<close>

definition all_tests :: "'s os \<Rightarrow> buf \<Rightarrow> 's \<Rightarrow> (int \<times> 's) option" where
  "all_tests os b st = do {
     (f1, st) \<leftarrow> err_neg_fd os b st;
     (f2, st) \<leftarrow> err_big_fd os b st;
     (f3, st) \<leftarrow> err_open_lots os st;
     (f4, st) \<leftarrow> err_open os st;
     (f5, st) \<leftarrow> err_unopened os b st;
     (f6, st) \<leftarrow> err_vidmap os st;
     (f7, st) \<leftarrow> err_stdin_out os b st;
     (f8, st) \<leftarrow> err_syscall_num os st;
     let fail = f1 + f2 + f3 + f4 + f5 + f6 + f7 + f8;
     st \<leftarrow> ece391_fdputs os 1 (10 # msgln (if fail \<noteq> 0 then ''Overall Tests: FAIL'' else ''Overall Tests: PASS'')) st;
     Some (fail, st) }"

definition syserr_main :: "'s os \<Rightarrow> buf \<Rightarrow> buf \<Rightarrow> 's \<Rightarrow> (int \<times> 's) option" where
  "syserr_main os buf b st = do {
     st \<leftarrow> ece391_fdputs os 1 (msg ''Choose from tests 1-8. 0 to run all: '') st;
     (buf, cnt, st) \<leftarrow> os_read os 0 buf 127 st;
     if cnt = -1 then do { st \<leftarrow> ece391_fdputs os 1 (msgln (''Can'' @ CHR 0x27 # ''t read test #'')) st; Some (2, st) }
     else do {
       c \<leftarrow> rd buf 0;
       let select = uint c - 0x30;
       if select = 0 then all_tests os b st
       else if select = 1 then err_neg_fd os b st
       else if select = 2 then err_big_fd os b st
       else if select = 3 then err_open_lots os st
       else if select = 4 then err_open os st
       else if select = 5 then err_unopened os b st
       else if select = 6 then err_vidmap os st
       else if select = 7 then err_stdin_out os b st
       else if select = 8 then err_syscall_num os st
       else do { st \<leftarrow> ece391_fdputs os 1 (msg ''Invalid test number. Choose from tests 1-8 or 0'') st; Some (0, st) } } }"

subsection \<open>The specification\<close>

text \<open>Standard input and output are in place and no other descriptor is open.\<close>

definition only_std :: "'a proc_scheme \<Rightarrow> bool" where
  "only_std s \<longleftrightarrow> out_ok s \<and> in_ok s \<and> list_all (\<lambda>j. fd_flags (fdt_of (cur_pid s) s ! j) = 0) [2..<8]"

text \<open>The image has the directory entry, and none of the names the tests ask for.\<close>

definition test_img :: "buf \<Rightarrow> bool" where
  "test_img img \<longleftrightarrow> fs_wf img \<and> (\<exists>ino. entry_type img [of_char (CHR ''.'')] = Some (1, ino))
     \<and> bytes ''helloo'' \<notin> set (dir_names img) \<and> bytes ''shel'' \<notin> set (dir_names img)"

text \<open>
  Between the opening and the closing calls of \<open>err_open_lots\<close>: exactly the descriptors from \<open>lo\<close> below \<open>hi\<close> are open,
  on the directory.
\<close>

definition dirs_open :: "nat \<Rightarrow> nat \<Rightarrow> 'a session \<Rightarrow> 'a session \<Rightarrow> bool" where
  "dirs_open lo hi st st' \<longleftrightarrow> only_files st st' \<and> out_ok (fst st') \<and> in_ok (fst st') \<and> screen.truncate (fst st') = screen.truncate (fst st)
     \<and> fs_img (fst st') = fs_img (fst st)
     \<and> list_all (\<lambda>j. let e = fdt_of (cur_pid (fst st')) (fst st') ! j
         in if lo \<le> j \<and> j < hi then file_op_table_ptr e = Dir_opt \<and> fd_flags e = 1 else fd_flags e = 0) [2..<8]"

definition pass_line :: "string \<Rightarrow> buf" where
  "pass_line name = bytes (name @ '': PASS'') @ [10]"

definition all_pass :: buf where
  "all_pass = concat (map pass_line [''err_neg_fd'', ''err_big_fd'', ''err_open_lots'', ''err_open'', ''err_unopened'', ''err_vidmap'',
     ''err_stdin_out'', ''err_syscall_num'']) @ 10 # bytes ''Overall Tests: PASS'' @ [10]"

subsection \<open>Single tests\<close>

lemma complain_no [simp]: "complain os False m fail st = Some (fail, st)"
  by (simp add: complain_def)

lemma verdict_pass:
  assumes "out_ok s" "0 \<notin> set (bytes (name @ '': PASS''))"
  shows "verdict (kernel_os p) name 0 (s, bt) = Some (0, (fold putc (pass_line name) s, bt))"
proof -
  have "cstr (bytes (name @ '': PASS'') @ 10 # 0 # []) = pass_line name"
    using cstr_append_nul [of "bytes (name @ '': PASS'') @ [10]" "[]"] assms(2) by (simp add: pass_line_def)
  then show ?thesis using fdputs_kernel [OF assms(1), of "msgln (name @ '': PASS'')" p bt] by (simp add: verdict_def)
qed

text \<open>Calls the kernel refuses without any effect.\<close>

lemma refused_fd:
  assumes "fd < 0 \<or> 8 < fd"
  shows "os_read (kernel_os p) fd b n (s, bt) = Some (b, -1, (s, bt))" "os_write (kernel_os p) fd b n (s, bt) = Some (-1, (s, bt))"
    "os_close (kernel_os p) fd (s, bt) = Some (-1, (s, bt))"
  using assms by (auto simp: kernel_os_def kernel_read_def sys_read_def sys_write_def sys_close_def store_user_def)

lemma refused_closed:
  assumes "cur_ok s" "i < 8" "fd_flags (fdt_of (cur_pid s) s ! i) = 0"
  shows "os_read (kernel_os p) (int i) b n (s, bt) = Some (b, -1, (s, bt))" "os_write (kernel_os p) (int i) b n (s, bt) = Some (-1, (s, bt))"
    "os_close (kernel_os p) (int i) (s, bt) = Some (-1, (s, bt))"
proof -
  note c = cur_okD [OF assms(1)]
  have r: "rd_int (file_descriptor_table (pcbs s (cur_pid s))) (int i) = Some (fdt_of (cur_pid s) s ! i)"
    using c(2,4) assms(2) by simp
  show "os_read (kernel_os p) (int i) b n (s, bt) = Some (b, -1, (s, bt))" "os_write (kernel_os p) (int i) b n (s, bt) = Some (-1, (s, bt))"
    "os_close (kernel_os p) (int i) (s, bt) = Some (-1, (s, bt))"
    using c(1,4) r assms(2,3) by (simp_all add: kernel_os_def kernel_read_def sys_read_def sys_write_def sys_close_def store_user_def Let_def)
qed

lemma refused_std_close: "i < 2 \<Longrightarrow> os_close (kernel_os p) (int i) (s, bt) = Some (-1, (s, bt))"
  by (simp add: kernel_os_def sys_close_def)

lemma refused_name:
  assumes "fs_wf (fs_img s)" "cstr fname = [] \<or> cstr fname \<notin> set (dir_names (fs_img s))" "0 \<in> set fname"
  shows "os_open (kernel_os p) fname (s, bt) = Some (-1, (s, bt))"
proof -
  have "read_dentry_by_name (fs_img s) fname = Some (Inl (-1))"
    using assms(2) lookup_entry_None [of "fs_img s" "cstr fname"] by (auto simp: read_dentry_by_name_eq [OF assms(1,3)])
  then show ?thesis by (simp add: kernel_os_def sys_open_def)
qed

lemma refused_pointer: "a < 0x8000000 \<Longrightarrow> os_vidmap (kernel_os p) a (s, bt) = Some (-1, (s, bt))"
  by (simp add: kernel_os_def sys_vidmap_def)

lemma refused_number: "n < 1 \<or> 10 < n \<Longrightarrow> call_sys (kernel_os p) n (s, bt) = Some (-1, (s, bt))"
  by (auto simp: kernel_os_def call_sys_def)

lemma err_fd_pass:
  assumes "out_ok s" "fd < 0 \<or> 8 < fd" "0 \<notin> set (bytes (name @ '': PASS''))"
  shows "err_fd fd name (kernel_os p) b (s, bt) = Some (0, (fold putc (pass_line name) s, bt))"
  by (simp add: err_fd_def refused_fd [OF assms(2)] verdict_pass [OF assms(1,3)])

lemma err_vidmap_pass:
  assumes "out_ok s"
  shows "err_vidmap (kernel_os p) (s, bt) = Some (0, (fold putc (pass_line ''err_vidmap'') s, bt))"
  by (simp add: err_vidmap_def verdict_pass [OF assms, of "''err_vidmap''"] refused_pointer bytes_def)

lemma err_syscall_num_pass:
  assumes "out_ok s"
  shows "err_syscall_num (kernel_os p) (s, bt) = Some (0, (fold putc (pass_line ''err_syscall_num'') s, bt))"
  by (simp add: err_syscall_num_def verdict_pass [OF assms, of "''err_syscall_num''"] refused_number bytes_def)

lemma err_open_pass:
  assumes "out_ok s" "test_img (fs_img s)"
  shows "err_open (kernel_os p) (s, bt) = Some (0, (fold putc (pass_line ''err_open'') s, bt))"
proof -
  have c: "cstr (msg ''helloo'') = bytes ''helloo''" "cstr (msg ''shel'') = bytes ''shel''" "cstr (msg '''') = []"
    by (simp_all add: bytes_def cstr_def)
  have "os_open (kernel_os p) (msg ''helloo'') (s, bt) = Some (-1, (s, bt))" "os_open (kernel_os p) (msg ''shel'') (s, bt) = Some (-1, (s, bt))"
    "os_open (kernel_os p) (msg '''') (s, bt) = Some (-1, (s, bt))"
    using assms(2) c by (intro refused_name; simp add: test_img_def)+
  moreover have "verdict (kernel_os p) ''err_open'' 0 (s, bt) = Some (0, (fold putc (pass_line ''err_open'') s, bt))"
    by (rule verdict_pass [OF assms(1)]) (simp add: bytes_def)
  ultimately show ?thesis by (simp add: err_open_def)
qed

lemma each_same: "(\<And>i. i \<in> set xs \<Longrightarrow> f i st = Some st) \<Longrightarrow> each f xs st = Some st"
  by (induction xs) simp_all

lemma each_same_upt: "(\<And>i. m \<le> i \<Longrightarrow> i < n \<Longrightarrow> f i st = Some st) \<Longrightarrow> each f [m..<n] st = Some st"
  by (rule each_same) simp

lemma only_stdD:
  assumes "only_std s"
  shows "out_ok s" "in_ok s" "cur_ok s" "2 \<le> i \<Longrightarrow> i < 8 \<Longrightarrow> fd_flags (fdt_of (cur_pid s) s ! i) = 0"
proof -
  show "out_ok s" "in_ok s" "cur_ok s" using assms by (simp_all add: only_std_def out_ok_def)
  show "fd_flags (fdt_of (cur_pid s) s ! i) = 0" if "2 \<le> i" "i < 8"
    using assms that unfolding only_std_def list_all_iff set_upt by simp
qed

lemma err_unopened_pass:
  assumes "only_std s"
  shows "err_unopened (kernel_os p) b (s, bt) = Some (0, (fold putc (pass_line ''err_unopened'') s, bt))"
proof -
  note o = only_stdD [OF assms]
  have r: "os_read (kernel_os p) (int i) b n (s, bt) = Some (b, -1, (s, bt))" "os_write (kernel_os p) (int i) b n (s, bt) = Some (-1, (s, bt))"
    "os_close (kernel_os p) (int i) (s, bt) = Some (-1, (s, bt))" if "2 \<le> i" "i < 8" for i n
    using refused_closed [OF o(3) that(2) o(4) [OF that]] by simp_all
  have c: "os_close (kernel_os p) (int i) (s, bt) = Some (-1, (s, bt))" if "i < 8" for i
    using r(3) refused_std_close [of i p s bt] that by (cases "i < 2") simp_all
  have v: "verdict (kernel_os p) ''err_unopened'' 0 (s, bt) = Some (0, (fold putc (pass_line ''err_unopened'') s, bt))"
    by (rule verdict_pass [OF o(1)]) (simp add: bytes_def)
  have e1: "each (\<lambda>i (fail, st). do { (r, st) \<leftarrow> os_close (kernel_os p) (int i) st;
         complain (kernel_os p) (r \<noteq> -1) ''close unopened or invalid fd fail'' fail st }) [0..<8] (0, (s, bt)) = Some (0, (s, bt))"
    by (rule each_same_upt) (simp add: c)
  have e2: "each (\<lambda>i (buf, fail, st). do { (buf, r, st) \<leftarrow> os_read (kernel_os p) (int i) buf 31 st;
         (fail, st) \<leftarrow> complain (kernel_os p) (r \<noteq> -1) ''read from unopened fd fail'' fail st; Some (buf, fail, st) }) [2..<8] (b, 0, (s, bt))
      = Some (b, 0, (s, bt))"
    by (rule each_same_upt) (simp add: r)
  have e3: "each (\<lambda>i (fail, st). do { (r, st) \<leftarrow> os_write (kernel_os p) (int i) b 31 st;
         complain (kernel_os p) (r \<noteq> -1) ''write to unopened fd fail'' fail st }) [2..<8] (0, (s, bt)) = Some (0, (s, bt))"
    by (rule each_same_upt) (simp add: r)
  show ?thesis by (simp only: err_unopened_def e1 e2 e3 v Option.bind.simps prod.case)
qed

text \<open>A call through the wrong standard descriptor fails, but moves its position.\<close>

lemma wrong_std:
  assumes "only_std s"
  shows "os_write (kernel_os p) 0 b n (s, bt) = Some (-1, (s, bt))"
    "os_read (kernel_os p) 1 b n (s, bt) = Some (b, -1,
      (set_fd (cur_pid s) 1 ((fdt_of (cur_pid s) s ! 1)\<lparr>file_pos := file_pos (fdt_of (cur_pid s) s ! 1) - 1\<rparr>) s, bt))"
proof -
  note o = only_stdD [OF assms]
  note c = cur_okD [OF o(3)]
  have r: "rd_int (file_descriptor_table (pcbs s (cur_pid s))) 0 = Some (fdt_of (cur_pid s) s ! 0)"
    "rd_int (file_descriptor_table (pcbs s (cur_pid s))) 1 = Some (fdt_of (cur_pid s) s ! 1)"
    using c(2,4) by (simp_all add: rd_int_def rd_def)
  show "os_write (kernel_os p) 0 b n (s, bt) = Some (-1, (s, bt))"
    using r(1) c(1) o(2) tables_readyD(4) [OF c(3)]
    by (simp add: kernel_os_def sys_write_def call_write_def in_ok_def invalid_read_write_def)
  show "os_read (kernel_os p) 1 b n (s, bt) = Some (b, -1,
      (set_fd (cur_pid s) 1 ((fdt_of (cur_pid s) s ! 1)\<lparr>file_pos := file_pos (fdt_of (cur_pid s) s ! 1) - 1\<rparr>) s, bt))"
    using r(2) c(1) o(1) tables_readyD(5) [OF c(3)]
    by (simp add: kernel_os_def kernel_read_def sys_read_def call_read_def out_ok_def invalid_read_write_def store_user_def Let_def)
qed

lemma only_std_set_1:
  assumes "only_std s"
  shows "only_std (set_fd (cur_pid s) 1 ((fdt_of (cur_pid s) s ! 1)\<lparr>file_pos := q\<rparr>) s)"
proof -
  let ?e = "(fdt_of (cur_pid s) s ! 1)\<lparr>file_pos := q\<rparr>"
  let ?t = "set_fd (cur_pid s) 1 ?e s"
  note o = only_stdD [OF assms]
  have e: "file_op_table_ptr ?e = Stdout_opt" "fd_flags ?e = 1" using o(1) by (simp_all add: out_ok_def)
  have f: "fdt_of (cur_pid ?t) ?t = (fdt_of (cur_pid s) s)[1 := ?e]" by (simp add: fdt_of_def)
  have "cur_ok ?t" by (rule cur_ok_set_fd [OF o(3)]) (use e in simp)
  then show ?thesis using o e cur_okD(2) [OF o(3)] unfolding only_std_def out_ok_def in_ok_def f by (simp add: list_all_iff)
qed

lemma err_stdin_out_pass:
  assumes "only_std s"
  shows "\<exists>q. err_stdin_out (kernel_os p) b (s, bt) = Some (0, (fold putc (pass_line ''err_stdin_out'')
    (set_fd (cur_pid s) 1 ((fdt_of (cur_pid s) s ! 1)\<lparr>file_pos := q\<rparr>) s), bt))"
proof -
  let ?t = "set_fd (cur_pid s) 1 ((fdt_of (cur_pid s) s ! 1)\<lparr>file_pos := file_pos (fdt_of (cur_pid s) s ! 1) - 1\<rparr>) s"
  have "out_ok ?t" using only_std_set_1 [OF assms] by (simp add: only_std_def)
  then have v: "verdict (kernel_os p) ''err_stdin_out'' 0 (?t, bt) = Some (0, (fold putc (pass_line ''err_stdin_out'') ?t, bt))"
    by (rule verdict_pass) (simp add: bytes_def)
  show ?thesis using v by (auto simp: err_stdin_out_def wrong_std [OF assms])
qed

lemma dirs_openD:
  assumes "dirs_open lo hi st (t, bt)" "2 \<le> j" "j < 8"
  shows "lo \<le> j \<Longrightarrow> j < hi \<Longrightarrow> file_op_table_ptr (fdt_of (cur_pid t) t ! j) = Dir_opt \<and> fd_flags (fdt_of (cur_pid t) t ! j) = 1"
    "\<not> (lo \<le> j \<and> j < hi) \<Longrightarrow> fd_flags (fdt_of (cur_pid t) t ! j) = 0"
proof -
  have "j \<in> {2..<8}" using assms(2,3) by simp
  then have "let e = fdt_of (cur_pid t) t ! j
         in if lo \<le> j \<and> j < hi then file_op_table_ptr e = Dir_opt \<and> fd_flags e = 1 else fd_flags e = 0"
    using assms(1) unfolding dirs_open_def list_all_iff set_upt fst_conv by blast
  then show "lo \<le> j \<Longrightarrow> j < hi \<Longrightarrow> file_op_table_ptr (fdt_of (cur_pid t) t ! j) = Dir_opt \<and> fd_flags (fdt_of (cur_pid t) t ! j) = 1"
    "\<not> (lo \<le> j \<and> j < hi) \<Longrightarrow> fd_flags (fdt_of (cur_pid t) t ! j) = 0" by (simp_all add: Let_def split: if_splits)
qed

lemma dirs_open_set:
  assumes "dirs_open lo hi st (t, bt)" "2 \<le> i" "i < 8" "file_op_table_ptr e \<noteq> Null_ptr"
    and "\<And>j. 2 \<le> j \<Longrightarrow> j < 8 \<Longrightarrow> j \<noteq> i \<Longrightarrow> lo' \<le> j \<and> j < hi' \<longleftrightarrow> lo \<le> j \<and> j < hi"
    and "if lo' \<le> i \<and> i < hi' then file_op_table_ptr e = Dir_opt \<and> fd_flags e = 1 else fd_flags e = 0"
  shows "dirs_open lo' hi' st (set_fd (cur_pid t) i e t, bt)"
proof -
  let ?t = "set_fd (cur_pid t) i e t"
  have a: "only_files st (t, bt)" "out_ok t" "in_ok t" "screen.truncate t = screen.truncate (fst st)" "fs_img t = fs_img (fst st)"
    using assms(1) by (simp_all add: dirs_open_def)
  have l: "length (fdt_of (cur_pid t) t) = 8" using a(2) cur_okD(2) by (auto simp: out_ok_def)
  have f: "fdt_of (cur_pid ?t) ?t = (fdt_of (cur_pid t) t)[i := e]" by (simp add: fdt_of_def)
  have "out_ok ?t" using out_ok_set_fd [OF a(2), of i e] assms(2,4) by simp
  moreover have "in_ok ?t" using a(3) assms(2) unfolding in_ok_def f by simp
  moreover have "only_files st (?t, bt)" by (rule only_files_set_fd(1) [OF a(1)])
  moreover have "let x = (fdt_of (cur_pid t) t)[i := e] ! j
         in if lo' \<le> j \<and> j < hi' then file_op_table_ptr x = Dir_opt \<and> fd_flags x = 1 else fd_flags x = 0" if "2 \<le> j" "j < 8" for j
  proof (cases "j = i")
    case True
    then show ?thesis using assms(6) l that by (simp add: Let_def)
  next
    case False
    then show ?thesis using dirs_openD [OF assms(1) that] assms(5) [OF that False] by (simp add: Let_def)
  qed
  ultimately show ?thesis using a(4,5) unfolding dirs_open_def fst_conv f list_all_iff set_upt by simp
qed

lemma open_dot:
  assumes "dirs_open 2 (Suc (Suc k)) (s, bt) (t, bt)" "k \<le> 6" "test_img (fs_img s)"
  shows "\<exists>t'. os_open (kernel_os p) (msg ''.'') (t, bt) = Some (if k < 6 then int k + 2 else -1, (t', bt))
    \<and> dirs_open 2 (if k < 6 then Suc (Suc (Suc k)) else 8) (s, bt) (t', bt)"
proof -
  have o: "out_ok t" "fs_img t = fs_img s" using assms(1) by (simp_all add: dirs_open_def)
  have "cur_ok t" using o(1) by (simp add: out_ok_def)
  note c = cur_okD [OF this]
  obtain ino where e: "entry_type (fs_img s) [of_char (CHR ''.'')] = Some (1, ino)" "fs_wf (fs_img s)"
    using assms(3) by (auto simp: test_img_def)
  have m: "0 \<in> set (msg ''.'')" "cstr (msg ''.'') = [of_char (CHR ''.'')]" "0 \<notin> set [of_char (CHR ''.'') :: u8]"
    by (simp_all add: bytes_def cstr_def)
  obtain d where d: "read_dentry_by_name (fs_img s) (msg ''.'') = Some (Inr d)" "file_type d = 1"
    using entry_type_name(1) [OF e m(3,1,2)] by blast
  obtain r where r: "find_fd (fdt_of (cur_pid t) t) 2 = Some r" "2 \<le> r" "r \<le> 8"
    "\<forall>j. 2 \<le> j \<longrightarrow> j < r \<longrightarrow> fd_flags (fdt_of (cur_pid t) t ! nat j) \<noteq> 0" "r < 8 \<longrightarrow> fd_flags (fdt_of (cur_pid t) t ! nat r) = 0"
    using find_fd_least [OF c(2), of 2] by auto
  have "\<not> r < int k + 2"
  proof
    assume "r < int k + 2"
    then have "2 \<le> nat r" "nat r < 8" "nat r < Suc (Suc k)" "r < 8" using r(2) assms(2) by linarith+
    then show False using dirs_openD(1) [OF assms(1), of "nat r"] r(5) by simp
  qed
  moreover have "\<not> int k + 2 < r"
  proof
    assume "int k + 2 < r"
    then have "k + 2 < 8" "fd_flags (fdt_of (cur_pid t) t ! nat (int (k + 2))) \<noteq> 0" using r(3) spec [OF r(4), of "int (k + 2)"] by simp_all
    then show False using dirs_openD(2) [OF assms(1), of "k + 2"] unfolding nat_int by simp
  qed
  ultimately have rk: "r = int k + 2" by simp
  show ?thesis
  proof (cases "k < 6")
    case True
    let ?t = "set_fd (cur_pid t) (k + 2) (open_entry Dir_opt (inode_num d)) t"
    have n: "nat (int k + 2) = k + 2" by simp
    have "os_open (kernel_os p) (msg ''.'') (t, bt) = Some (int k + 2, (?t, bt))"
      using r(1) rk c(1,4) d o(2) True n by (simp add: kernel_os_def sys_open_def)
    moreover have "dirs_open 2 (Suc (Suc (Suc k))) (s, bt) (?t, bt)"
      by (rule dirs_open_set [OF assms(1)]) (use True in \<open>auto simp: open_entry_def\<close>)
    ultimately show ?thesis using True by auto
  next
    case False
    then have k: "k = 6" using assms(2) by simp
    have "os_open (kernel_os p) (msg ''.'') (t, bt) = Some (-1, (t, bt))"
      using r(1) rk c(1,4) d o(2) k by (simp add: kernel_os_def sys_open_def)
    then show ?thesis using assms(1) k by auto
  qed
qed

lemma close_dot:
  assumes "dirs_open lo 8 st (t, bt)" "2 \<le> lo" "lo < 8"
  shows "\<exists>t'. os_close (kernel_os p) (int lo) (t, bt) = Some (0, (t', bt)) \<and> dirs_open (Suc lo) 8 st (t', bt)"
proof -
  let ?u = "t\<lparr>read_index := snd dir_close\<rparr>"
  have a: "out_ok t" "in_ok t" "only_files st (t, bt)" using assms(1) by (simp_all add: dirs_open_def)
  have "cur_ok t" using a(1) by (simp add: out_ok_def)
  note c = cur_okD [OF this]
  have f: "fdt_of (cur_pid ?u) ?u = fdt_of (cur_pid t) t" by (simp add: fdt_of_def)
  have "only_files st (?u, bt)" by (rule only_files_set_fd(2) [OF a(3)])
  then have u: "dirs_open lo 8 st (?u, bt)" using assms(1) a(2) f unfolding dirs_open_def in_ok_def fst_conv by simp
  have "dirs_open (Suc lo) 8 st (set_fd (cur_pid ?u) lo closed_entry ?u, bt)"
    by (rule dirs_open_set [OF u assms(2,3)]) (auto simp: closed_entry_def)
  moreover have "rd_int (file_descriptor_table (pcbs t (cur_pid t))) (int lo) = Some (fdt_of (cur_pid t) t ! lo)"
    using c(2,4) assms(3) by simp
  then have "os_close (kernel_os p) (int lo) (t, bt) = Some (0, (set_fd (cur_pid ?u) lo closed_entry ?u, bt))"
    using assms(2,3) c(1) dirs_openD(1) [OF assms(1) assms(2,3)] tables_readyD(2) [OF c(3)]
    by (simp add: kernel_os_def sys_close_def call_close_def Let_def)
  ultimately show ?thesis by blast
qed

lemma open_lots:
  assumes "only_std s" "test_img (fs_img s)" "k \<le> 7"
  shows "\<exists>t. each (\<lambda>i (cnt, st). do { (r, st) \<leftarrow> os_open (kernel_os p) (msg ''.'') st; Some (if r = -1 then cnt + 1 else cnt, st) })
       [0..<k] (0 :: int, (s, bt)) = Some (if k = 7 then 1 else 0, (t, bt)) \<and> dirs_open 2 (min (Suc (Suc k)) 8) (s, bt) (t, bt)"
  using assms(3)
proof (induction k)
  case 0
  have "dirs_open 2 2 (s, bt) (s, bt)" using assms(1) by (simp add: dirs_open_def only_std_def Let_def)
  then show ?case by (simp add: numeral_2_eq_2)
next
  case (Suc k)
  let ?f = "\<lambda>i (cnt, st). do { (r, st) \<leftarrow> os_open (kernel_os p) (msg ''.'') st; Some (if r = -1 then cnt + 1 else cnt, st) }"
  obtain t where t: "each ?f [0..<k] (0 :: int, (s, bt)) = Some (0, (t, bt))" "dirs_open 2 (Suc (Suc k)) (s, bt) (t, bt)"
    using Suc by (auto simp: min_def)
  obtain t' where t': "os_open (kernel_os p) (msg ''.'') (t, bt) = Some (if k < 6 then int k + 2 else -1, (t', bt))"
    "dirs_open 2 (if k < 6 then Suc (Suc (Suc k)) else 8) (s, bt) (t', bt)"
    using open_dot [OF t(2) _ assms(2)] Suc.prems by auto
  have "[0..<Suc k] = [0..<k] @ [k]" by simp
  then have "each ?f [0..<Suc k] (0 :: int, (s, bt)) = Some (if k < 6 then 0 else 1, (t', bt))"
    by (simp only: each_append t(1) Option.bind.simps) (simp add: t'(1))
  moreover have "k < 6 \<longleftrightarrow> Suc k \<noteq> 7" using Suc.prems by auto
  ultimately show ?case using t'(2) Suc.prems by (cases "k < 6") (auto simp: min_def simp del: upt_Suc)
qed

lemma close_lots:
  assumes "dirs_open 2 8 st (t, bt)" "k \<le> 6"
  shows "\<exists>t'. each (\<lambda>i st. do { (_, st) \<leftarrow> os_close (kernel_os p) (int i) st; Some st }) [2..<Suc (Suc k)] (t, bt) = Some (t', bt)
    \<and> dirs_open (Suc (Suc k)) 8 st (t', bt)"
  using assms(2)
proof (induction k)
  case 0
  then show ?case using assms(1) by (simp add: numeral_2_eq_2)
next
  case (Suc k)
  let ?f = "\<lambda>i st. do { (_, st) \<leftarrow> os_close (kernel_os p) (int i) st; Some st }"
  obtain t1 where t1: "each ?f [2..<Suc (Suc k)] (t, bt) = Some (t1, bt)" "dirs_open (Suc (Suc k)) 8 st (t1, bt)"
    using Suc by auto
  obtain t2 where t2: "os_close (kernel_os p) (int (Suc (Suc k))) (t1, bt) = Some (0, (t2, bt))" "dirs_open (Suc (Suc (Suc k))) 8 st (t2, bt)"
    using close_dot [OF t1(2)] Suc.prems by auto
  have "[2..<Suc (Suc (Suc k))] = [2..<Suc (Suc k)] @ [Suc (Suc k)]" by simp
  then have "each ?f [2..<Suc (Suc (Suc k))] (t, bt) = Some (t2, bt)"
    by (simp only: each_append t1(1) Option.bind.simps each.simps t2(1) prod.case)
  then show ?case using t2(2) by blast
qed

lemma err_open_lots_pass:
  assumes "only_std s" "test_img (fs_img s)"
  shows "\<exists>t. err_open_lots (kernel_os p) (s, bt) = Some (0, (fold putc (pass_line ''err_open_lots'') t, bt)) \<and> only_std t
    \<and> only_files (s, bt) (t, bt) \<and> screen.truncate t = screen.truncate s \<and> fs_img t = fs_img s"
proof -
  obtain t where t: "each (\<lambda>i (cnt, st). do { (r, st) \<leftarrow> os_open (kernel_os p) (msg ''.'') st; Some (if r = -1 then cnt + 1 else cnt, st) })
       [0..<7] (0 :: int, (s, bt)) = Some (1, (t, bt))" "dirs_open 2 8 (s, bt) (t, bt)"
    using open_lots [OF assms, of 7 p bt] by auto
  obtain t' where t': "each (\<lambda>i st. do { (_, st) \<leftarrow> os_close (kernel_os p) (int i) st; Some st }) [2..<8] (t, bt) = Some (t', bt)"
    "dirs_open 8 8 (s, bt) (t', bt)"
    using close_lots [OF t(2), of 6 p] by auto
  have o: "only_std t'" using t'(2) by (simp add: dirs_open_def only_std_def Let_def list_all_iff)
  have v: "verdict (kernel_os p) ''err_open_lots'' 0 (t', bt) = Some (0, (fold putc (pass_line ''err_open_lots'') t', bt))"
    by (rule verdict_pass) (use o in \<open>simp_all add: only_std_def bytes_def\<close>)
  have "err_open_lots (kernel_os p) (s, bt) = Some (0, (fold putc (pass_line ''err_open_lots'') t', bt))"
    by (simp only: err_open_lots_def t(1) t'(1) v Option.bind.simps prod.case if_True simp_thms)
  then show ?thesis using o t'(2) by (auto simp: dirs_open_def)
qed

subsection \<open>All tests\<close>

lemma only_std_fold_putc: "only_std (fold putc cs s) = only_std s"
  by (simp add: only_std_def in_ok_def fdt_of_def)

lemma all_tests_pass:
  assumes "only_std s" "test_img (fs_img s)"
  shows "\<exists>s'. all_tests (kernel_os p) b (s, bt) = Some (0, (s', bt)) \<and> only_files (s, bt) (s', bt) \<and> only_std s'
    \<and> screen.truncate s' = fold putc all_pass (screen.truncate s)"
proof -
  define s2 where "s2 = fold putc (pass_line ''err_big_fd'') (fold putc (pass_line ''err_neg_fd'') s)"
  have o2: "only_std s2" "test_img (fs_img s2)" "only_files (s, bt) (s2, bt)"
    using assms by (simp_all add: s2_def only_std_fold_putc only_files_putc)
  obtain t where t: "err_open_lots (kernel_os p) (s2, bt) = Some (0, (fold putc (pass_line ''err_open_lots'') t, bt))" "only_std t"
    "only_files (s2, bt) (t, bt)" "screen.truncate t = screen.truncate s2" "fs_img t = fs_img s2"
    using err_open_lots_pass [OF o2(1,2), of p bt] by blast
  define s6 where "s6 = fold putc (pass_line ''err_vidmap'') (fold putc (pass_line ''err_unopened'') (fold putc (pass_line ''err_open'')
    (fold putc (pass_line ''err_open_lots'') t)))"
  have o6: "only_std s6" "only_files (s, bt) (s6, bt)"
    using t(2) only_files_trans [OF o2(3) t(3)] by (simp_all add: s6_def only_std_fold_putc only_files_putc)
  obtain q where q: "err_stdin_out (kernel_os p) b (s6, bt) = Some (0, (fold putc (pass_line ''err_stdin_out'')
    (set_fd (cur_pid s6) 1 ((fdt_of (cur_pid s6) s6 ! 1)\<lparr>file_pos := q\<rparr>) s6), bt))"
    using err_stdin_out_pass [OF o6(1), of p b bt] by blast
  define u where "u = set_fd (cur_pid s6) 1 ((fdt_of (cur_pid s6) s6 ! 1)\<lparr>file_pos := q\<rparr>) s6"
  have u: "only_std u" "only_files (s, bt) (u, bt)" "screen.truncate u = screen.truncate s6"
    unfolding u_def using only_std_set_1 [OF o6(1)] only_files_set_fd(1) [OF o6(2)] by simp_all
  let ?s8 = "fold putc (pass_line ''err_syscall_num'') (fold putc (pass_line ''err_stdin_out'') u)"
  let ?s' = "fold putc (10 # bytes ''Overall Tests: PASS'' @ [10]) ?s8"
  have out: "out_ok s" "out_ok t" "only_std t" "out_ok u" using assms(1) t(2) u(1) by (simp_all add: only_std_def)
  have img: "test_img (fs_img t)" using t(5) o2(2) by simp
  have e1: "err_neg_fd (kernel_os p) b (s, bt) = Some (0, (fold putc (pass_line ''err_neg_fd'') s, bt))"
    unfolding err_neg_fd_def by (rule err_fd_pass) (simp_all add: out bytes_def)
  have e2: "err_big_fd (kernel_os p) b (fold putc (pass_line ''err_neg_fd'') s, bt) = Some (0, (s2, bt))"
    unfolding err_big_fd_def s2_def by (rule err_fd_pass) (simp_all add: out bytes_def)
  have e4: "err_open (kernel_os p) (fold putc (pass_line ''err_open_lots'') t, bt)
      = Some (0, (fold putc (pass_line ''err_open'') (fold putc (pass_line ''err_open_lots'') t), bt))"
    by (rule err_open_pass) (simp_all add: out img)
  have e5: "err_unopened (kernel_os p) b (fold putc (pass_line ''err_open'') (fold putc (pass_line ''err_open_lots'') t), bt)
      = Some (0, (fold putc (pass_line ''err_unopened'') (fold putc (pass_line ''err_open'') (fold putc (pass_line ''err_open_lots'') t)), bt))"
    by (rule err_unopened_pass) (simp add: only_std_fold_putc out)
  have e6: "err_vidmap (kernel_os p) (fold putc (pass_line ''err_unopened'') (fold putc (pass_line ''err_open'') (fold putc (pass_line ''err_open_lots'') t)), bt)
      = Some (0, (s6, bt))" unfolding s6_def by (rule err_vidmap_pass) (simp add: out)
  have e8: "err_syscall_num (kernel_os p) (fold putc (pass_line ''err_stdin_out'') u, bt) = Some (0, (?s8, bt))"
    by (rule err_syscall_num_pass) (simp add: out)
  have e9: "ece391_fdputs (kernel_os p) 1 (10 # msgln ''Overall Tests: PASS'') (?s8, bt) = Some (?s', bt)"
  proof -
    have "cstr (10 # msgln ''Overall Tests: PASS'') = 10 # bytes ''Overall Tests: PASS'' @ [10]" by (simp add: cstr_def bytes_def)
    then show ?thesis using fdputs_kernel [of ?s8 "10 # msgln ''Overall Tests: PASS''" p bt] out by simp
  qed
  have "all_tests (kernel_os p) b (s, bt) = Some (0, (?s', bt))"
    unfolding all_tests_def by (simp only: e1 e2 t(1) e4 e5 e6 q u_def [symmetric] e8 e9 Let_def Option.bind.simps prod.case simp_thms if_False add_0)
  moreover have "screen.truncate ?s' = fold putc all_pass (screen.truncate s)"
    by (simp only: truncate_fold_putc u(3) s6_def t(4) s2_def all_pass_def list.map concat.simps fold_append append_Nil2 append.assoc o_apply)
  moreover have "only_std ?s'" "only_files (s, bt) (?s', bt)" using u(1,2) by (simp_all only: only_std_fold_putc only_files_putc)
  ultimately show ?thesis by blast
qed


lemma user_state_tests: "only_std user_state" "test_img (fs_img user_state)" "key_char 0x0B = Some (of_char (CHR ''0''))"
proof -
  have "fdt_of (cur_pid user_state) user_state = std_entry Stdin_opt # std_entry Stdout_opt # replicate 6 closed_entry"
    by (simp add: user_state_def fdt_of_def)
  then show "only_std user_state" using user_state_shell(1)
    by (simp add: only_std_def shell_ready_def list_all_iff closed_entry_def upt_rec)
  show "test_img (fs_img user_state)" using user_img_wf user_img_lookup
    by (simp add: test_img_def user_state_ok) (simp add: bytes_def)
  show "key_char 0x0B = Some (of_char (CHR ''0''))" by code_simp
qed


end
