(* ===== verification/User_Grep.thy ===== *)
theory User_Grep
  imports User_Session "HOL-Library.Sublist"
begin

text \<open>
  The correctness of \<open>grep\<close>: the lines of a file are searched as they come out of a buffer of 1024 bytes, with an incomplete line
  at the end of the buffer moved to its front before the next read.  The specification is a filter over the lines.
\<close>

fun split_lines :: "buf \<Rightarrow> buf list" where
  "split_lines [] = [[]]"
| "split_lines (c # cs) = (if c = 10 then [] # split_lines cs else (c # hd (split_lines cs)) # tl (split_lines cs))"

text \<open>What \<open>grep\<close> shows for the lines that contain \<open>s\<close>.\<close>

definition grep_out :: "buf \<Rightarrow> buf \<Rightarrow> buf list \<Rightarrow> buf" where
  "grep_out fname s ls = concat (map (\<lambda>l. fname @ of_char (CHR '':'') # l @ [10]) (filter (sublist s) ls))"

text \<open>
  The lines in the buffer: either all of them have been searched and the buffer is empty, which happens at the end of the file, for a
  chunk without a newline, by a stale newline behind the data, or when the last line is complete; or the last one,
  incomplete, is at the front of the buffer.
\<close>

definition lines_done :: "(u8 \<Rightarrow> 'v \<Rightarrow> 'v) \<Rightarrow> buf \<Rightarrow> buf \<Rightarrow> int \<Rightarrow> buf \<Rightarrow> nat \<Rightarrow> nat \<Rightarrow> buf \<Rightarrow> 'v \<Rightarrow> nat \<Rightarrow> buf \<Rightarrow> 'v \<Rightarrow> bool" where
  "lines_done emit f s cnt data lst ls R v lst' data' v' \<longleftrightarrow> length data' = 1025 \<and> (data' ! 1024 = data ! 1024 \<or> data' ! 1024 = 0) \<and>
     (lst' = 0 \<and> v' = fold emit (grep_out f s (split_lines R)) v
        \<and> (cnt = 0 \<or> ls = 0 \<and> 10 \<notin> set R \<or> data ! lst = 10 \<or> last (split_lines R) = [])
      \<or> cnt \<noteq> 0 \<and> (ls \<noteq> 0 \<or> 10 \<in> set R) \<and> lst' = length (last (split_lines R)) \<and> take lst' data' = last (split_lines R)
        \<and> v' = fold emit (grep_out f s (butlast (split_lines R))) v)"

text \<open>Text with lines that fit in the buffer; what the search of an entry of the directory shows, and the entries that can be searched.\<close>

definition text_lines :: "buf \<Rightarrow> bool" where
  "text_lines t \<longleftrightarrow> 0 \<notin> set t \<and> (\<forall>l \<in> set (split_lines t). length l < 1024)"

definition searched :: "buf \<Rightarrow> buf \<Rightarrow> buf \<Rightarrow> buf" where
  "searched img pat name =
     (if hd name = of_char (CHR ''.'') then []
      else case entry_type img name of
             Some (t, ino) \<Rightarrow> grep_out name pat (split_lines (file_content img (unat ino)))
           | None \<Rightarrow> [])"

definition searchable :: "buf \<Rightarrow> buf \<Rightarrow> bool" where
  "searchable img name \<longleftrightarrow> hd name = of_char (CHR ''.'') \<or>
     (case entry_type img name of
        Some (t, ino) \<Rightarrow> t = 2 \<and> unat ino < img32 img 4 \<and> text_lines (file_content img (unat ino))
      | None \<Rightarrow> False)"

text \<open>A session in which the descriptor \<open>fd\<close> has been used and closed.\<close>

definition closed_at :: "'a session \<Rightarrow> int \<Rightarrow> 'a session \<Rightarrow> bool" where
  "closed_at st fd = (\<lambda>(s, bt). only_files st (s, bt) \<and> out_ok s \<and> read_index s = read_index (fst st)
     \<and> fdt_of (cur_pid s) s = (fdt_of (cur_pid s) (fst st))[nat fd := closed_entry])"

text \<open>The image of \<open>user_img\<close> with a text file of five lines in place of the program \<open>cat\<close>, and the state on it.\<close>

definition demo_text :: buf where
  "demo_text = bytes ''a cat'' @ [10] @ bytes ''no'' @ [10] @ bytes ''the cats'' @ [10] @ bytes ''ca t'' @ [10] @ bytes ''last'' @ [10]"

definition text_img :: buf where
  "text_img = take 8192 user_img @ demo_text @ replicate 4068 0"

definition text_state :: proc where
  "text_state = user_state\<lparr>fs_img := text_img\<rparr>"

subsection \<open>Lines\<close>

lemma split_lines_nonempty [simp]: "split_lines t \<noteq> []"
  by (cases t) simp_all

lemma split_lines_line: "10 \<notin> set t \<Longrightarrow> split_lines t = [t]"
  by (induction t) auto

lemma split_lines_first: "10 \<notin> set l \<Longrightarrow> split_lines (l @ 10 # t) = l # split_lines t"
  by (induction l) auto

lemma split_lines_append: "split_lines (a @ b) = butlast (split_lines a) @ split_lines (last (split_lines a) @ b)"
proof (induction a)
  case (Cons c a)
  show ?case
  proof (cases "c = 10")
    case True
    then show ?thesis using Cons by simp
  next
    case False
    show ?thesis
    proof (cases "tl (split_lines a)")
      case Nil
      then have "split_lines a = [hd (split_lines a)]" by (metis list.collapse split_lines_nonempty)
      then show ?thesis using Cons False by (metis append_Cons append_Nil butlast.simps(2) last.simps list.sel split_lines.simps(2))
    next
      case (Cons l ls)
      obtain h where h: "split_lines a = h # l # ls" using Cons by (metis list.collapse split_lines_nonempty)
      then show ?thesis using Cons.IH False by simp
    qed
  qed
qed simp

lemma split_lines_set: "l \<in> set (split_lines t) \<Longrightarrow> set l \<subseteq> set t - {10}"
proof (induction t arbitrary: l)
  case (Cons c t)
  show ?case
  proof (cases "l \<in> set (split_lines t)")
    case True
    then show ?thesis using Cons.IH by auto
  next
    case False
    then have "l = [] \<or> c \<noteq> 10 \<and> l = c # hd (split_lines t)"
      using Cons.prems list.set_sel(2) [of "split_lines t"] by (auto split: if_splits)
    then show ?thesis using Cons.IH [of "hd (split_lines t)"] by auto
  qed
qed simp

lemma split_lines_open: "10 \<notin> set a \<Longrightarrow> split_lines (a @ b) = (a @ hd (split_lines b)) # tl (split_lines b)"
  by (induction a) auto

lemma grep_out_append: "grep_out f s (a @ b) = grep_out f s a @ grep_out f s b"
  by (simp add: grep_out_def)

lemma grep_out_empty: "s \<noteq> [] \<Longrightarrow> grep_out f s [[]] = []"
  by (simp add: grep_out_def sublist_def)

text \<open>One round of the loop: what the lines in the buffer leave for the next read, with the text \<open>t\<close> behind it.\<close>

lemma lines_done_rest:
  assumes "lines_done emit f s cnt data (length R) 0 R v lst' data' v'" "cnt \<noteq> 0" "s \<noteq> []" "data ! 1024 \<noteq> 10"
    and "t = [] \<or> length R = 1024" "\<forall>l \<in> set (split_lines (R @ t)). length l < 1024"
  shows "fold emit (grep_out f s (split_lines (take lst' data' @ t))) v' = fold emit (grep_out f s (split_lines (R @ t))) v
    \<and> lst' < 1024 \<and> set (take lst' data') \<subseteq> set R \<and> (\<forall>l \<in> set (split_lines (take lst' data' @ t)). length l < 1024)"
proof -
  let ?l = "last (split_lines R)"
  have l: "set ?l \<subseteq> set R - {10}" by (rule split_lines_set) simp
  have sp: "split_lines (R @ t) = butlast (split_lines R) @ split_lines (?l @ t)" by (rule split_lines_append)
  have "?l @ hd (split_lines t) \<in> set (split_lines (R @ t))" unfolding sp using l by (subst split_lines_open) auto
  then have ll: "length ?l < 1024" using assms(6) by fastforce
  have g: "grep_out f s (split_lines R) = grep_out f s (butlast (split_lines R)) @ grep_out f s [?l]"
    by (metis append_butlast_last_id grep_out_append split_lines_nonempty)
  have full: ?thesis if "take lst' data' = ?l" "lst' = length ?l" "v' = fold emit (grep_out f s (butlast (split_lines R))) v"
    using that l ll assms(6) unfolding sp by (auto simp: grep_out_append)
  show ?thesis
  proof (cases "lst' = 0")
    case True
    then have v: "v' = fold emit (grep_out f s (butlast (split_lines R)) @ grep_out f s [?l]) v"
      and d: "10 \<notin> set R \<or> data ! length R = 10 \<or> ?l = []"
      using assms(1,2) g grep_out_empty [OF assms(3), of f] by (auto simp: lines_done_def)
    show ?thesis
    proof (cases "t = []")
      case True
      then show ?thesis using \<open>lst' = 0\<close> v g grep_out_empty [OF assms(3), of f] by simp
    next
      case False
      then have "length R = 1024" using assms(5) by simp
      moreover have "length R < 1024" if "10 \<notin> set R" using split_lines_line [OF that] ll by simp
      ultimately have "?l = []" using d assms(4) by auto
      then show ?thesis using full \<open>lst' = 0\<close> v grep_out_empty [OF assms(3), of f] by simp
    qed
  next
    case False
    then show ?thesis using assms(1) full by (auto simp: lines_done_def)
  qed
qed

lemma scan_line_eq:
  assumes "l \<le> length data" "e \<le> l"
  shows "scan_line data e l = Some (e + length (takeWhile (\<lambda>c. c \<noteq> 10) (take (l - e) (drop e data))))"
  using assms
proof (induction data e l rule: scan_line.induct)
  case (1 data e l)
  show ?case
  proof (cases "e < l")
    case True
    then have "take (l - e) (drop e data) = data ! e # take (l - Suc e) (drop (Suc e) data)"
      using 1(2) by (metis Cons_nth_drop_Suc Suc_diff_Suc order_less_le_trans take_Suc_Cons)
    moreover have "rd data e = Some (data ! e)" using True 1(2) by simp
    ultimately show ?thesis using True 1 by (subst scan_line.simps) auto
  next
    case False
    then show ?thesis using 1(3) by (subst scan_line.simps) simp
  qed
qed

text \<open>The comparison at one position of a terminated line.\<close>

lemma strncmp_prefix:
  assumes "0 \<notin> set s" "0 \<notin> set l" "s \<noteq> []"
  shows "\<exists>d. ece391_strncmp (l @ 0 # r) (s @ 0 # q) (length s) = Some d \<and> (d = 0 \<longleftrightarrow> prefix s l)"
proof -
  have "\<exists>d. ece391_strncmp_loop (l @ 0 # r) (s @ 0 # q) (length s) = Some d \<and> (d = 0 \<longleftrightarrow> prefix s l)"
    using assms
  proof (induction s arbitrary: l)
    case (Cons c s)
    show ?case
    proof (cases l)
      case Nil
      then show ?thesis using Cons.prems by (auto simp: unsigned_eq_0_iff)
    next
      case l: (Cons d l')
      show ?thesis
      proof (cases "s = []")
        case True
        then show ?thesis using Cons.prems l by (auto dest: unsigned_word_eqI)
      next
        case False
        then show ?thesis using Cons.IH [of l'] Cons.prems l by (auto dest: unsigned_word_eqI)
      qed
    qed
  qed simp
  then show ?thesis using assms(3) by (simp add: ece391_strncmp_def)
qed

text \<open>A copy of a terminated string towards the front of the same buffer.\<close>

lemma strcpy_down:
  assumes "0 \<notin> set l" "dst < src" "src + length l < length b" "take (length l) (drop src b) = l" "b ! (src + length l) = 0"
  shows "ece391_strcpy b dst src = Some (take dst b @ l @ 0 # drop (Suc (dst + length l)) b)"
  using assms
proof (induction l arbitrary: b dst src)
  case Nil
  then show ?case by (subst ece391_strcpy.simps) (simp add: wr_def upd_conv_take_nth_drop)
next
  case (Cons c l)
  have s: "src < length b" using Cons.prems(3) by simp
  then have d: "drop src b = b ! src # drop (Suc src) b" by (simp add: Cons_nth_drop_Suc)
  then have c: "b ! src = c" "take (length l) (drop (Suc src) b) = l" using Cons.prems(4) by simp_all
  let ?b = "b[dst := c]"
  have "ece391_strcpy ?b (Suc dst) (Suc src) = Some (take (Suc dst) ?b @ l @ 0 # drop (Suc (Suc dst + length l)) ?b)"
    by (rule Cons.IH) (use Cons.prems c in simp_all)
  moreover have "take (Suc dst) ?b = take dst b @ [c]" using Cons.prems(2) s by (simp add: take_Suc_conv_app_nth)
  moreover have "c \<noteq> 0" using Cons.prems(1) by auto
  ultimately show ?case using c s Cons.prems(2) by (subst ece391_strcpy.simps) (simp add: wr_def)
qed

lemma sublist_drop: "s \<noteq> [] \<Longrightarrow> sublist s l \<longleftrightarrow> (\<exists>k < length l. prefix s (drop k l))"
proof
  assume s: "s \<noteq> []" "sublist s l"
  then obtain ps ss where l: "l = ps @ s @ ss" by (auto simp: sublist_def)
  then show "\<exists>k < length l. prefix s (drop k l)" using s(1) by (intro exI [of _ "length ps"]) simp
next
  assume "\<exists>k < length l. prefix s (drop k l)"
  then show "sublist s l" by (metis append_take_drop_id prefixE sublist_appendI sublist_def)
qed

subsection \<open>The search\<close>

text \<open>A descriptor of a file that can be closed.\<close>

locale file_handle = file_source os ok view emit fd content at
  for os :: "'s os" and ok :: "'s \<Rightarrow> bool" and view :: "'s \<Rightarrow> 'v" and emit :: "u8 \<Rightarrow> 'v \<Rightarrow> 'v"
    and fd :: int and content :: buf and at :: "nat \<Rightarrow> 's \<Rightarrow> bool" +
  fixes closed :: "'s \<Rightarrow> bool"
  assumes close_at: "at p s \<Longrightarrow> \<exists>s'. os_close os fd s = Some (0, s') \<and> closed s' \<and> view s' = view s"
begin

lemma fdputs_at:
  assumes "at p s" "0 \<in> set b"
  shows "\<exists>s'. ece391_fdputs os 1 b s = Some s' \<and> at p s' \<and> view s' = fold emit (cstr b) (view s)"
proof -
  have o: "ok s" using at_ok [OF assms(1)] by simp
  have "take (length (cstr b)) b = cstr b" by (simp add: cstr_def flip: takeWhile_eq_take)
  then obtain s' where "os_write os 1 b (int (length (cstr b))) s = Some (int (length (cstr b)), s')" "view s' = fold emit (cstr b) (view s)"
    using write_out [OF o, of "length (cstr b)" b] length_cstr_le [of b] by auto
  then show ?thesis using write_at [OF assms(1)] assms(2) by (auto simp: ece391_fdputs_def ece391_strlen_eq)
qed

lemma check_line_eq:
  assumes "at p st" "0 \<notin> set s" "s \<noteq> []" "0 \<in> set fb" "0 \<notin> set l"
    and "ls + length l < length data" "take (length l) (drop ls data) = l" "data ! (ls + length l) = 0" "k \<le> length l"
  shows "\<exists>st'. check_line os (s @ 0 # q) (length s) fb data ls (ls + k) (ls + length l) st = Some st' \<and> at p st'
    \<and> view st' = (if \<exists>j < length l. k \<le> j \<and> prefix s (drop j l) then fold emit (cstr fb @ of_char (CHR '':'') # l @ [10]) (view st) else view st)"
  using assms(9)
proof (induction "length l - k" arbitrary: k)
  case 0
  then have "k = length l" by simp
  then show ?case using assms(1) by (subst check_line.simps) auto
next
  case (Suc n)
  then have k: "k < length l" by simp
  obtain c s' where c: "s = c # s'" using assms(3) by (cases s) auto
  obtain r where dl: "drop ls data = l @ 0 # r"
  proof (rule that [of "drop (Suc (length l)) (drop ls data)"])
    have "drop ls data = take (length l) (drop ls data) @ drop (length l) (drop ls data)" by (rule append_take_drop_id [symmetric])
    also have "drop (length l) (drop ls data) = data ! (ls + length l) # drop (Suc (length l)) (drop ls data)"
      using assms(6) Cons_nth_drop_Suc [of "ls + length l" data] by (simp add: add.commute)
    finally show "drop ls data = l @ 0 # drop (Suc (length l)) (drop ls data)" using assms(7,8) by simp
  qed
  then have dk: "drop (ls + k) data = drop k l @ 0 # r" using k by (simp add: add.commute flip: drop_drop)
  have lk: "data ! (ls + k) = l ! k" using dl k nth_drop [of ls data k] assms(6) by (simp add: nth_append)
  have rd: "rd data (ls + k) = Some (l ! k)" "rd (s @ 0 # q) 0 = Some c" using lk assms(6) k c by (simp_all add: rd_def)
  obtain d where d: "ece391_strncmp (drop (ls + k) data) (s @ 0 # q) (length s) = Some d" "d = 0 \<longleftrightarrow> prefix s (drop k l)"
    using strncmp_prefix [of s "drop k l" r q] assms(2,3,5) dk by (metis in_set_dropD)
  have pc: "c = l ! k" if "prefix s (drop k l)" using that c k by (cases "drop k l") (auto simp: nth_via_drop)
  have e: "(if c = l ! k then ece391_strncmp (drop (ls + k) data) (s @ 0 # q) (length s) else Some 1) = Some (if c = l ! k then d else 1)"
    using d(1) by simp
  show ?case
  proof (cases "prefix s (drop k l)")
    case True
    obtain s1 where s1: "ece391_fdputs os 1 fb st = Some s1" "at p s1" "view s1 = fold emit (cstr fb) (view st)"
      using fdputs_at [OF assms(1,4)] by blast
    obtain s2 where s2: "ece391_fdputs os 1 (msg '':'') s1 = Some s2" "at p s2" "view s2 = emit (of_char (CHR '':'')) (view s1)"
      using fdputs_at [OF s1(2), of "msg '':''"] by (auto simp: bytes_def cstr_def)
    obtain s3 where s3: "ece391_fdputs os 1 (drop ls data) s2 = Some s3" "at p s3" "view s3 = fold emit l (view s2)"
      using fdputs_at [OF s2(2), of "drop ls data"] dl assms(5) by auto
    obtain s4 where s4: "ece391_fdputs os 1 (msgln '''') s3 = Some s4" "at p s4" "view s4 = emit 10 (view s3)"
      using fdputs_at [OF s3(2), of "msgln ''''"] by (auto simp: bytes_def cstr_def)
    have "check_line os (s @ 0 # q) (length s) fb data ls (ls + k) (ls + length l) st = Some s4"
      using k rd e d(2) True pc [OF True] s1(1) s2(1) s3(1) s4(1) by (subst check_line.simps) simp
    then show ?thesis using True k s4(2,3) s3(3) s2(3) s1(3) by auto
  next
    case False
    then have ne: "(if c = l ! k then d else 1) \<noteq> 0" using d(2) by simp
    have n: "n = length l - Suc k" "Suc k \<le> length l" using Suc.hyps(2) k by simp_all
    obtain st' where st': "check_line os (s @ 0 # q) (length s) fb data ls (ls + Suc k) (ls + length l) st = Some st'" "at p st'"
      "view st' = (if \<exists>j < length l. Suc k \<le> j \<and> prefix s (drop j l) then fold emit (cstr fb @ of_char (CHR '':'') # l @ [10]) (view st) else view st)"
      using Suc.hyps(1) [OF n] by blast
    have "(\<exists>j < length l. k \<le> j \<and> prefix s (drop j l)) \<longleftrightarrow> (\<exists>j < length l. Suc k \<le> j \<and> prefix s (drop j l))"
      using False by (metis Suc_leD le_antisym not_less_eq_eq)
    moreover have "check_line os (s @ 0 # q) (length s) fb data ls (ls + k) (ls + length l) st = Some st'"
      using k rd e ne st'(1) by (subst check_line.simps) simp
    ultimately show ?thesis using st'(2,3) by simp
  qed
qed

lemma check_whole_line:
  assumes "at p st" "0 \<notin> set s" "s \<noteq> []" "0 \<in> set fb" "0 \<notin> set l"
    and "ls + length l < length data" "take (length l) (drop ls data) = l" "data ! (ls + length l) = 0"
  shows "\<exists>st'. check_line os (s @ 0 # q) (length s) fb data ls ls (ls + length l) st = Some st' \<and> at p st'
    \<and> view st' = fold emit (grep_out (cstr fb) s [l]) (view st)"
  using check_line_eq [OF assms, of 0 q] sublist_drop [OF assms(3), of l] by (auto simp: grep_out_def split: if_splits)

lemma grep_lines_eq:
  assumes "0 \<notin> set s" "s \<noteq> []" "0 \<in> set fb"
  shows "at p st \<Longrightarrow> length data = 1025 \<Longrightarrow> lst \<le> 1024 \<Longrightarrow> ls \<le> lst \<Longrightarrow> R = take (lst - ls) (drop ls data) \<Longrightarrow> 0 \<notin> set R \<Longrightarrow>
    \<exists>data' lst' st'. grep_lines os (s @ 0 # q) (length s) fb cnt data lst ls st = Some (data', lst', st') \<and> at p st'
      \<and> lines_done emit (cstr fb) s cnt data lst ls R (view st) lst' data' (view st')"
proof (induction "lst - ls" arbitrary: ls data R st rule: less_induct)
  case less
  note pr = less.prems
  let ?l = "takeWhile (\<lambda>c. c \<noteq> 10) R"
  let ?e = "ls + length ?l"
  let ?d = "data[?e := 0]"
  have lR: "length R = lst - ls" using pr(2-5) by simp
  have sc: "scan_line data ls lst = Some ?e" using scan_line_eq [of lst data ls] pr(2-5) by simp
  have e: "?e \<le> lst" "rd data ?e = Some (data ! ?e)"
    using length_takeWhile_le [of "\<lambda>c. c \<noteq> 10" R] lR pr(2-4) by (simp_all add: rd_def)
  have tl: "take (length ?l) (drop ls ?d) = ?l"
  proof -
    have "take (length ?l) (drop ls ?d) = take (length ?l) (take (lst - ls) (drop ls data))"
      using length_takeWhile_le [of "\<lambda>c. c \<noteq> 10" R] lR by (simp add: drop_update_swap min_def)
    then show ?thesis using pr(5) takeWhile_eq_take [of "\<lambda>c. c \<noteq> 10" R] by simp
  qed
  have z: "0 \<notin> set ?l" using pr(6) by (auto dest: set_takeWhileD)
  obtain st1 where st1: "check_line os (s @ 0 # q) (length s) fb ?d ls ls ?e st = Some st1" "at p st1"
    "view st1 = fold emit (grep_out (cstr fb) s [?l]) (view st)"
    using check_whole_line [OF pr(1) assms z, of ls ?d q] tl e(1) pr(2,3) by auto
  have d24: "?d ! 1024 = data ! 1024 \<or> ?d ! 1024 = 0" using pr(2) by (cases "?e = 1024") simp_all
  show ?case
  proof (cases "10 \<in> set R")
    case True
    obtain R' where R: "R = ?l @ 10 # R'"
    proof -
      have "dropWhile (\<lambda>c. c \<noteq> 10) R \<noteq> []" using True by (auto simp: dropWhile_eq_Nil_conv)
      then have "dropWhile (\<lambda>c. c \<noteq> 10) R = 10 # tl (dropWhile (\<lambda>c. c \<noteq> 10) R)"
        using hd_dropWhile [of "\<lambda>c. c \<noteq> 10" R] by (cases "dropWhile (\<lambda>c. c \<noteq> 10) R") auto
      then show ?thesis using that takeWhile_dropWhile_id [of "\<lambda>c. c \<noteq> 10" R] by metis
    qed
    have n: "length ?l + Suc (length R') = lst - ls" using lR arg_cong [OF R, of length] by simp
    then have el: "?e < lst" using pr(4) by linarith
    have "R ! length ?l = 10" by (subst R) (simp add: nth_append)
    moreover have "R ! length ?l = data ! ?e" using pr(2-5) n by simp
    ultimately have c: "data ! ?e = 10" by simp
    have "R' = drop (Suc (length ?l)) R" by (subst (2) R) simp
    then have R': "R' = take (lst - Suc ?e) (drop (Suc ?e) ?d)" unfolding pr(5) by (simp add: drop_take add.commute)
    have sl: "split_lines R = ?l # split_lines R'" by (subst (1) R, rule split_lines_first) (auto dest: set_takeWhileD)
    have g: "grep_out (cstr fb) s (?l # xs) = grep_out (cstr fb) s [?l] @ grep_out (cstr fb) s xs" for xs
      using grep_out_append [of "cstr fb" s "[?l]" xs] by simp
    show ?thesis
    proof (cases "lst \<le> Suc ?e")
      case last: True
      then have "R' = []" using R' by simp
      then have "lines_done emit (cstr fb) s cnt data lst ls R (view st) 0 ?d (view st1)"
        using st1(3) d24 pr(2) sl g [of "[[]]"] grep_out_empty [OF assms(2), of "cstr fb"] by (auto simp: lines_done_def)
      moreover have "grep_lines os (s @ 0 # q) (length s) fb cnt data lst ls st = Some (?d, 0, st1)"
        using sc e(2) c st1(1) last by (subst grep_lines.simps) simp
      ultimately show ?thesis using st1(2) by blast
    next
      case more: False
      then have m: "lst - Suc ?e < lst - ls" "Suc ?e \<le> lst" using pr(4) by linarith+
      have nz: "0 \<notin> set R'" using pr(6) arg_cong [OF R, of set] by auto
      have ld: "length ?d = 1025" using pr(2) by simp
      obtain data' lst' st' where ih: "grep_lines os (s @ 0 # q) (length s) fb cnt ?d lst (Suc ?e) st1 = Some (data', lst', st')" "at p st'"
        "lines_done emit (cstr fb) s cnt ?d lst (Suc ?e) R' (view st1) lst' data' (view st')"
        using less.hyps [OF m(1) st1(2) ld pr(3) m(2) R' nz] by blast
      have "lines_done emit (cstr fb) s cnt data lst ls R (view st) lst' data' (view st')"
        using ih(3) d24 True sl g [of "split_lines R'"] g [of "butlast (split_lines R')"] el st1(3) unfolding lines_done_def by auto
      moreover have "grep_lines os (s @ 0 # q) (length s) fb cnt data lst ls st = Some (data', lst', st')"
        using sc e(2) c st1(1) more ih(1) by (subst grep_lines.simps) simp
      ultimately show ?thesis using ih(2) by blast
    qed
  next
    case False
    then have l: "?l = R" by (auto simp: takeWhile_eq_all_conv)
    have "ls + length R = lst" using lR pr(4) by simp
    note f = sc [unfolded l this] e(2) [unfolded l this] tl [unfolded l this] d24 [unfolded l this] st1(1) [unfolded l this] st1(3) [unfolded l]
      this
    show ?thesis
    proof (cases "data ! lst \<noteq> 10 \<and> cnt \<noteq> 0 \<and> ls \<noteq> 0")
      case True
      let ?d' = "R @ 0 # drop (Suc (length R)) (data[lst := 0])"
      have sd: "ece391_strcpy (data[lst := 0]) 0 ls = Some ?d'"
        using strcpy_down [of R 0 ls "data[lst := 0]"] pr(2-4,6) True f(3,7) by simp
      have r: "length R < 1024" using lR True pr(3,4) by auto
      then have "length ?d' = 1025" "?d' ! 1024 = data[lst := 0] ! 1024" using pr(2) by (simp_all add: nth_append nth_Cons')
      then have "lines_done emit (cstr fb) s cnt data lst ls R (view st) (lst - ls) ?d' (view st)"
        using True lR f(4) split_lines_line [OF False] by (simp add: lines_done_def grep_out_def)
      moreover have "grep_lines os (s @ 0 # q) (length s) fb cnt data lst ls st = Some (?d', lst - ls, st)"
        using f(1,2) True sd pr(2,3) by (subst grep_lines.simps) simp
      ultimately show ?thesis using pr(1) by blast
    next
      case c: False
      have "grep_lines os (s @ 0 # q) (length s) fb cnt data lst ls st = Some (data[lst := 0], 0, st1)"
        using f(1,2,5) c by (subst grep_lines.simps) auto
      moreover have "lines_done emit (cstr fb) s cnt data lst ls R (view st) 0 (data[lst := 0]) (view st1)"
        using f(4,6) c False pr(2) split_lines_line [OF False] by (auto simp: lines_done_def)
      ultimately show ?thesis using st1(2) by blast
    qed
  qed
qed

lemma grep_file_at:
  assumes "0 \<notin> set s" "s \<noteq> []" "0 \<in> set fb"
  shows "at p st \<Longrightarrow> length data = 1025 \<Longrightarrow> data ! 1024 \<noteq> 10 \<Longrightarrow> lst < 1024 \<Longrightarrow> T = take lst data @ drop p content \<Longrightarrow> 0 \<notin> set T \<Longrightarrow>
    \<forall>l \<in> set (split_lines T). length l < 1024 \<Longrightarrow>
    \<exists>st'. grep_file os (s @ 0 # q) (length s) fb fd data lst st = Some (0, st') \<and> closed st'
      \<and> view st' = fold emit (grep_out (cstr fb) s (split_lines T)) (view st)"
proof (induction "length content - p" arbitrary: p st data lst T rule: less_induct)
  case less
  note pr = less.prems
  define c where "c = take (1024 - lst) (drop p content)"
  have b: "0 < 1024 - lst" "1024 - lst \<le> 1024" "1024 - lst \<le> length (drop lst data)" "int (1024 - lst) = 1024 - int lst" using pr(2,4) by simp_all
  obtain s1 where s1: "os_read os fd (drop lst data) (1024 - int lst) st = Some (c @ drop (length c) (drop lst data), int (length c), s1)"
    "at (p + length c) s1" "view s1 = view st" using read_at [OF pr(1) b(1-3) c_def] b(4) by auto
  let ?d = "take lst data @ c @ drop (length c) (drop lst data)"
  let ?R = "take lst data @ c"
  let ?t = "drop (p + length c) content"
  have c: "length c \<le> 1024 - lst" by (simp add: c_def)
  have d: "length ?d = 1025" "?d ! 1024 = data ! 1024" "?R = take (length ?R - 0) (drop 0 ?d)" "length ?R \<le> 1024" "length ?R = lst + length c"
    using pr(2,4) c by (simp_all add: nth_append)
  have dp: "drop p content = c @ ?t"
    using append_take_drop_id [of "1024 - lst" "drop p content"] by (auto simp: c_def min_def add.commute)
  then have T: "T = ?R @ ?t" using pr(5) by simp
  then have z: "0 \<notin> set ?R" using pr(6) by simp
  obtain data' lst' s2 where s2: "grep_lines os (s @ 0 # q) (length s) fb (int (length c)) ?d (lst + length c) 0 s1 = Some (data', lst', s2)"
    "at (p + length c) s2" "lines_done emit (cstr fb) s (int (length c)) ?d (length ?R) 0 ?R (view s1) lst' data' (view s2)"
    using grep_lines_eq [OF assms s1(2) d(1,4) le0 d(3) z, of q "int (length c)"] d(5) by auto
  have p: "p \<le> length content" using at_ok [OF pr(1)] by simp
  show ?case
  proof (cases "length c = 0")
    case True
    then have t: "?t = []" "?R = T" using T b(1) p by (simp_all add: c_def)
    have v: "view s2 = fold emit (grep_out (cstr fb) s (split_lines T)) (view st)"
      using s2(3) s1(3) True t(2) by (auto simp: lines_done_def)
    obtain s3 where "os_close os fd s2 = Some (0, s3)" "closed s3" "view s3 = view s2" using close_at [OF s2(2)] by blast
    then show ?thesis using s1(1) s2(1) True v by (subst grep_file.simps) auto
  next
    case False
    have "?t = [] \<or> length ?R = 1024" using d(5) pr(4) by (cases "length content - p \<le> 1024 - lst") (auto simp: c_def)
    then have n: "fold emit (grep_out (cstr fb) s (split_lines (take lst' data' @ ?t))) (view s2) = fold emit (grep_out (cstr fb) s (split_lines T)) (view s1)
      \<and> lst' < 1024 \<and> set (take lst' data') \<subseteq> set ?R \<and> (\<forall>l \<in> set (split_lines (take lst' data' @ ?t)). length l < 1024)"
      unfolding T by (intro lines_done_rest [OF s2(3) _ assms(2)]) (use False d(2) pr(3,7) T in simp_all)
    have "length content - (p + length c) < length content - p" using False by (auto simp: c_def)
    moreover have "length data' = 1025" "data' ! 1024 \<noteq> 10" using s2(3) d(2) pr(3) by (auto simp: lines_done_def)
    moreover have "0 \<notin> set (take lst' data' @ ?t)" using n z pr(6) T by auto
    ultimately obtain s3 where "grep_file os (s @ 0 # q) (length s) fb fd data' lst' s2 = Some (0, s3)" "closed s3"
      "view s3 = fold emit (grep_out (cstr fb) s (split_lines (take lst' data' @ ?t))) (view s2)"
      using less.hyps [OF _ s2(2), of data' lst' "take lst' data' @ ?t"] n by auto
    then show ?thesis using s1(1,3) s2(1) n False by (subst grep_file.simps) auto
  qed
qed

end

subsection \<open>On the kernel\<close>

lemma close_file:
  assumes "kfile_at st fd img ino p (s, bt)"
  shows "\<exists>s'. os_close (kernel_os prog) fd (s, bt) = Some (0, (s', bt)) \<and> closed_at st fd (s', bt) \<and> kview (s', bt) = kview (s, bt)"
proof -
  have a: "only_files st (s, bt)" "out_ok s" "2 \<le> fd" "file_at fd ino (of_nat p) s" "other_fds fd (fst st) s"
    using assms by (simp_all add: kfile_at_def)
  have c: "cur_ok s" using a(2) by (simp add: out_ok_def)
  note d = cur_okD [OF c]
  let ?s = "set_fd (cur_pid s) (nat fd) closed_entry s"
  have "rd_int (file_descriptor_table (pcbs s (cur_pid s))) fd = Some (fdt_of (cur_pid s) s ! nat fd)"
    using a(3,4) d(2,4) by (simp add: file_at_def rd_int_def rd_def nat_less_iff)
  then have "sys_close fd s = Some (0, ?s)" using a(3,4) d(1) tables_readyD(1) [OF d(3)]
    by (simp add: file_at_def sys_close_def call_close_def Let_def)
  moreover have "out_ok ?s" by (rule out_ok_set_fd) (use a in \<open>auto simp: file_at_def closed_entry_def\<close>)
  moreover have "only_files st (?s, bt)" by (rule only_files_set_fd) (rule a(1))
  moreover have "fdt_of (cur_pid s) ?s = (fdt_of (cur_pid s) s)[nat fd := closed_entry]" "read_index ?s = read_index s"
    by (simp add: fdt_of_def) (simp add: set_fd_def)
  ultimately show ?thesis using a(5) only_files_cur [OF a(1)] by (auto simp: closed_at_def other_fds_def kernel_os_def kview_def)
qed

interpretation kgrep: file_handle "kernel_os prog" "\<lambda>(s, bt). out_ok s" kview putc fd "file_content img (unat ino)" "kfile_at st fd img ino"
  "closed_at st fd" for prog st fd img ino
proof unfold_locales
  fix p and s :: "'a session"
  assume "kfile_at st fd img ino p s"
  then show "\<exists>s'. os_close (kernel_os prog) fd s = Some (0, s') \<and> closed_at st fd s' \<and> kview s' = kview s"
    using close_file [of st fd img ino p "fst s" "snd s" prog] by auto
qed

lemma do_one_file_on_kernel:
  assumes "out_ok s" "fs_wf (fs_img s)" "free_fd s" "entry_type (fs_img s) (cstr fb) = Some (2, ino)" "unat ino < img32 (fs_img s) 4"
    and "0 \<in> set fb" "0 \<notin> set pat" "pat \<noteq> []" "length data = 1025" "data ! 1024 \<noteq> 10" "text_lines (file_content (fs_img s) (unat ino))"
  shows "\<exists>fd s'. do_one_file (kernel_os prog) data (pat @ 0 # q) fb (s, bt) = Some (0, (s', bt)) \<and> closed_at (s, bt) fd (s', bt)
    \<and> 2 \<le> fd \<and> fd < 8 \<and> fd_flags (fdt_of (cur_pid s) s ! nat fd) = 0
    \<and> screen.truncate s' = fold putc (grep_out (cstr fb) pat (split_lines (file_content (fs_img s) (unat ino)))) (screen.truncate s)"
proof -
  obtain fd u where fd: "os_open (kernel_os prog) fb (s, bt) = Some (fd, (u, bt))" "2 \<le> fd" "fd < 8"
    "fd_flags (fdt_of (cur_pid s) s ! nat fd) = 0" "kfile_at (s, bt) fd (fs_img s) ino 0 (u, bt)" "kview (u, bt) = kview (s, bt)"
    using open_file_at [OF assms(1-6), of prog bt] by blast
  obtain st' where st': "grep_file (kernel_os prog) (pat @ 0 # q) (length pat) fb fd data 0 (u, bt) = Some (0, st')"
    "closed_at (s, bt) fd st'" "kview st' = fold putc (grep_out (cstr fb) pat (split_lines (file_content (fs_img s) (unat ino)))) (kview (s, bt))"
    using kgrep.grep_file_at [OF assms(7,8,6) fd(5) assms(9,10), of 0 "file_content (fs_img s) (unat ino)" prog q] assms(11) fd(6)
    by (auto simp: text_lines_def)
  obtain s' bt' where s': "st' = (s', bt')" by (cases st')
  then have "bt' = bt" using st'(2) by (simp add: closed_at_def only_files_def)
  moreover have "ece391_strlen (pat @ 0 # q) = Some (length pat)" using assms(7) by (simp add: ece391_strlen_eq)
  ultimately show ?thesis using s' st' fd by (intro exI [of _ fd] exI [of _ s']) (simp add: do_one_file_def kview_def)
qed

lemma only_files_img: "only_files (s, bt) (s', bt') \<Longrightarrow> fs_img s' = fs_img s \<and> bt' = bt"
  by (cases s; cases s') (auto simp: only_files_def)

text \<open>A file has been searched while the directory is open: the place in the directory and the free descriptors are as before.\<close>

lemma kdir_after_file:
  assumes "kdir_at st fd img k (s, bt)" "closed_at (s, bt) fd' (s', bt)" "free_fd s" "2 \<le> fd'" "fd' < 8" "fd_flags (fdt_of (cur_pid s) s ! nat fd') = 0"
  shows "kdir_at st fd img k (s', bt)" "free_fd s'"
proof -
  have c: "only_files (s, bt) (s', bt)" "cur_pid s' = cur_pid s" "fdt_of (cur_pid s) s' = (fdt_of (cur_pid s) s)[nat fd' := closed_entry]"
    "read_index s' = read_index s" "out_ok s'"
    using assms(2) only_files_cur [of "(s, bt)" s' bt] by (auto simp: closed_at_def)
  have k: "fd_flags (fdt_of (cur_pid s) s ! nat fd) = 1" "out_ok s" using assms(1) by (simp_all add: kdir_at_def)
  then have n: "nat fd \<noteq> nat fd'" using assms(6) by auto
  show "kdir_at st fd img k (s', bt)" using assms(1) c n only_files_trans [OF _ c(1), of st] only_files_img [OF c(1)]
    by (simp add: kdir_at_def)
  have "length (fdt_of (cur_pid s) s) = 8" using k(2) cur_okD(2) by (auto simp: out_ok_def)
  then have "fd_flags (fdt_of (cur_pid s) s' ! i) = 0" if "fd_flags (fdt_of (cur_pid s) s ! i) = 0" "i < 8" for i
    using that c(3) by (cases "i = nat fd'") (simp_all add: closed_entry_def)
  then show "free_fd s'" using assms(3) c(2) by (auto simp: free_fd_def list_ex_iff)
qed

lemma grep_dir_on_kernel:
  assumes "0 \<notin> set pat" "pat \<noteq> []" "length data = 1025" "data ! 1024 \<noteq> 10"
  shows "kdir_at st fd img k (s, bt) \<Longrightarrow> free_fd s \<Longrightarrow> length buf = 33 \<Longrightarrow> \<forall>name \<in> set (drop k (dir_names img)). searchable img name \<Longrightarrow>
    \<exists>s'. grep_dir (kernel_os prog) data (pat @ 0 # q) fd buf (s, bt) = Some (0, (s', bt)) \<and> kdir_at st fd img (length (dir_names img)) (s', bt)
      \<and> screen.truncate s' = fold putc (concat (map (searched img pat) (drop k (dir_names img)))) (screen.truncate s)"
proof (induction "length (dir_names img) - k" arbitrary: k s buf)
  case 0
  then have k: "k = length (dir_names img)" by (simp add: kdir_at_def)
  obtain b' s' where "kernel_read fd buf 32 (s, bt) = Some (b', 0, (s', bt))" "kdir_at st fd img k (s', bt)" "screen.truncate s' = screen.truncate s"
    using kdir_read [OF 0(2,4)] k by auto
  then show ?case using k by (subst grep_dir.simps) (auto simp: kernel_os_def)
next
  case (Suc n)
  have k: "k < length (dir_names img)" "n = length (dir_names img) - Suc k" using Suc(2) by simp_all
  let ?n = "dir_names img ! k"
  obtain b s1 where s1: "kernel_read fd buf 32 (s, bt) = Some (b, int (length ?n), (s1, bt))" "length b = 33" "take (length ?n) b = ?n"
    "kdir_at st fd img (Suc k) (s1, bt)" "screen.truncate s1 = screen.truncate s" "free_fd s1"
    using kdir_read [OF Suc.prems(1,3)] k(1) Suc.prems(2) by auto
  have dr: "drop k (dir_names img) = ?n # drop (Suc k) (dir_names img)" using k by (simp add: Cons_nth_drop_Suc)
  have n: "0 < length ?n" "length ?n \<le> 32" "0 \<notin> set ?n"
    using kdir.names_fit [OF Suc.prems(1), of ?n] k(1) by (simp_all add: dir_names_def entry_name_def)
  then have h: "rd b 0 = Some (hd ?n)" using s1(2,3) by (cases ?n; cases b) auto
  have sr: "searchable img ?n" "\<forall>name \<in> set (drop (Suc k) (dir_names img)). searchable img name"
    using Suc.prems(4) dr by simp_all
  show ?case
  proof (cases "hd ?n = of_char (CHR ''.'')")
    case True
    then show ?thesis using Suc.hyps(1) [OF k(2) s1(4,6,2) sr(2)] s1(1,5) h n dr
      by (subst grep_dir.simps) (auto simp: kernel_os_def searched_def)
  next
    case False
    let ?b = "b[length ?n := 0]"
    obtain ino where ino: "entry_type img ?n = Some (2, ino)" "unat ino < img32 img 4" "text_lines (file_content img (unat ino))"
      using sr(1) False by (auto simp: searchable_def split: option.splits)
    have "?b = ?n @ 0 # drop (Suc (length ?n)) b" using s1(2,3) n by (simp add: upd_conv_take_nth_drop)
    then have b: "0 \<in> set ?b" "cstr ?b = ?n" using n(3) by (metis in_set_conv_decomp, metis cstr_append_nul)
    have o: "out_ok s1" "fs_wf (fs_img s1)" "fs_img s1 = img" using s1(4) by (simp_all add: kdir_at_def)
    obtain fd' s2 where s2: "do_one_file (kernel_os prog) data (pat @ 0 # q) ?b (s1, bt) = Some (0, (s2, bt))" "closed_at (s1, bt) fd' (s2, bt)"
      "2 \<le> fd'" "fd' < 8" "fd_flags (fdt_of (cur_pid s1) s1 ! nat fd') = 0"
      "screen.truncate s2 = fold putc (grep_out ?n pat (split_lines (file_content img (unat ino)))) (screen.truncate s1)"
      using do_one_file_on_kernel [OF o(1,2) s1(6) _ _ b(1) assms, of ino prog q bt] ino b(2) o(3) by auto
    note kd = kdir_after_file [OF s1(4) s2(2) s1(6) s2(3-5)]
    have "wr_int b (int (length ?n)) 0 = Some ?b" using s1(2) n by simp
    moreover have "searched img pat ?n = grep_out ?n pat (split_lines (file_content img (unat ino)))" using False ino(1) by (simp add: searched_def)
    ultimately show ?thesis using Suc.hyps(1) [OF k(2) kd _ sr(2), of ?b] s1(1,2,5) s2(1,6) h n dr False
      by (subst grep_dir.simps) (auto simp: kernel_os_def)
  qed
qed

lemma grep_on_kernel:
  assumes "out_ok s" "fs_wf (fs_img s)" "[] \<notin> set (dir_names (fs_img s))" "2 \<le> free_fds s" "entry_type (fs_img s) [of_char (CHR ''.'')] = Some (1, ino)"
    and "read_index s = of_nat k" "k \<le> length (dir_names (fs_img s))" "args_of s \<noteq> []"
    and "\<forall>name \<in> set (drop k (dir_names (fs_img s))). searchable (fs_img s) name"
    and "length data = 1025" "data ! 1024 \<noteq> 10" "length buf = 33" "length search = 1024"
  shows "\<exists>s'. grep_main (kernel_os prog) data buf search (s, bt) = Some (0, (s', bt)) \<and> only_files (s, bt) (s', bt) \<and> out_ok s'
    \<and> screen.truncate s' = fold putc (concat (map (searched (fs_img s) (args_of s)) (drop k (dir_names (fs_img s))))) (screen.truncate s)
    \<and> dir_held [2, 3, 4, 5, 6, 7] s'"
proof -
  have c: "cur_ok s" "0 \<notin> set (args_of s)" using assms(1) by (simp_all add: out_ok_def args_of_def)
  obtain fd u where fd: "os_open (kernel_os prog) (msg ''.'') (s, bt) = Some (fd, (u, bt))" "2 \<le> fd" "kdir_at (s, bt) fd (fs_img s) k (u, bt)"
    "kview (u, bt) = kview (s, bt)" "free_fd u"
    using open_dir_at [OF assms(1-3) free_fds_other(1) [OF assms(4)] assms(5-7), of prog bt] free_fds_other(2) [OF assms(4)] by auto
  let ?q = "drop (Suc (length (args_of s))) search"
  have g: "os_getargs (kernel_os prog) search 1024 (s, bt) = Some (args_of s @ 0 # ?q, 0, (s, bt))"
    using getargs_args(1) [OF c(1) assms(8), of 1024 search] assms(13) by (simp add: kernel_os_def)
  obtain s' where s': "grep_dir (kernel_os prog) data (args_of s @ 0 # ?q) fd buf (u, bt) = Some (0, (s', bt))"
    "kdir_at (s, bt) fd (fs_img s) (length (dir_names (fs_img s))) (s', bt)"
    "screen.truncate s' = fold putc (concat (map (searched (fs_img s) (args_of s)) (drop k (dir_names (fs_img s))))) (screen.truncate u)"
    using grep_dir_on_kernel [OF c(2) assms(8,10,11) fd(3,5) assms(12,9), of prog ?q] by blast
  have "grep_main (kernel_os prog) data buf search (s, bt) = Some (0, (s', bt))"
    using g fd(1,2) s'(1) by (simp add: grep_main_def)
  then show ?thesis using s'(2,3) fd(4) kdir_held [OF s'(2)] by (auto simp: kdir_at_def kview_def)
qed

lemma grep_prints:
  assumes "fs_wf img" "[] \<notin> set (dir_names img)" "entry_type img [of_char (CHR ''.'')] = Some (1, ino)" "pat \<noteq> []"
    and "\<forall>name \<in> set (dir_names img). searchable img name"
    and "length data = 1025" "data ! 1024 \<noteq> 10" "length buf = 33" "length search = 1024"
  shows "prints (grep_main (kernel_os p) data buf search) img pat (concat (map (searched img pat) (dir_names img))) 0"
  unfolding prints_def using grep_on_kernel [of _ ino 0 data buf search p] assms by fastforce


subsection \<open>Instances\<close>

lemma length_text_img: "length text_img = 12288" "length demo_text = 28"
  by (simp_all add: text_img_def demo_text_def length_user_img bytes_def)

lemma text_img_words:
  "img32 text_img 0 = 2" "img32 text_img 4 = 1" "img32 text_img 8 = 1" "img32 text_img 4096 = 28" "img32 text_img 4100 = 0"
  by (simp_all add: img32_def rd32_def rd_def length_text_img) (simp_all add: text_img_def user_img_def nth_append le32_def)

lemma text_img_wf: "fs_wf text_img"
  by (simp add: fs_wf_def inode_ok_def text_img_words length_text_img file_len_def file_block_def)

lemma text_img_content: "file_content text_img 0 = demo_text"
proof -
  have "content_byte text_img 0 i = demo_text ! i" if "i < 28" for i
    using that by (simp add: content_byte_def file_block_def text_img_words)
      (simp add: text_img_def nth_append length_text_img length_user_img)
  then show ?thesis
    by (intro nth_equalityI) (simp_all add: file_content_def file_len_def text_img_words length_text_img)
qed

lemma text_img_lookup:
  "dir_names text_img = [[46], [99, 97, 116]]" "entry_type text_img [46] = Some (1, 0)" "entry_type text_img [99, 97, 116] = Some (2, 0)"
proof -
  have "entry_name text_img 0 = [46]" "entry_name text_img 1 = [99, 97, 116]"
    "rd_dentry text_img 0 = Some \<lparr>file_name = [46] @ replicate 31 0, file_type = 1, inode_num = 0\<rparr>"
    "rd_dentry text_img 1 = Some \<lparr>file_name = [99, 97, 116] @ replicate 29 0, file_type = 2, inode_num = 0\<rparr>"
    by (simp_all add: entry_name_def rd_dentry_def dentry_off_def rd32_def rd_def length_text_img)
      (simp_all add: text_img_def user_img_def nth_append le32_def cstr_def)
  then show "dir_names text_img = [[46], [99, 97, 116]]" "entry_type text_img [46] = Some (1, 0)" "entry_type text_img [99, 97, 116] = Some (2, 0)"
    using read_dentry_by_name_eq [OF text_img_wf, of "[46, 0]"] read_dentry_by_name_eq [OF text_img_wf, of "[99, 97, 116, 0]"]
    by (simp_all add: dir_names_def entry_type_def lookup_entry_def text_img_words upt_rec cstr_def)
qed

lemma demo_text_lines: "split_lines demo_text = [bytes ''a cat'', bytes ''no'', bytes ''the cats'', bytes ''ca t'', bytes ''last'', []]"
  "text_lines demo_text"
proof -
  have n: "10 \<notin> set (bytes ''a cat'')" "10 \<notin> set (bytes ''no'')" "10 \<notin> set (bytes ''the cats'')" "10 \<notin> set (bytes ''ca t'')"
    "10 \<notin> set (bytes ''last'')" by (simp_all add: bytes_def)
  show l: "split_lines demo_text = [bytes ''a cat'', bytes ''no'', bytes ''the cats'', bytes ''ca t'', bytes ''last'', []]"
    unfolding demo_text_def append_Cons append_Nil by (simp only: n split_lines_first not_False_eq_True) simp
  have "0 \<notin> set demo_text" by (simp add: demo_text_def bytes_def)
  then show "text_lines demo_text" unfolding text_lines_def l by (simp add: bytes_def)
qed

lemma text_img_searched: "searched text_img [99, 97, 116] [46] = []" "searchable text_img [46]" "searchable text_img [99, 97, 116]"
  "searched text_img [99, 97, 116] [99, 97, 116] = bytes ''cat:a cat'' @ [10] @ bytes ''cat:the cats'' @ [10]"
proof -
  have g: "grep_out [99, 97, 116] [99, 97, 116] (split_lines demo_text) = bytes ''cat:a cat'' @ [10] @ bytes ''cat:the cats'' @ [10]"
    unfolding demo_text_lines(1) grep_out_def by (simp add: bytes_def sublist_Cons_right)
  show "searched text_img [99, 97, 116] [46] = []" by (simp add: searched_def)
  show "searchable text_img [46]" by (simp add: searchable_def)
  show "searchable text_img [99, 97, 116]" using demo_text_lines(2)
    by (simp add: searchable_def text_img_content text_img_words text_img_lookup)
  show "searched text_img [99, 97, 116] [99, 97, 116] = bytes ''cat:a cat'' @ [10] @ bytes ''cat:the cats'' @ [10]"
    using g by (simp add: searched_def text_img_content text_img_lookup)
qed

lemma text_state_ok: "out_ok text_state" "free_fds text_state = 6" "fs_img text_state = text_img" "args_of text_state = [99, 97, 116]"
  "read_index text_state = 0"
proof -
  have "tables_ready text_state = tables_ready user_state" by (rule tables_ready_cong) (simp add: text_state_def)
  then have "out_ok text_state = out_ok user_state" by (simp add: out_ok_def cur_ok_def text_state_def fdt_of_def)
  then show "out_ok text_state" using user_state_ok(1) by simp
  show "fs_img text_state = text_img" "args_of text_state = [99, 97, 116]" "read_index text_state = 0"
    using user_state_ok(4,5) by (simp_all add: text_state_def args_of_def)
  have "cur_pid user_state = cur_pid (boot_proc user_img)" by (simp add: user_state_def)
  then show "free_fds text_state = 6"
    by (simp add: free_fds_def text_state_def user_state_def fdt_of_def closed_entry_def upt_rec)
qed


end
