(* ===== verification/User_System.thy ===== *)
theory User_System
  imports User_Grep
begin

text \<open>
  The system as its user sees it: commands typed at the shell that run the models of the programs themselves, each started by
  the kernel's execute and ended by its halt.
\<close>

text \<open>What the local arrays of the programs hold when they start.\<close>

record stack_junk =
  line_junk :: buf
  name_junk :: buf

definition junk_ok :: "stack_junk \<Rightarrow> bool" where
  "junk_ok j \<longleftrightarrow> length (line_junk j) = 1024 \<and> length (name_junk j) = 33"

text \<open>The programs by name; none of these starts another one.\<close>

definition user_program :: "stack_junk \<Rightarrow> buf \<Rightarrow> 'a session \<Rightarrow> (int \<times> 'a session) option" where
  "user_program j name =
     (let os = kernel_os (\<lambda>_ _. None)
      in if name = bytes ''cat'' then cat_main os (line_junk j)
         else if name = bytes ''ls'' then ls_main os (name_junk j)
         else if name = bytes ''testprint'' then testprint_main os
         else (\<lambda>_. None))"

text \<open>Commands, what is typed for them, and what they show over an image.\<close>

datatype command = Cat buf | Ls | Testprint | Unknown buf

fun command_name :: "command \<Rightarrow> buf" where
  "command_name (Cat f) = bytes ''cat''"
| "command_name Ls = bytes ''ls''"
| "command_name Testprint = bytes ''testprint''"
| "command_name (Unknown w) = w"

fun command_args :: "command \<Rightarrow> buf" where
  "command_args (Cat f) = f"
| "command_args _ = []"

fun command_line :: "command \<Rightarrow> buf" where
  "command_line (Cat f) = bytes ''cat '' @ f"
| "command_line c = command_name c"

fun command_text :: "buf \<Rightarrow> command \<Rightarrow> buf" where
  "command_text img (Cat f) = (case entry_type img f of Some (t, ino) \<Rightarrow> file_content img (unat ino) | None \<Rightarrow> [])"
| "command_text img Ls = concat (map (\<lambda>name. name @ [NL]) (dir_names img))"
| "command_text img Testprint = bytes ''Hello, if this ran, the program was correct. Yay!'' @ [NL]"
| "command_text img (Unknown w) = bytes ''no such command'' @ [NL]"

text \<open>An executable that fits the program page, and the commands that can be typed over an image.\<close>

definition fits :: "buf \<Rightarrow> buf \<Rightarrow> bool" where
  "fits img name \<longleftrightarrow> (case exec_file img name of Some ino \<Rightarrow> file_len img (unat ino) \<le> 0x3B8000 | None \<Rightarrow> False)"

fun command_ok :: "buf \<Rightarrow> command \<Rightarrow> bool" where
  "command_ok img (Cat f) \<longleftrightarrow> fits img (bytes ''cat'') \<and> 0 \<notin> set f \<and> NL \<notin> set f \<and> length f < 124
     \<and> (case entry_type img f of Some (t, ino) \<Rightarrow> t = 2 \<and> unat ino < img32 img 4 | None \<Rightarrow> False)"
| "command_ok img Ls \<longleftrightarrow> fits img (bytes ''ls'') \<and> [] \<notin> set (dir_names img)
     \<and> (case entry_type img (bytes ''.'') of Some (t, ino) \<Rightarrow> t = 1 | None \<Rightarrow> False)"
| "command_ok img Testprint \<longleftrightarrow> fits img (bytes ''testprint'')"
| "command_ok img (Unknown w) \<longleftrightarrow> w \<noteq> [] \<and> list_all name_char w \<and> length w < 128 \<and> w \<noteq> bytes ''exit'' \<and> exec_file img w = None"

lemma command_answers:
  assumes "fs_wf img" "junk_ok j" "command_ok img c"
  shows "answers (user_program j) img (command_name c) (command_args c) (command_line c) (command_text img c)"
proof (cases c)
  case (Cat f)
  then obtain ino where f: "0 \<notin> set f" "NL \<notin> set f" "length f < 124" "entry_type img f = Some (2, ino)" "unat ino < img32 img 4"
    using assms(3) by (auto split: option.splits)
  have "prints (cat_main (kernel_os (\<lambda>_ _. None)) (line_junk j)) img f (file_content img (unat ino)) 0"
    by (rule cat_prints) (use f assms(1,2) in \<open>simp_all add: fits_def junk_ok_def\<close>)
  moreover have "parse_command ((bytes ''cat '' @ f) @ 0 # r) = Some (bytes ''cat'', f)" for r
    using parse_with_args [of "bytes ''cat''" f 0 r] f by (simp add: name_char_def bytes_def)
  ultimately show ?thesis using Cat f assms(1,3)
    by (auto simp: answers_def fits_def user_program_def bytes_def split: option.splits)
next
  case Ls
  then obtain ino where d: "entry_type img [of_char (CHR ''.'')] = Some (1, ino)"
    using assms(3) by (auto simp: bytes_def split: option.splits)
  have "prints (ls_main (kernel_os (\<lambda>_ _. None)) (name_junk j)) img [] (concat (map (\<lambda>name. name @ [NL]) (dir_names img))) 0"
    by (rule ls_prints [OF _ _ d]) (use Ls assms in \<open>simp_all add: fits_def junk_ok_def\<close>)
  moreover have "parse_command (bytes ''ls'' @ 0 # r) = Some (bytes ''ls'', [])" for r
    using parse_no_args [of "bytes ''ls''" 0 r] by (simp add: name_char_def bytes_def)
  ultimately show ?thesis using Ls assms(1,3)
    by (auto simp: answers_def fits_def user_program_def bytes_def split: option.splits)
next
  case Testprint
  have "parse_command (bytes ''testprint'' @ 0 # r) = Some (bytes ''testprint'', [])" for r
    using parse_no_args [of "bytes ''testprint''" 0 r] by (simp add: name_char_def bytes_def)
  then show ?thesis using Testprint assms(1,3) testprint_meets
    by (auto simp: answers_def fits_def user_program_def bytes_def split: option.splits)
next
  case (Unknown w)
  have "parse_command (w @ 0 # r) = Some (w, [])" for r
    using parse_no_args [of w 0 r] assms(3) Unknown by simp
  then show ?thesis using Unknown assms(3) by (auto simp: answers_def list_all_iff name_char_def)
qed

text \<open>
  C6. The commands of the system on its own programs: with the shell waiting and a free process number, typing \<open>cat\<close> and the
  name of a file shows exactly the bytes of that file, \<open>ls\<close> the names of the directory, one on a line, \<open>testprint\<close> its
  greeting, and a name that is no executable the message of the shell.  Each program is the model of its source, with anything in
  its local arrays, run by the kernel's own execute, read, open, close and halt; after it the shell waits as before, with the same
  process numbers in use and, apart from the display and the frame the program was loaded to, the same memory.
\<close>

theorem typed_commands_run:
  assumes "shell_ready s" "fs_img s = img" "junk_ok j" "command_ok img c" "map key_char ks = map Some (command_line c)"
    and "length buf = 1024" "least_free (pid_array s) i" "3 \<le> i"
  shows "\<exists>s1 s' buf'. each keyboard_handler (ks @ [0x1C]) (fold putc (bytes ''391OS> '') s) = Some s1
    \<and> shell_loop (kernel_os (user_program j)) buf (s, map keyboard_handler (ks @ [0x1C]) # bt)
        = shell_loop (kernel_os (user_program j)) buf' (s', bt)
    \<and> length buf' = 1024 \<and> shell_ready s' \<and> pid_array s' = pid_array s \<and> cur_pid s' = cur_pid s \<and> fs_img s' = img
    \<and> display s' = display (fold putc (command_text img c) (s1\<lparr>pmem := loaded img i (command_name c) (pmem s1)\<rparr>))"
proof -
  have "fs_wf img" using assms(1,2) by (simp add: shell_ready_def)
  then show ?thesis
    using shell_command [OF assms(1,5,6) _ assms(7,8), of "user_program j" "command_name c" "command_args c" "command_text img c" bt]
      command_answers [OF _ assms(3,4)] by (simp add: assms(2))
qed

subsection \<open>An instance\<close>

lemma user_state_command: "fs_img user_state = user_img" "command_ok user_img (Cat [99, 97, 116])"
proof -
  have e: "exec_file user_img [99, 97, 116] = Some 0"
    using read_dentry_by_name_eq [OF user_img_wf, of "[99, 97, 116, 0]"] user_img_entries
    by (simp add: exec_file_def lookup_entry_def user_img_words upt_rec cstr_def user_img_content)
  show "command_ok user_img (Cat [99, 97, 116])" "fs_img user_state = user_img"
    using e user_img_content(1) user_img_lookup(3) by (simp_all add: user_state_ok fits_def user_img_words bytes_def)
qed

theorem typed_commands_run_witness:
  "\<exists>s1 s'. each keyboard_handler ([0x2E, 0x1E, 0x14, 0x39, 0x2E, 0x1E, 0x14] @ [0x1C]) (fold putc (bytes ''391OS> '') user_state) = Some s1
    \<and> display (s' :: proc) = display (fold putc ([0x7F, 0x45, 0x4C, 0x46] @ replicate 20 0 @ [0x1C, 0x80, 0x04, 0x08])
        (s1\<lparr>pmem := loaded user_img 3 (bytes ''cat'') (pmem s1)\<rparr>))
    \<and> shell_ready s'"
proof -
  let ?j = "\<lparr>line_junk = replicate 1024 0, name_junk = replicate 33 0\<rparr>"
  have t: "file_content user_img 0 = command_text user_img (Cat [99, 97, 116])" by (simp add: user_img_lookup)
  have k: "map key_char [0x2E, 0x1E, 0x14, 0x39, 0x2E, 0x1E, 0x14] = map Some (command_line (Cat [99, 97, 116]))"
    using command_keys(1) by (simp add: bytes_def)
  have j: "junk_ok ?j" by (simp add: junk_ok_def)
  show ?thesis unfolding user_img_content(2) [symmetric] t
    using typed_commands_run [OF user_state_shell(1) user_state_command(1) j user_state_command(2) k length_replicate user_state_shell(2) order_refl, of 0 "[]"]
    unfolding command_name.simps by blast
qed

end
