(* ===== verification/Emulate.thy ===== *)
theory Emulate
  imports User_Kernel
begin

text \<open>
  The emulation of the system calls on a Linux host, \<^verbatim>\<open>syscalls/ece391emulate.c\<close> (the copy in \<^verbatim>\<open>fish\<close> is identical), with
  which the user programs were developed before the kernel could run them.  What it uses of the host is the record \<open>linux\<close>;
  it offers the same interface \<open>os\<close> as the kernel, and is compared with the kernel here.
\<close>

datatype wait_status = Exited int | Signaled nat

text \<open>
  The host: raw system calls give the contents of \<open>eax\<close>; \<open>lx_run\<close> is the child that \<open>fork\<close> and \<open>execv\<close> start with a path and an
  argument vector, up to \<open>wait\<close>; \<open>lx_opendir\<close> says whether the stream is not null, \<open>lx_mmap\<close> where the low memory is mapped.
\<close>

record 'h linux =
  lx_read :: "int \<Rightarrow> buf \<Rightarrow> int \<Rightarrow> 'h \<Rightarrow> (buf \<times> u32 \<times> 'h) option"
  lx_write :: "int \<Rightarrow> buf \<Rightarrow> int \<Rightarrow> 'h \<Rightarrow> (u32 \<times> 'h) option"
  lx_open :: "buf \<Rightarrow> 'h \<Rightarrow> u32 \<times> 'h"
  lx_close :: "int \<Rightarrow> 'h \<Rightarrow> u32 \<times> 'h"
  lx_run :: "buf \<Rightarrow> buf list \<Rightarrow> 'h \<Rightarrow> wait_status \<times> 'h"
  lx_opendir :: "'h \<Rightarrow> bool \<times> 'h"
  lx_readdir :: "'h \<Rightarrow> buf option \<times> 'h"
  lx_closedir :: "'h \<Rightarrow> 'h"
  lx_dev_null :: "'h \<Rightarrow> int \<times> 'h"
  lx_dev_mem :: "'h \<Rightarrow> int \<times> 'h"
  lx_mmap :: "int \<Rightarrow> 'h \<Rightarrow> u32 option \<times> 'h"
  lx_perror :: "'h \<Rightarrow> 'h"

text \<open>The variables of the emulation: the arguments on the initial stack, the directory, the memory descriptor, and the host.\<close>

record 'h emu =
  argv :: "buf list"
  dir_stream :: bool
  dir_fd :: int
  mem_fd :: int
  host :: 'h

text \<open>The wrappers of \<open>DO_CALL\<close>: the error numbers of the host become \<open>-1\<close>.\<close>

definition do_call :: "u32 \<Rightarrow> int" where
  "do_call eax = (if eax > 0xFFFFC000 then -1 else sint eax)"

text \<open>\<open>ece391_strcpy\<close> to another object, from index \<open>p\<close> on.\<close>

fun strcpy_to :: "buf \<Rightarrow> nat \<Rightarrow> buf \<Rightarrow> buf option" where
  "strcpy_to b p [] = None"
| "strcpy_to b p (c # src) = (case wr b p c of None \<Rightarrow> None | Some b' \<Rightarrow> if c \<noteq> 0 then strcpy_to b' (Suc p) src else Some b')"

subsection \<open>Execute\<close>

function scan_word :: "buf \<Rightarrow> nat \<Rightarrow> nat option" where
  "scan_word b i = (if i < length b then (if b ! i \<noteq> 0 \<and> b ! i \<noteq> SPACE \<and> b ! i \<noteq> NL then scan_word b (Suc i) else Some i) else None)"
  by pat_completeness auto
termination
  by (relation "measure (\<lambda>(b, i). length b - i)") auto

function skip_blanks :: "buf \<Rightarrow> nat \<Rightarrow> nat option" where
  "skip_blanks b i = (if i < length b then (if b ! i = SPACE then skip_blanks b (Suc i) else Some i) else None)"
  by pat_completeness auto
termination
  by (relation "measure (\<lambda>(b, i). length b - i)") auto

declare scan_word.simps [simp del] skip_blanks.simps [simp del]

lemma scan_bounds:
  "scan_word b i = Some j \<Longrightarrow> i \<le> j \<and> j < length b \<and> (b ! i \<noteq> 0 \<and> b ! i \<noteq> SPACE \<and> b ! i \<noteq> NL \<longrightarrow> i < j)"
proof (induction b i rule: scan_word.induct)
  case (1 b i)
  then show ?case by (subst (asm) (2) scan_word.simps) (auto split: if_splits)
qed

lemma skip_bounds: "skip_blanks b i = Some j \<Longrightarrow> i \<le> j \<and> j < length b \<and> b ! j \<noteq> SPACE"
proof (induction b i rule: skip_blanks.induct)
  case (1 b i)
  then show ?case by (subst (asm) (2) skip_blanks.simps) (auto split: if_splits)
qed

text \<open>The loop over the arguments; the pointers in \<open>args\<close>, of which there is room for 1024, are indices into the buffer.\<close>

function parse_args :: "buf \<Rightarrow> nat \<Rightarrow> nat list \<Rightarrow> (buf \<times> nat list) option" where
  "parse_args b scan args =
     (case skip_blanks b scan of
        None \<Rightarrow> None
      | Some i \<Rightarrow>
          if b ! i = 0 \<or> b ! i = NL then Some (b[i := 0], args)
          else if length args \<ge> 1024 then None
          else
            (case scan_word b i of
               None \<Rightarrow> None
             | Some j \<Rightarrow> if b ! j \<noteq> 0 then parse_args (b[j := 0]) (Suc j) (args @ [i]) else parse_args b j (args @ [i])))"
  by pat_completeness auto
termination
  by (relation "measure (\<lambda>(b, i, args). length b - i)") (auto dest!: scan_bounds skip_bounds)

declare parse_args.simps [simp del]

text \<open>\<open>buf\<close> is the uninitialised local buffer of 1026 bytes.\<close>

definition emu_execute :: "'h linux \<Rightarrow> buf \<Rightarrow> buf \<Rightarrow> 'h emu \<Rightarrow> (int \<times> 'h emu) option" where
  "emu_execute lx buf command s = do {
     n \<leftarrow> ece391_strlen command;
     if 1023 < n then Some (-1, s)
     else do {
       buf \<leftarrow> wr buf 0 (of_char (CHR ''.''));
       buf \<leftarrow> wr buf 1 (of_char (CHR ''/''));
       buf \<leftarrow> strcpy_to buf 2 command;
       scan \<leftarrow> scan_word buf 2;
       (buf, args) \<leftarrow> (if buf ! scan \<noteq> 0 then parse_args (buf[scan := 0]) (Suc scan) [0] else Some (buf, [0]));
       if length args \<ge> 1024 then None
       else do {
         let (status, h) = lx_run lx (cstr buf) (map (\<lambda>i. cstr (drop i buf)) args) (host s);
         Some (case status of Exited n \<Rightarrow> n | Signaled sig \<Rightarrow> if sig = 9 then -1 else 256, s\<lparr>host := h\<rparr>) } } }"

subsection \<open>Arguments\<close>

fun getargs_loop :: "buf list \<Rightarrow> buf \<Rightarrow> nat \<Rightarrow> int \<Rightarrow> (int \<times> buf) option" where
  "getargs_loop [] b p nbytes = (if nbytes < 1 then Some (-1, b) else do { b \<leftarrow> wr b p 0; Some (0, b) })"
| "getargs_loop (a # as) b p nbytes = do {
     len \<leftarrow> ece391_strlen a;
     if int len > nbytes then Some (-1, b)
     else do {
       b \<leftarrow> strcpy_to b p a;
       if as = [] then getargs_loop [] b (p + len) (nbytes - int len)
       else if nbytes - int len < 1 then Some (-1, b)
       else do { b \<leftarrow> wr b (p + len) SPACE; getargs_loop as b (p + len + 1) (nbytes - int len - 1) } } }"

definition emu_getargs :: "buf \<Rightarrow> int \<Rightarrow> 'h emu \<Rightarrow> (buf \<times> int \<times> 'h emu) option" where
  "emu_getargs buf nbytes s = map_option (\<lambda>(r, b). (b, r, s)) (getargs_loop (map (\<lambda>a. a @ [0]) (tl (argv s))) buf 0 nbytes)"

subsection \<open>Files\<close>

definition emu_open :: "'h linux \<Rightarrow> buf \<Rightarrow> 'h emu \<Rightarrow> (int \<times> 'h emu) option" where
  "emu_open lx filename s = do {
     d \<leftarrow> ece391_strcmp filename (msg ''.'');
     if d = 0 then
       (let (ok, h) = lx_opendir lx (host s); (fd, h) = lx_dev_null lx h
        in Some (fd, s\<lparr>dir_stream := ok, dir_fd := fd, host := h\<rparr>))
     else (let (rval, h) = lx_open lx filename (host s) in Some (do_call rval, s\<lparr>host := h\<rparr>)) }"

text \<open>The loop that fills the rest with zeros, and the loop over the name.\<close>

function dir_pad :: "buf \<Rightarrow> int \<Rightarrow> nat \<Rightarrow> (buf \<times> int) option" where
  "dir_pad b nbytes copied =
     (if nbytes > int copied \<and> 32 > copied
      then (case wr b copied 0 of None \<Rightarrow> None | Some b \<Rightarrow> dir_pad b nbytes (Suc copied))
      else Some (b, int copied))"
  by pat_completeness auto
termination
  by (relation "measure (\<lambda>(b, n, c). 32 - c)") auto

declare dir_pad.simps [simp del]

fun dir_copy :: "buf \<Rightarrow> buf \<Rightarrow> int \<Rightarrow> nat \<Rightarrow> (buf \<times> int) option" where
  "dir_copy [] b nbytes copied = None"
| "dir_copy (c # name) b nbytes copied =
     (if c \<noteq> 0
      then (case wr b copied c of
              None \<Rightarrow> None
            | Some b \<Rightarrow> if int (Suc copied) = nbytes then Some (b, nbytes)
                else if Suc copied = 32 then Some (b, 32) else dir_copy name b nbytes (Suc copied))
      else dir_pad b nbytes copied)"

definition emu_read :: "'h linux \<Rightarrow> int \<Rightarrow> buf \<Rightarrow> int \<Rightarrow> 'h emu \<Rightarrow> (buf \<times> int \<times> 'h emu) option" where
  "emu_read lx fd b nbytes s =
     (if \<not> dir_stream s \<or> dir_fd s \<noteq> fd
      then map_option (\<lambda>(b, r, h). (b, do_call r, s\<lparr>host := h\<rparr>)) (lx_read lx fd b nbytes (host s))
      else
        (let (de, h) = lx_readdir lx (host s)
         in case de of
              None \<Rightarrow> Some (b, 0, s\<lparr>host := h\<rparr>)
            | Some name \<Rightarrow> map_option (\<lambda>(b, r). (b, r, s\<lparr>host := h\<rparr>)) (dir_copy name b nbytes 0)))"

definition emu_write :: "'h linux \<Rightarrow> int \<Rightarrow> buf \<Rightarrow> int \<Rightarrow> 'h emu \<Rightarrow> (int \<times> 'h emu) option" where
  "emu_write lx fd b nbytes s =
     (if \<not> dir_stream s \<or> dir_fd s \<noteq> fd
      then map_option (\<lambda>(r, h). (do_call r, s\<lparr>host := h\<rparr>)) (lx_write lx fd b nbytes (host s))
      else Some (-1, s))"

definition emu_close :: "'h linux \<Rightarrow> int \<Rightarrow> 'h emu \<Rightarrow> (int \<times> 'h emu) option" where
  "emu_close lx fd s =
     (if \<not> dir_stream s \<or> dir_fd s \<noteq> fd
      then (let (r, h) = lx_close lx fd (host s) in Some (do_call r, s\<lparr>host := h\<rparr>))
      else Some (0, s\<lparr>dir_stream := False, dir_fd := -1, host := snd (lx_close lx (dir_fd s) (lx_closedir lx (host s)))\<rparr>))"

text \<open>The result, what is stored through the pointer, and the state.\<close>

definition emu_vidmap :: "'h linux \<Rightarrow> 'h emu \<Rightarrow> int \<times> u32 option \<times> 'h emu" where
  "emu_vidmap lx s =
     (let s = (if mem_fd s = -1 then (let (fd, h) = lx_dev_mem lx (host s) in s\<lparr>mem_fd := fd, host := h\<rparr>) else s);
          (mem_image, h) = lx_mmap lx (mem_fd s) (host s)
      in case mem_image of
           None \<Rightarrow> (-1, None, s\<lparr>host := lx_perror lx h\<rparr>)
         | Some a \<Rightarrow> (0, Some (a + 0xB8000), s\<lparr>host := h\<rparr>))"

text \<open>The emulation as the interface of the user programs; bare call numbers are not emulated.\<close>

definition emu_os :: "'h linux \<Rightarrow> buf \<Rightarrow> 'h emu os" where
  "emu_os lx buf = \<lparr>os_execute = emu_execute lx buf, os_read = emu_read lx, os_write = emu_write lx, os_open = emu_open lx,
     os_close = emu_close lx, os_getargs = emu_getargs, os_vidmap = (\<lambda>p s. let (r, _, s) = emu_vidmap lx s in Some (r, s)), os_call = (\<lambda>n s. None)\<rparr>"

subsection \<open>Specification\<close>

text \<open>The words of a line, and words with single blanks between them.\<close>

function tokens :: "buf \<Rightarrow> buf list" where
  "tokens t =
     (case dropWhile (\<lambda>c. c = SPACE) t of
        [] \<Rightarrow> []
      | c # u \<Rightarrow> takeWhile (\<lambda>c. c \<noteq> SPACE) (c # u) # tokens (dropWhile (\<lambda>c. c \<noteq> SPACE) (c # u)))"
  by pat_completeness auto
termination
proof (relation "measure length")
  fix t c and u :: buf
  assume "dropWhile (\<lambda>c. c = SPACE) t = c # u"
  moreover from this have "c \<noteq> SPACE" using hd_dropWhile [of "\<lambda>c. c = SPACE" t] by auto
  moreover have "length (dropWhile (\<lambda>c. c \<noteq> SPACE) u) \<le> length u" by (rule length_dropWhile_le)
  ultimately show "(dropWhile (\<lambda>c. c \<noteq> SPACE) (c # u), t) \<in> measure length"
    using length_dropWhile_le [of "\<lambda>c. c = SPACE" t] by simp
qed simp

declare tokens.simps [simp del]

fun unwords :: "buf list \<Rightarrow> buf" where
  "unwords [] = []"
| "unwords [w] = w"
| "unwords (w # v # ws) = w @ SPACE # unwords (v # ws)"

definition word_ok :: "buf \<Rightarrow> bool" where
  "word_ok w \<longleftrightarrow> w \<noteq> [] \<and> list_all name_char w"

text \<open>A host on which every program exits with status 0.\<close>

definition idle_host :: "unit linux" where
  "idle_host = \<lparr>lx_read = (\<lambda>fd b n h. Some (b, 0, h)), lx_write = (\<lambda>fd b n h. Some (of_int n, h)), lx_open = (\<lambda>f h. (3, h)),
     lx_close = (\<lambda>fd h. (0, h)), lx_run = (\<lambda>path args h. (Exited 0, h)), lx_opendir = (\<lambda>h. (True, h)), lx_readdir = (\<lambda>h. (None, h)),
     lx_closedir = (\<lambda>h. h), lx_dev_null = (\<lambda>h. (4, h)), lx_dev_mem = (\<lambda>h. (5, h)), lx_mmap = (\<lambda>fd h. (None, h)), lx_perror = (\<lambda>h. h)\<rparr>"

definition emu_start :: "unit emu" where
  "emu_start = \<lparr>argv = [bytes ''./shell''], dir_stream = False, dir_fd = -1, mem_fd = -1, host = ()\<rparr>"

subsection \<open>Words\<close>

lemma tokens_blanks: "tokens (replicate k SPACE @ t) = tokens t"
proof -
  have "dropWhile (\<lambda>c. c = SPACE) (replicate k SPACE @ t) = dropWhile (\<lambda>c. c = SPACE) t" by (induction k) simp_all
  then show ?thesis by (subst (1 2) tokens.simps) (simp only:)
qed

lemma tokens_Nil [simp]: "tokens [] = []"
  by (simp add: tokens.simps)

lemma tokens_word:
  assumes "w \<noteq> []" "SPACE \<notin> set w"
  shows "tokens w = [w]" "tokens (w @ SPACE # t) = w # tokens t"
proof -
  obtain c u where c: "w = c # u" "c \<noteq> SPACE" using assms by (cases w) auto
  have w: "x \<in> set w \<Longrightarrow> x \<noteq> SPACE" for x using assms(2) by auto
  have t: "takeWhile (\<lambda>c. c \<noteq> SPACE) (w @ x) = w @ takeWhile (\<lambda>c. c \<noteq> SPACE) x" for x by (rule takeWhile_append2) (rule w)
  have dr: "dropWhile (\<lambda>c. c \<noteq> SPACE) (w @ x) = dropWhile (\<lambda>c. c \<noteq> SPACE) x" for x by (rule dropWhile_append2) (rule w)
  have d: "dropWhile (\<lambda>c. c = SPACE) (w @ x) = c # u @ x" for x using c by simp
  have dw: "dropWhile (\<lambda>c. c = SPACE) w = c # u" using c by simp
  have "tokens w = takeWhile (\<lambda>c. c \<noteq> SPACE) (c # u) # tokens (dropWhile (\<lambda>c. c \<noteq> SPACE) (c # u))"
    by (subst tokens.simps) (simp only: dw list.case)
  then show "tokens w = [w]" using t [of "[]"] dr [of "[]"] c(1) by (simp only: append_Nil2 takeWhile.simps(1) dropWhile.simps(1) tokens_Nil)
  have "tokens (w @ SPACE # t) = w # tokens (SPACE # t)"
    using t [of "SPACE # t"] dr [of "SPACE # t"] d [of "SPACE # t"] c by (subst tokens.simps) simp
  then show "tokens (w @ SPACE # t) = w # tokens t" using tokens_blanks [of 1 t] by simp
qed

lemma word_okD: "word_ok w \<Longrightarrow> w \<noteq> [] \<and> SPACE \<notin> set w \<and> 0 \<notin> set w \<and> NL \<notin> set w"
  by (auto simp: word_ok_def name_char_def list_all_iff)

lemma tokens_unwords: "\<forall>w \<in> set ws. word_ok w \<Longrightarrow> tokens (unwords ws) = ws"
  by (induction ws rule: unwords.induct) (auto simp: tokens_word dest: word_okD)

lemma unwords_chars: "\<forall>w \<in> set ws. word_ok w \<Longrightarrow> 0 \<notin> set (unwords ws) \<and> NL \<notin> set (unwords ws)"
  by (induction ws rule: unwords.induct) (auto dest: word_okD)

lemma length_tokens: "length (tokens t) \<le> length t"
proof (induction t rule: tokens.induct)
  case (1 t)
  show ?case
  proof (cases "dropWhile (\<lambda>c. c = SPACE) t")
    case (Cons c u)
    then have "c \<noteq> SPACE" using hd_dropWhile [of "\<lambda>c. c = SPACE" t] by auto
    then have "length (dropWhile (\<lambda>c. c \<noteq> SPACE) (c # u)) \<le> length u" using length_dropWhile_le [of "\<lambda>c. c \<noteq> SPACE" u] by simp
    moreover have "length (c # u) \<le> length t" using length_dropWhile_le [of "\<lambda>c. c = SPACE" t] unfolding Cons .
    ultimately show ?thesis using 1 [OF Cons] Cons by (subst tokens.simps) simp
  next
    case Nil
    then show ?thesis by (subst tokens.simps) (simp only: list.case list.size le0)
  qed
qed

lemma scan_word_eq:
  "\<forall>c \<in> set w. name_char c \<Longrightarrow> \<not> name_char d \<Longrightarrow> scan_word (pre @ w @ d # r) (length pre) = Some (length pre + length w)"
proof (induction w arbitrary: pre)
  case (Cons c w)
  then show ?case using Cons.IH [of "pre @ [c]"] by (subst scan_word.simps) (auto simp: name_char_def nth_append)
qed (subst scan_word.simps, auto simp: name_char_def nth_append)

lemma skip_blanks_eq: "d \<noteq> SPACE \<Longrightarrow> skip_blanks (pre @ replicate k SPACE @ d # r) (length pre) = Some (length pre + k)"
proof (induction k arbitrary: pre)
  case (Suc k)
  then show ?case using Suc.IH [of "pre @ [SPACE]"] by (subst skip_blanks.simps) (auto simp: nth_append)
qed (subst skip_blanks.simps, auto simp: nth_append)

lemma parse_args_tokens:
  "0 \<notin> set rest \<Longrightarrow> NL \<notin> set rest \<Longrightarrow> length args + length rest < 1024 \<Longrightarrow> b = pre @ rest @ 0 # junk \<Longrightarrow>
    \<exists>b' is. parse_args b (length pre) args = Some (b', args @ is) \<and> length b' = length b \<and> take (length pre) b' = pre
      \<and> map (\<lambda>i. cstr (drop i b')) is = tokens rest"
proof (induction "length rest" arbitrary: rest args b pre rule: less_induct)
  case less
  note pr = less.prems
  obtain k U where rest: "rest = replicate k SPACE @ U" "U = [] \<or> hd U \<noteq> SPACE"
  proof
    have "replicate (length (takeWhile (\<lambda>c. c = SPACE) rest)) SPACE = takeWhile (\<lambda>c. c = SPACE) rest"
      by (rule replicate_length_same) (auto dest: set_takeWhileD)
    then show "rest = replicate (length (takeWhile (\<lambda>c. c = SPACE) rest)) SPACE @ dropWhile (\<lambda>c. c = SPACE) rest"
      by (simp only: takeWhile_dropWhile_id)
    show "dropWhile (\<lambda>c. c = SPACE) rest = [] \<or> hd (dropWhile (\<lambda>c. c = SPACE) rest) \<noteq> SPACE"
      using hd_dropWhile [of "\<lambda>c. c = SPACE" rest] by blast
  qed
  then have tk: "tokens rest = tokens U" by (simp add: tokens_blanks)
  let ?pre = "pre @ replicate k SPACE"
  have len: "length ?pre = length pre + k" by simp
  show ?case
  proof (cases U)
    case Nil
    then have b: "b = pre @ replicate k SPACE @ 0 # junk" using pr(4) rest by simp
    have "skip_blanks b (length pre) = Some (length pre + k)" by (subst b, rule skip_blanks_eq) simp
    moreover have "b ! (length pre + k) = 0" by (subst b) (simp add: nth_append)
    ultimately have "parse_args b (length pre) args = Some (b[length pre + k := 0], args)" by (subst parse_args.simps) simp
    moreover have "b[length pre + k := 0] = b" by (subst (1 2) b) (simp add: list_update_append)
    ultimately show ?thesis using Nil tk pr(4) by (intro exI [of _ b] exI [of _ "[]"]) simp
  next
    case (Cons c u)
    have c: "c \<noteq> SPACE" using rest(2) Cons by simp
    have cu: "set (c # u) \<subseteq> set rest" using rest(1) Cons by auto
    obtain w v where w: "\<forall>x \<in> set w. name_char x" "c # u = w @ v" "w \<noteq> []" "SPACE \<notin> set w" "v = [] \<or> hd v = SPACE"
    proof
      show "c # u = takeWhile (\<lambda>c. c \<noteq> SPACE) (c # u) @ dropWhile (\<lambda>c. c \<noteq> SPACE) (c # u)" by (rule takeWhile_dropWhile_id [symmetric])
      show "\<forall>x \<in> set (takeWhile (\<lambda>c. c \<noteq> SPACE) (c # u)). name_char x" "SPACE \<notin> set (takeWhile (\<lambda>c. c \<noteq> SPACE) (c # u))"
        using cu pr(1,2) by (auto simp: name_char_def dest!: set_takeWhileD)
      show "takeWhile (\<lambda>c. c \<noteq> SPACE) (c # u) \<noteq> []" using c by simp
      show "dropWhile (\<lambda>c. c \<noteq> SPACE) (c # u) = [] \<or> hd (dropWhile (\<lambda>c. c \<noteq> SPACE) (c # u)) = SPACE"
        using hd_dropWhile [of "\<lambda>c. c \<noteq> SPACE" "c # u"] by blast
    qed
    have b: "b = ?pre @ w @ v @ 0 # junk" using pr(4) rest w(2) Cons by simp
    have sb: "skip_blanks b (length pre) = Some (length ?pre)"
      unfolding len using skip_blanks_eq [OF c, of pre k "u @ 0 # junk"] pr(4) rest Cons by simp
    have bi: "b ! length ?pre = c" using pr(4) rest Cons by (simp add: nth_append)
    have c0: "c \<noteq> 0" "c \<noteq> NL" using cu pr(1,2) by auto
    have la: "\<not> length args \<ge> 1024" using pr(3) by simp
    have lr: "length w + length v \<le> length rest" using arg_cong [OF w(2), of length] rest(1) Cons by simp
    show ?thesis
    proof (cases v)
      case Nil
      have sw: "scan_word b (length ?pre) = Some (length (?pre @ w))"
        using scan_word_eq [OF w(1), of 0 ?pre junk] b Nil by (simp add: name_char_def)
      have b0: "b ! length (?pre @ w) = 0" using b Nil by (simp add: nth_append)
      have "skip_blanks b (length (?pre @ w)) = Some (length (?pre @ w))"
        using skip_blanks_eq [of 0 "?pre @ w" 0 junk] b Nil by simp
      then have "parse_args b (length (?pre @ w)) (args @ [length ?pre]) = Some (b[length (?pre @ w) := 0], args @ [length ?pre])"
        using b0 by (subst parse_args.simps) simp
      moreover have "b[length (?pre @ w) := 0] = b" using b0 list_update_id by metis
      ultimately have "parse_args b (length pre) args = Some (b, args @ [length ?pre])"
        using sb bi c0 la sw b0 by (subst parse_args.simps) simp
      moreover have "cstr (drop (length ?pre) b) = w" using b Nil w(1) by (auto simp: name_char_def)
      moreover have "tokens rest = [w]" using tk Cons w(2-4) Nil tokens_word(1) by simp
      ultimately show ?thesis using pr(4) by (intro exI [of _ b] exI [of _ "[length ?pre]"]) simp
    next
      case v: (Cons d v')
      have d: "d = SPACE" using v w(5) by simp
      have sw: "scan_word b (length ?pre) = Some (length (?pre @ w))"
        using scan_word_eq [OF w(1), of d ?pre "v' @ 0 # junk"] b v d by (simp add: name_char_def)
      have bd: "b ! length (?pre @ w) = SPACE" using b v d by (simp add: nth_append)
      let ?p = "?pre @ w @ [0]"
      let ?b = "b[length (?pre @ w) := 0]"
      have b': "?b = ?p @ v' @ 0 # junk" using b v by (simp add: list_update_append)
      have vs: "set v' \<subseteq> set rest" "length v' < length rest" "Suc (length args) + length v' < 1024"
        using cu w(2) v lr pr(3) w(3) by (auto simp: subset_iff)
      obtain b2 is2 where ih: "parse_args ?b (length ?p) (args @ [length ?pre]) = Some (b2, (args @ [length ?pre]) @ is2)" "length b2 = length ?b"
        "take (length ?p) b2 = ?p" "map (\<lambda>i. cstr (drop i b2)) is2 = tokens v'"
        using less.hyps [OF vs(2) _ _ _ b', of "args @ [length ?pre]"] vs pr(1,2) by auto
      have "parse_args b (length pre) args = Some (b2, args @ length ?pre # is2)"
        using sb bi c0 la sw bd ih(1) by (subst parse_args.simps) simp
      moreover obtain y where y: "b2 = ?p @ y" using append_take_drop_id [of "length ?p" b2] ih(3) by metis
      moreover have "cstr (drop (length ?pre) b2) = w" using w(1) unfolding y by (auto simp: name_char_def)
      moreover have "tokens rest = w # tokens v'" using tk Cons w(2-4) v d tokens_word(2) by simp
      ultimately show ?thesis using ih by (intro exI [of _ b2] exI [of _ "length ?pre # is2"]) simp
    qed
  qed
qed

lemma strcpy_to_eq:
  "0 \<notin> set s \<Longrightarrow> p + length s < length b \<Longrightarrow> strcpy_to b p (s @ 0 # r) = Some (take p b @ s @ 0 # drop (Suc (p + length s)) b)"
proof (induction s arbitrary: b p)
  case Nil
  then show ?case by (simp add: wr_def upd_conv_take_nth_drop)
next
  case (Cons c s)
  then have "strcpy_to (b[p := c]) (Suc p) (s @ 0 # r) = Some (take (Suc p) (b[p := c]) @ s @ 0 # drop (Suc (Suc p + length s)) (b[p := c]))"
    by (intro Cons.IH) simp_all
  moreover have "take (Suc p) (b[p := c]) = take p b @ [c]" using Cons.prems(2) by (simp add: take_Suc_conv_app_nth)
  ultimately show ?case using Cons.prems by (auto simp: wr_def)
qed

text \<open>The argument vector that the host gets for a line.\<close>

lemma emu_execute_words:
  assumes "word_ok name" "0 \<notin> set rest" "NL \<notin> set rest" "length name + length rest < 1023" "length buf = 1026"
  shows "emu_execute lx buf (name @ SPACE # rest @ 0 # r) s =
    (let path = bytes ''./'' @ name; (status, h) = lx_run lx path (path # tokens rest) (host s)
     in Some (case status of Exited n \<Rightarrow> n | Signaled sig \<Rightarrow> if sig = 9 then -1 else 256, s\<lparr>host := h\<rparr>))"
proof -
  let ?cmd = "name @ SPACE # rest"
  let ?path = "bytes ''./'' @ name"
  let ?dot = "of_char (CHR ''.'') :: u8" and ?sl = "of_char (CHR ''/'') :: u8"
  note nm = word_okD [OF assms(1)]
  have z: "0 \<notin> set ?cmd" using nm assms(2) by simp
  obtain junk where sc: "strcpy_to (buf[0 := ?dot, 1 := ?sl]) 2 (?cmd @ 0 # r) = Some ([?dot, ?sl] @ ?cmd @ 0 # junk)"
  proof -
    have "take 2 (buf[0 := ?dot, 1 := ?sl]) = [?dot, ?sl]" using assms(5) by (cases buf; cases "tl buf") auto
    then show ?thesis using strcpy_to_eq [OF z, of 2 "buf[0 := ?dot, 1 := ?sl]" r] assms(4,5) that by simp
  qed
  let ?b = "[?dot, ?sl] @ name @ SPACE # rest @ 0 # junk"
  have sw: "scan_word ?b 2 = Some (2 + length name)"
    using scan_word_eq [of name SPACE "[?dot, ?sl]" "rest @ 0 # junk"] assms(1)
    by (simp add: numeral_2_eq_2 word_ok_def list_all_iff name_char_def)
  have b0: "?b[2 + length name := 0] = (?path @ [0]) @ rest @ 0 # junk" by (simp add: bytes_def list_update_append)
  obtain b' is' where p: "parse_args (?b[2 + length name := 0]) (length (?path @ [0])) [0] = Some (b', [0] @ is')"
    "take (length (?path @ [0])) b' = ?path @ [0]" "map (\<lambda>i. cstr (drop i b')) is' = tokens rest"
    using parse_args_tokens [OF assms(2,3) _ b0, of "[0]"] assms(4) by auto
  obtain y where y: "b' = (?path @ [0]) @ y" using append_take_drop_id [of "length (?path @ [0])" b'] p(2) by metis
  have "0 \<notin> set ?path" using nm by (simp add: bytes_def)
  from cstr_append_nul [OF this, of y] have "cstr b' = ?path" unfolding y by (simp only: append_assoc append_Cons append_Nil)
  moreover have "length is' < 1023" using arg_cong [OF p(3), of length] length_tokens [of rest] assms(4) by simp
  moreover have "ece391_strlen (?cmd @ 0 # r) = Some (length ?cmd)"
    unfolding ece391_strlen_eq using cstr_append_nul [OF z, of r] by simp
  moreover have "wr buf 0 ?dot = Some (buf[0 := ?dot])" "wr (buf[0 := ?dot]) 1 ?sl = Some (buf[0 := ?dot, 1 := ?sl])"
    using assms(5) by (simp_all add: wr_def)
  moreover have "?b ! (2 + length name) = SPACE" by (simp add: nth_append)
  moreover have "length (?path @ [0]) = Suc (2 + length name)" by (simp add: bytes_def)
  ultimately show ?thesis using sc sw p(1,3) assms(4) by (simp add: emu_execute_def Let_def)
qed

lemma getargs_loop_eq:
  "\<forall>w \<in> set ws. word_ok w \<Longrightarrow> int (length (unwords ws)) < n \<Longrightarrow> p + nat n \<le> length b \<Longrightarrow>
    getargs_loop (map (\<lambda>a. a @ [0]) ws) b p n = Some (0, take p b @ unwords ws @ 0 # drop (Suc (p + length (unwords ws))) b)"
proof (induction ws arbitrary: b p n rule: unwords.induct)
  case 1
  then show ?case by (simp add: wr_def upd_conv_take_nth_drop)
next
  case (2 w)
  have w: "0 \<notin> set w" using 2 word_okD by auto
  have "p + length w < length b" using 2 by simp
  then show ?case using strcpy_to_eq [OF w, of p b "[]"] w 2
    by (simp add: ece391_strlen_eq wr_def list_update_append)
next
  case (3 w v ws)
  have w: "0 \<notin> set w" using 3 word_okD by auto
  have l: "p + length w < length b" "int (length w) < n" "1 \<le> n - int (length w)" using 3 by simp_all
  let ?b = "take p b @ w @ SPACE # drop (Suc (p + length w)) b"
  have "getargs_loop (map (\<lambda>a. a @ [0]) (v # ws)) ?b (p + length w + 1) (n - int (length w) - 1)
      = Some (0, take (p + length w + 1) ?b @ unwords (v # ws) @ 0 # drop (Suc (p + length w + 1 + length (unwords (v # ws)))) ?b)"
    by (rule 3(1)) (use 3 l in auto)
  moreover have "strcpy_to b p (w @ [0]) = Some (take p b @ w @ 0 # drop (Suc (p + length w)) b)"
    using strcpy_to_eq [OF w l(1), of "[]"] by simp
  moreover have "wr (take p b @ w @ 0 # drop (Suc (p + length w)) b) (p + length w) SPACE = Some ?b"
    using l(1) by (simp add: wr_def list_update_append min_def)
  ultimately show ?case using w l by (simp add: ece391_strlen_eq min_def) (simp add: ac_simps)
qed

text \<open>
  C31. The emulation agrees with the kernel on the way a command takes to its program: for a program name and arguments with single
  blanks between them, the emulated execute runs the file of that name in the current directory with exactly these words, the
  kernel splits the line into the same name and arguments, and the program reads the same bytes from
  getargs on both, provided that they fit in the kernel's 128 bytes.
\<close>

theorem emulation_agrees:
  assumes "word_ok name" "length name \<le> 128" "ws \<noteq> []" "\<forall>w \<in> set ws. word_ok w" "length (unwords ws) < 128"
    and "length buf = 1026" "128 < n" "n \<le> length b" "cur_ok s" "args_of s = unwords ws"
  shows "parse_command (name @ SPACE # unwords ws @ 0 # r) = Some (name, unwords ws)
    \<and> emu_execute lx buf (name @ SPACE # unwords ws @ 0 # r) e =
        (let path = bytes ''./'' @ name; (status, h) = lx_run lx path (path # ws) (host e)
         in Some (case status of Exited n \<Rightarrow> n | Signaled sig \<Rightarrow> if sig = 9 then -1 else 256, e\<lparr>host := h\<rparr>))
    \<and> (\<exists>out. sys_getargs (Some b) (int n) s = Some (0, out) \<and> emu_getargs b (int n) (e'\<lparr>argv := path # ws\<rparr>) = Some (out, 0, e'\<lparr>argv := path # ws\<rparr>))"
proof (intro conjI)
  let ?a = "unwords ws"
  have a: "0 \<notin> set ?a" "NL \<notin> set ?a" using unwords_chars [OF assms(4)] by simp_all
  show "parse_command (name @ SPACE # ?a @ 0 # r) = Some (name, ?a)"
    using parse_with_args [of name ?a 0 r] assms(1,2,5) a by (simp add: word_ok_def)
  show "emu_execute lx buf (name @ SPACE # ?a @ 0 # r) e =
        (let path = bytes ''./'' @ name; (status, h) = lx_run lx path (path # ws) (host e)
         in Some (case status of Exited n \<Rightarrow> n | Signaled sig \<Rightarrow> if sig = 9 then -1 else 256, e\<lparr>host := h\<rparr>))"
    using emu_execute_words [OF assms(1) a _ assms(6), of lx r e] tokens_unwords [OF assms(4)] assms(2,5) by simp
  have ne: "args_of s \<noteq> []" using assms(3,4,10) by (cases ws rule: unwords.cases) (auto simp: word_ok_def)
  have "getargs_loop (map (\<lambda>a. a @ [0]) ws) b 0 (int n) = Some (0, ?a @ 0 # drop (Suc (length ?a)) b)"
    using getargs_loop_eq [OF assms(4), of "int n" 0 b] assms(5,7,8) by simp
  then show "\<exists>out. sys_getargs (Some b) (int n) s = Some (0, out) \<and> emu_getargs b (int n) (e'\<lparr>argv := path # ws\<rparr>) = Some (out, 0, e'\<lparr>argv := path # ws\<rparr>)"
    using getargs_args(1) [OF assms(9) ne assms(7,8)] assms(10) by (simp add: emu_getargs_def)
qed

subsection \<open>Where the emulation differs\<close>

text \<open>Without arguments the kernel refuses, the emulation delivers an empty string.\<close>

lemma getargs_differ:
  assumes "cur_ok s" "args_of s = []" "0 < n" "0 < length b"
  shows "sys_getargs (Some b) n s = Some (-1, b)" "emu_getargs b n (e\<lparr>argv := [path]\<rparr>) = Some (b[0 := 0], 0, e\<lparr>argv := [path]\<rparr>)"
proof -
  have "0 \<in> set (cmd_args (pcbs s (cur_pid s)))" using assms(1) by (auto simp: cur_ok_def pcb_ok_def)
  then have "strlen (cmd_args (pcbs s (cur_pid s))) = Some 0" using assms(2) by (simp add: strlen_eq args_of_def)
  then show "sys_getargs (Some b) n s = Some (-1, b)" using cur_okD(1) [OF assms(1)] by (simp add: sys_getargs_def store_user_def)
  show "emu_getargs b n (e\<lparr>argv := [path]\<rparr>) = Some (b[0 := 0], 0, e\<lparr>argv := [path]\<rparr>)"
    using assms(3,4) by (simp add: emu_getargs_def wr_def)
qed

text \<open>An argument as long as the buffer passes the check, and its terminator is stored behind the buffer.\<close>

lemma strcpy_to_overflow: "0 \<notin> set s \<Longrightarrow> length b \<le> p + length s \<Longrightarrow> strcpy_to b p (s @ [0]) = None"
  by (induction s arbitrary: b p) (auto simp: wr_def)

lemma getargs_overrun: "0 \<notin> set a \<Longrightarrow> length a = length b \<Longrightarrow> getargs_loop [a @ [0]] b 0 (int (length b)) = None"
  using strcpy_to_overflow [of a b 0] by (simp add: ece391_strlen_eq)

text \<open>A directory read fills the buffer with zeros and returns 32 for every shorter name, the kernel returns the length of the name.\<close>

lemma dir_pad_eq: "k \<le> 32 \<Longrightarrow> 32 \<le> length b \<Longrightarrow> dir_pad b 32 k = Some (take k b @ replicate (32 - k) 0 @ drop 32 b, 32)"
proof (induction "32 - k" arbitrary: b k)
  case 0
  then show ?case by (subst dir_pad.simps) simp
next
  case (Suc n)
  then have "dir_pad (b[k := 0]) 32 (Suc k) = Some (take (Suc k) (b[k := 0]) @ replicate (32 - Suc k) 0 @ drop 32 (b[k := 0]), 32)"
    by (intro Suc.hyps(1)) simp_all
  moreover have "take (Suc k) (b[k := 0]) = take k b @ [0]" using Suc by (simp add: take_Suc_conv_app_nth)
  moreover have "32 - k = Suc (32 - Suc k)" using Suc by simp
  ultimately show ?case using Suc by (subst dir_pad.simps) (simp add: wr_def)
qed

lemma dir_copy_pads:
  "0 \<notin> set name \<Longrightarrow> k + length name < 32 \<Longrightarrow> 32 \<le> length b \<Longrightarrow>
    dir_copy (name @ 0 # r) b 32 k = Some (take k b @ name @ replicate (32 - k - length name) 0 @ drop 32 b, 32)"
proof (induction name arbitrary: b k)
  case (Cons c name)
  then have "dir_copy (name @ 0 # r) (b[k := c]) 32 (Suc k)
      = Some (take (Suc k) (b[k := c]) @ name @ replicate (32 - Suc k - length name) 0 @ drop 32 (b[k := c]), 32)"
    by (intro Cons.IH) simp_all
  moreover have "take (Suc k) (b[k := c]) = take k b @ [c]" using Cons.prems by (simp add: take_Suc_conv_app_nth)
  ultimately show ?case using Cons.prems by (simp add: wr_def)
qed (simp add: dir_pad_eq)

theorem emulation_agrees_witness:
  "emu_execute idle_host (replicate 1026 0) (bytes ''cat'' @ SPACE # [99, 97, 116] @ 0 # []) emu_start = Some (0, emu_start)
    \<and> (\<exists>out. sys_getargs (Some (replicate 1024 0)) 1024 user_state = Some (0, out)
      \<and> emu_getargs (replicate 1024 0) 1024 (emu_start\<lparr>argv := [bytes ''./cat'', [99, 97, 116]]\<rparr>)
          = Some (out, 0, emu_start\<lparr>argv := [bytes ''./cat'', [99, 97, 116]]\<rparr>))"
proof -
  have w: "word_ok (bytes ''cat'')" "\<forall>w \<in> set [[99, 97, 116 :: u8]]. word_ok w" by (simp_all add: word_ok_def name_char_def bytes_def)
  have c: "cur_ok user_state" using user_state_ok(1) by (simp add: out_ok_def)
  show ?thesis
    using emulation_agrees [OF w(1) _ _ w(2) _ _ _ _ c, where buf = "replicate 1026 0" and n = 1024 and b = "replicate 1024 0" and r = "[]" and lx = idle_host
        and e = emu_start and e' = emu_start and path = "bytes ''./cat''"]
    by (simp add: user_state_ok(4) bytes_def) (simp add: idle_host_def emu_start_def)
qed

end
