(* ===== verification/Fish_Blink.thy ===== *)
theory Fish_Blink
  imports User_Support
begin

text \<open>
  The blinking characters of the fish animation: \<^verbatim>\<open>fish/blink.S\<close> and the allocator of
  \<^verbatim>\<open>fish/fish.c\<close>.  The structures lie in a static array and are linked through it; a pointer to a structure is its
  index there, and the null pointer is \<open>None\<close>.  The list is walked as the code does, so a list with a cycle is walked for ever.
\<close>

record blink =
  location :: u16
  on_char :: u8
  off_char :: u8
  on_length :: u16
  off_length :: u16
  countdown :: u16
  blink_status :: u16
  next_blink :: "nat option"

text \<open>The data of the program: the array, the head of the list, and the page of text mode video memory that vidmap gave it.\<close>

record fish =
  blink_array :: "blink list"
  mp1_list_head :: "nat option"
  vmem :: buf

definition blink_zero :: blink where
  "blink_zero = \<lparr>location = 0, on_char = 0, off_char = 0, on_length = 0, off_length = 0, countdown = 0, blink_status = 0, next_blink = None\<rparr>"

text \<open>The byte loops of the program; on a structure they are an assignment of all its fields.\<close>

fun ece391_memset_loop :: "buf \<Rightarrow> u8 \<Rightarrow> nat \<Rightarrow> nat \<Rightarrow> buf option" where
  "ece391_memset_loop mem c i 0 = Some mem"
| "ece391_memset_loop mem c i (Suc n) = do { mem \<leftarrow> wr mem i c; ece391_memset_loop mem c (Suc i) n }"

definition ece391_memset :: "buf \<Rightarrow> u8 \<Rightarrow> int \<Rightarrow> buf option" where
  "ece391_memset mem c n = ece391_memset_loop mem c 0 (nat n)"

fun ece391_memcpy_loop :: "buf \<Rightarrow> buf \<Rightarrow> nat \<Rightarrow> nat \<Rightarrow> buf option" where
  "ece391_memcpy_loop d s i 0 = Some d"
| "ece391_memcpy_loop d s i (Suc n) = do { c \<leftarrow> rd s i; d \<leftarrow> wr d i c; ece391_memcpy_loop d s (Suc i) n }"

definition ece391_memcpy :: "buf \<Rightarrow> buf \<Rightarrow> int \<Rightarrow> (buf \<times> int) option" where
  "ece391_memcpy dest src n = map_option (\<lambda>d. (d, 0)) (ece391_memcpy_loop dest src 0 (nat n))"

text \<open>A structure is free when its location is 0.\<close>

fun malloc_scan :: "blink list \<Rightarrow> nat \<Rightarrow> nat option" where
  "malloc_scan [] i = None"
| "malloc_scan (b # bs) i = (if location b = 0 then Some i else malloc_scan bs (Suc i))"

definition mp1_malloc :: "fish \<Rightarrow> nat option" where
  "mp1_malloc f = malloc_scan (blink_array f) 0"

definition put_blink :: "nat \<Rightarrow> blink \<Rightarrow> fish \<Rightarrow> fish option" where
  "put_blink i b f = map_option (\<lambda>a. f\<lparr>blink_array := a\<rparr>) (wr (blink_array f) i b)"

definition mp1_free :: "nat \<Rightarrow> fish \<Rightarrow> fish option" where
  "mp1_free i f = put_blink i blink_zero f"

definition mp1_poke :: "u8 \<Rightarrow> u32 \<Rightarrow> fish \<Rightarrow> fish option" where
  "mp1_poke cl eax f = map_option (\<lambda>v. f\<lparr>vmem := v\<rparr>) (wr (vmem f) (unat eax) cl)"

text \<open>The offset of a location in video memory: two bytes for each character.\<close>

definition cell :: "u16 \<Rightarrow> u32" where
  "cell l = push_bit 1 (ucast l)"

definition tick_blink :: "nat \<Rightarrow> fish \<Rightarrow> fish option" where
  "tick_blink i f = do {
     b \<leftarrow> rd (blink_array f) i;
     let b = b\<lparr>countdown := countdown b - 1\<rparr>;
     if 0 <s countdown b then put_blink i b f
     else if blink_status b AND 1 = 0
     then do { f \<leftarrow> mp1_poke (on_char b) (cell (location b)) f; put_blink i (b\<lparr>countdown := on_length b, blink_status := blink_status b XOR 1\<rparr>) f }
     else do { f \<leftarrow> mp1_poke (off_char b) (cell (location b)) f; put_blink i (b\<lparr>countdown := off_length b, blink_status := blink_status b XOR 1\<rparr>) f } }"

partial_function (option) tasklet_loop :: "nat option \<Rightarrow> fish \<Rightarrow> fish option" where
  "tasklet_loop p f =
     (case p of
        None \<Rightarrow> Some f
      | Some i \<Rightarrow> do { f \<leftarrow> tick_blink i f; b \<leftarrow> rd (blink_array f) i; tasklet_loop (next_blink b) f })"

definition mp1_rtc_tasklet :: "fish \<Rightarrow> fish option" where
  "mp1_rtc_tasklet f = tasklet_loop (mp1_list_head f) f"

partial_function (option) find_loop :: "blink list \<Rightarrow> u16 \<Rightarrow> nat option \<Rightarrow> nat option option" where
  "find_loop a l p =
     (case p of
        None \<Rightarrow> Some None
      | Some i \<Rightarrow> do { b \<leftarrow> rd a i; if location b = l then Some (Some i) else find_loop a l (next_blink b) })"

definition mp1_find_helper :: "u32 \<Rightarrow> fish \<Rightarrow> nat option option" where
  "mp1_find_helper l f = find_loop (blink_array f) (ucast l) (mp1_list_head f)"

definition mp1_ioctl_add :: "blink \<Rightarrow> fish \<Rightarrow> (int \<times> fish) option" where
  "mp1_ioctl_add user f =
     (if 80 * 25 \<le> location user then Some (-1, f)
      else let b = user\<lparr>blink_status := 1, countdown := on_length user\<rparr>
      in case mp1_malloc f of
           None \<Rightarrow> Some (-1, f)
         | Some i \<Rightarrow> do {
             f \<leftarrow> put_blink i (b\<lparr>next_blink := mp1_list_head f\<rparr>) f;
             f \<leftarrow> mp1_poke (on_char b) (cell (location b)) (f\<lparr>mp1_list_head := Some i\<rparr>);
             Some (0, f) })"

text \<open>The search for the pointer to \<open>i\<close>: \<open>prev = None\<close> is the head of the list; a null pointer is not followed.\<close>

definition link :: "fish \<Rightarrow> nat option \<Rightarrow> nat option option" where
  "link f prev = (case prev of None \<Rightarrow> Some (mp1_list_head f) | Some j \<Rightarrow> map_option next_blink (rd (blink_array f) j))"

partial_function (option) find_prev :: "fish \<Rightarrow> nat \<Rightarrow> nat option \<Rightarrow> nat option option" where
  "find_prev f i prev = do {
     p \<leftarrow> link f prev;
     if p = Some i then Some prev
     else case p of None \<Rightarrow> None | Some j \<Rightarrow> find_prev f i (Some j) }"

definition mp1_ioctl_remove :: "u32 \<Rightarrow> fish \<Rightarrow> (int \<times> fish) option" where
  "mp1_ioctl_remove l f = do {
     p \<leftarrow> mp1_find_helper l f;
     case p of
       None \<Rightarrow> Some (-1, f)
     | Some i \<Rightarrow> do {
         prev \<leftarrow> find_prev f i None;
         b \<leftarrow> rd (blink_array f) i;
         f \<leftarrow> (case prev of
                None \<Rightarrow> Some (f\<lparr>mp1_list_head := next_blink b\<rparr>)
              | Some j \<Rightarrow> do { a \<leftarrow> rd (blink_array f) j; put_blink j (a\<lparr>next_blink := next_blink b\<rparr>) f });
         f \<leftarrow> mp1_free i f;
         Some (0, f) } }"

text \<open>The structure the caller passed, after the call; and the call.\<close>

definition mp1_ioctl_find :: "blink \<Rightarrow> fish \<Rightarrow> (int \<times> blink) option" where
  "mp1_ioctl_find user f = do {
     p \<leftarrow> mp1_find_helper (ucast (location user)) f;
     case p of None \<Rightarrow> Some (-1, user) | Some i \<Rightarrow> map_option (Pair 0) (rd (blink_array f) i) }"

text \<open>
  \<open>testb $0x1\<close> leaves a result of 0 or 1, which is never negative, and clears the overflow flag; \<open>cmovl\<close> moves
  when exactly one of the two flags is set.
\<close>

definition test_less :: "u8 \<Rightarrow> bool" where
  "test_less x = ((x AND 1) <s 0)"

definition mp1_ioctl_sync :: "u32 \<Rightarrow> fish \<Rightarrow> (int \<times> fish) option" where
  "mp1_ioctl_sync arg f = do {
     p \<leftarrow> mp1_find_helper (drop_bit 16 arg) f;
     case p of None \<Rightarrow> Some (-1, f) | Some si \<Rightarrow> do {
     q \<leftarrow> mp1_find_helper (arg AND 0xFFFF) f;
     case q of None \<Rightarrow> Some (-1, f) | Some di \<Rightarrow> do {
     a \<leftarrow> rd (blink_array f) si;
     b \<leftarrow> rd (blink_array f) di;
     let b = b\<lparr>on_length := on_length a, off_length := off_length a, countdown := countdown a, blink_status := blink_status a\<rparr>;
     f \<leftarrow> put_blink di b f;
     f \<leftarrow> mp1_poke (if test_less (ucast (blink_status b)) then on_char b else off_char b) (cell (location b)) f;
     Some (0, f) } } }"

text \<open>
  The dispatcher.  The first argument of the call is a pointer to a structure or a number, whichever the command takes;
  a command outside of the table jumps to whatever lies behind it.
\<close>

datatype ioctl_arg = Struct blink | Word u32

fun mp1_ioctl :: "ioctl_arg \<Rightarrow> u32 \<Rightarrow> fish \<Rightarrow> (int \<times> ioctl_arg \<times> fish) option" where
  "mp1_ioctl (Struct b) cmd f =
     (if cmd = 0 then map_option (\<lambda>(r, f). (r, Struct b, f)) (mp1_ioctl_add b f)
      else if cmd = 2 then map_option (\<lambda>(r, b). (r, Struct b, f)) (mp1_ioctl_find b f)
      else None)"
| "mp1_ioctl (Word l) cmd f =
     (if cmd = 1 then map_option (\<lambda>(r, f). (r, Word l, f)) (mp1_ioctl_remove l f)
      else if cmd = 3 then map_option (\<lambda>(r, f). (r, Word l, f)) (mp1_ioctl_sync l f)
      else None)"

subsection \<open>What the list stands for\<close>

text \<open>The indices a list of pointers runs through, and the list of the structures in use, last added first.\<close>

fun is_chain :: "blink list \<Rightarrow> nat option \<Rightarrow> nat list \<Rightarrow> bool" where
  "is_chain a p [] \<longleftrightarrow> p = None"
| "is_chain a p (i # is) \<longleftrightarrow> p = Some i \<and> i < length a \<and> is_chain a (next_blink (a ! i)) is"

definition fish_list :: "fish \<Rightarrow> nat list \<Rightarrow> bool" where
  "fish_list f ch \<longleftrightarrow> length (blink_array f) = 2000 \<and> length (vmem f) = 4096 \<and> is_chain (blink_array f) (mp1_list_head f) ch \<and> distinct ch
     \<and> (\<forall>i < 2000. i \<in> set ch \<longleftrightarrow> location (blink_array f ! i) \<noteq> 0) \<and> (\<forall>i \<in> set ch. location (blink_array f ! i) < 2000)"

definition info :: "blink \<Rightarrow> blink" where
  "info b = b\<lparr>next_blink := None\<rparr>"

definition fish_shows :: "fish \<Rightarrow> blink list \<times> buf \<Rightarrow> bool" where
  "fish_shows f = (\<lambda>(bs, v). vmem f = v \<and> (\<exists>ch. fish_list f ch \<and> map (\<lambda>i. info (blink_array f ! i)) ch = bs))"

text \<open>The operations on that list and the page of video memory.\<close>

definition draw :: "blink \<Rightarrow> u8 \<Rightarrow> buf \<Rightarrow> buf" where
  "draw b c v = v[2 * unat (location b) := c]"

definition due :: "blink \<Rightarrow> bool" where
  "due b \<longleftrightarrow> \<not> 0 <s countdown b - 1"

definition ticked :: "blink \<Rightarrow> blink" where
  "ticked b =
     (if due b then b\<lparr>countdown := (if blink_status b AND 1 = 0 then on_length b else off_length b), blink_status := blink_status b XOR 1\<rparr>
      else b\<lparr>countdown := countdown b - 1\<rparr>)"

definition drawn :: "blink \<Rightarrow> buf \<Rightarrow> buf" where
  "drawn b v = (if due b then draw b (if blink_status b AND 1 = 0 then on_char b else off_char b) v else v)"

definition tick_spec :: "blink list \<times> buf \<Rightarrow> blink list \<times> buf" where
  "tick_spec = (\<lambda>(bs, v). (map ticked bs, fold drawn bs v))"

definition add_spec :: "blink \<Rightarrow> blink list \<times> buf \<Rightarrow> int \<times> blink list \<times> buf" where
  "add_spec b = (\<lambda>(bs, v). if location b < 2000 \<and> length bs < 2000
     then (0, info (b\<lparr>blink_status := 1, countdown := on_length b\<rparr>) # bs, draw b (on_char b) v) else (-1, bs, v))"

fun update_first :: "(blink \<Rightarrow> blink list) \<Rightarrow> u16 \<Rightarrow> blink list \<Rightarrow> blink list" where
  "update_first g l [] = []"
| "update_first g l (b # bs) = (if location b = l then g b @ bs else b # update_first g l bs)"

definition found :: "u16 \<Rightarrow> blink list \<Rightarrow> blink option" where
  "found l bs = find (\<lambda>b. location b = l) bs"

definition remove_spec :: "u16 \<Rightarrow> blink list \<times> buf \<Rightarrow> int \<times> blink list \<times> buf" where
  "remove_spec l = (\<lambda>(bs, v). if found l bs = None then (-1, bs, v) else (0, update_first (\<lambda>_. []) l bs, v))"

definition copied :: "blink \<Rightarrow> blink \<Rightarrow> blink" where
  "copied a b = b\<lparr>on_length := on_length a, off_length := off_length a, countdown := countdown a, blink_status := blink_status a\<rparr>"

definition sync_spec :: "u16 \<Rightarrow> u16 \<Rightarrow> blink list \<times> buf \<Rightarrow> int \<times> blink list \<times> buf" where
  "sync_spec src dst = (\<lambda>(bs, v). case (found src bs, found dst bs) of
     (Some a, Some b) \<Rightarrow> (0, update_first (\<lambda>b. [copied a b]) dst bs, draw b (off_char b) v)
   | _ \<Rightarrow> (-1, bs, v))"

text \<open>The dispatcher on the list: what a command returns and leaves, and what it stores for the caller.\<close>

fun ioctl_spec :: "ioctl_arg \<Rightarrow> u32 \<Rightarrow> blink list \<times> buf \<Rightarrow> (int \<times> ioctl_arg \<times> blink list \<times> buf) option" where
  "ioctl_spec (Struct b) cmd w =
     (if cmd = 0 then Some (fst (add_spec b w), Struct b, snd (add_spec b w))
      else if cmd = 2 then (case found (location b) (fst w) of None \<Rightarrow> Some (-1, Struct b, w) | Some c \<Rightarrow> Some (0, Struct c, w))
      else None)"
| "ioctl_spec (Word l) cmd w =
     (if cmd = 1 then Some (fst (remove_spec (ucast l) w), Word l, snd (remove_spec (ucast l) w))
      else if cmd = 3 then Some (fst (sync_spec (ucast (drop_bit 16 l)) (ucast l) w), Word l, snd (sync_spec (ucast (drop_bit 16 l)) (ucast l) w))
      else None)"

fun arg_info :: "ioctl_arg \<Rightarrow> ioctl_arg" where
  "arg_info (Struct b) = Struct (info b)"
| "arg_info (Word l) = Word l"

fun arg_ok :: "ioctl_arg \<Rightarrow> u32 \<Rightarrow> bool" where
  "arg_ok (Struct b) cmd \<longleftrightarrow> cmd = 0 \<longrightarrow> location b \<noteq> 0"
| "arg_ok (Word l) cmd \<longleftrightarrow> True"

text \<open>A structure as \<open>mp1_ioctl_add\<close> enters it, and the structure after \<open>n\<close> interrupts; the character it then shows.\<close>

definition fresh :: "blink \<Rightarrow> blink" where
  "fresh b = b\<lparr>blink_status := 1, countdown := on_length b\<rparr>"

definition shown_after :: "blink \<Rightarrow> nat \<Rightarrow> u8" where
  "shown_after b n = (if n mod (unat (on_length b) + unat (off_length b)) < unat (on_length b) then on_char b else off_char b)"

definition fish_start :: fish where
  "fish_start = \<lparr>blink_array = replicate 2000 blink_zero, mp1_list_head = None, vmem = replicate 4096 0\<rparr>"

subsection \<open>Chains\<close>

lemma is_chain_less: "is_chain a p ch \<Longrightarrow> i \<in> set ch \<Longrightarrow> i < length a"
  by (induction ch arbitrary: p) auto

lemma is_chain_other: "i \<notin> set ch \<Longrightarrow> is_chain (a[i := b]) p ch = is_chain a p ch"
  by (induction ch arbitrary: p) auto

lemma is_chain_same:
  assumes "next_blink b = next_blink (a ! i)"
  shows "is_chain (a[i := b]) p ch = is_chain a p ch"
proof (induction ch arbitrary: p)
  case (Cons j ch)
  have "next_blink (a[i := b] ! j) = next_blink (a ! j)" using assms by (cases "i = j"; cases "i < length a") (simp_all add: list_update_beyond)
  then show ?case using Cons by simp
qed simp

lemma info_simps [simp]: "location (info b) = location b" "on_char (info b) = on_char b" "off_char (info b) = off_char b"
  "on_length (info b) = on_length b" "off_length (info b) = off_length b" "countdown (info b) = countdown b" "blink_status (info b) = blink_status b"
  "next_blink (info b) = None" "info (info b) = info b"
  by (simp_all add: info_def)

lemma unat_cell [simp]: "unat (cell l) = 2 * unat l"
proof -
  have l: "unat l < 65536" using unsigned_less [of l] by simp
  then have u: "unat (ucast l :: u32) = unat l" by (simp add: unsigned_ucast_eq take_bit_nat_eq_self_iff)
  have "unat (2 * (ucast l :: u32)) = 2 * unat (ucast l :: u32)" by (subst unat_mult_lem [THEN iffD1]) (use u l in simp_all)
  then show ?thesis using u by (simp add: cell_def push_bit_eq_mult mult.commute)
qed

lemma malloc_scan_eq:
  "malloc_scan bs k = (if \<exists>i < length bs. location (bs ! i) = 0 then Some (k + (LEAST i. i < length bs \<and> location (bs ! i) = 0)) else None)"
proof (induction bs k rule: malloc_scan.induct)
  case (2 b bs k)
  have l: "(LEAST i. i < Suc (length bs) \<and> location ((b # bs) ! i) = 0) = Suc (LEAST i. i < length bs \<and> location (bs ! i) = 0)"
    if "location b \<noteq> 0" "i < length bs" "location (bs ! i) = 0" for i
    using Least_Suc [of "\<lambda>i. i < Suc (length bs) \<and> location ((b # bs) ! i) = 0" "Suc i"] that by simp
  have z: "(LEAST i. i < Suc (length bs) \<and> location ((b # bs) ! i) = 0) = 0" if "location b = 0"
    by (rule Least_equality) (use that in simp_all)
  show ?case using 2 l z by (auto simp: Ex_less_Suc2)
qed simp

lemma malloc_scan_cong: "map location bs = map location cs \<Longrightarrow> malloc_scan bs k = malloc_scan cs k"
proof (induction bs k arbitrary: cs rule: malloc_scan.induct)
  case (2 b bs k)
  then show ?case by (cases cs) auto
qed simp

lemma mp1_malloc_Some: "mp1_malloc f = Some i \<Longrightarrow> i < length (blink_array f) \<and> location (blink_array f ! i) = 0"
  using LeastI_ex [of "\<lambda>i. i < length (blink_array f) \<and> location (blink_array f ! i) = 0"]
  by (auto simp: mp1_malloc_def malloc_scan_eq split: if_splits)

lemma mp1_malloc_None: "mp1_malloc f = None \<longleftrightarrow> (\<forall>i < length (blink_array f). location (blink_array f ! i) \<noteq> 0)"
  by (auto simp: mp1_malloc_def malloc_scan_eq)

subsection \<open>The interrupt routine\<close>

lemma is_chain_cong: "length a' = length a \<Longrightarrow> \<forall>i \<in> set ch. next_blink (a' ! i) = next_blink (a ! i) \<Longrightarrow> is_chain a' p ch = is_chain a p ch"
  by (induction ch arbitrary: p) auto

lemma poke_cell:
  "location b < 2000 \<Longrightarrow> length (vmem f) = 4096 \<Longrightarrow> mp1_poke c (cell (location b)) f = Some (f\<lparr>vmem := draw b c (vmem f)\<rparr>)"
  by (simp add: mp1_poke_def draw_def word_less_nat_alt)

lemma length_draw [simp]: "length (draw b c v) = length v" "length (drawn b v) = length v"
  by (simp_all add: draw_def drawn_def)

lemma tick_simps [simp]: "location (ticked b) = location b" "next_blink (ticked b) = next_blink b" "ticked (info b) = info (ticked b)"
  "drawn (info b) = drawn b"
  by (simp_all add: ticked_def due_def info_def drawn_def draw_def fun_eq_iff)

lemma tick_blink_eq:
  assumes "i < length (blink_array f)" "location (blink_array f ! i) < 2000" "length (vmem f) = 4096"
  shows "tick_blink i f = Some (f\<lparr>blink_array := (blink_array f)[i := ticked (blink_array f ! i)], vmem := drawn (blink_array f ! i) (vmem f)\<rparr>)"
  using assms poke_cell [of "blink_array f ! i"]
  by (simp add: tick_blink_def put_blink_def Let_def ticked_def drawn_def due_def)

lemma tasklet_loop_eq:
  assumes "is_chain (blink_array f) p ch" "distinct ch" "\<forall>i \<in> set ch. location (blink_array f ! i) < 2000" "length (vmem f) = 4096"
  shows "\<exists>a. tasklet_loop p f = Some (f\<lparr>blink_array := a, vmem := fold drawn (map ((!) (blink_array f)) ch) (vmem f)\<rparr>)
    \<and> length a = length (blink_array f) \<and> (\<forall>i. a ! i = (if i \<in> set ch then ticked (blink_array f ! i) else blink_array f ! i))"
  using assms
proof (induction ch arbitrary: p f)
  case Nil
  then show ?case by (subst tasklet_loop.simps) (auto intro!: exI [of _ "blink_array f"])
next
  case (Cons i ch)
  let ?a = "blink_array f"
  let ?b = "?a[i := ticked (?a ! i)]"
  let ?f = "f\<lparr>blink_array := ?b, vmem := drawn (?a ! i) (vmem f)\<rparr>"
  have i: "p = Some i" "i < length ?a" "i \<notin> set ch" using Cons.prems by simp_all
  have t: "tick_blink i f = Some ?f" by (rule tick_blink_eq) (use Cons.prems i in simp_all)
  have o: "?b ! j = ?a ! j" if "j \<in> set ch" for j using that i(3) by (cases "i = j") simp_all
  then have m: "map ((!) ?b) ch = map ((!) ?a) ch" by simp
  have "is_chain ?b (next_blink (?a ! i)) ch" using Cons.prems(1) is_chain_other [OF i(3)] by simp
  then obtain a where a: "tasklet_loop (next_blink (?a ! i)) ?f = Some (?f\<lparr>blink_array := a,
        vmem := fold drawn (map ((!) (blink_array ?f)) ch) (vmem ?f)\<rparr>)" "length a = length (blink_array ?f)"
      "\<forall>j. a ! j = (if j \<in> set ch then ticked (blink_array ?f ! j) else blink_array ?f ! j)"
    using Cons.IH [of ?f "next_blink (?a ! i)"] Cons.prems o by fastforce
  have "a ! j = (if j \<in> set (i # ch) then ticked (?a ! j) else ?a ! j)" for j
    using a(3) o i by (cases "j = i") simp_all
  then show ?case using a(1,2) t i m by (subst tasklet_loop.simps) (auto intro!: exI [of _ a])
qed

lemma fish_listD:
  assumes "fish_list f ch"
  shows "length (blink_array f) = 2000" "length (vmem f) = 4096" "is_chain (blink_array f) (mp1_list_head f) ch" "distinct ch"
    "i \<in> set ch \<Longrightarrow> i < 2000 \<and> location (blink_array f ! i) < 2000 \<and> location (blink_array f ! i) \<noteq> 0"
    "i < 2000 \<Longrightarrow> i \<in> set ch \<longleftrightarrow> location (blink_array f ! i) \<noteq> 0"
  using assms is_chain_less [of "blink_array f" "mp1_list_head f" ch i] by (auto simp: fish_list_def)

lemma fold_drawn_info: "fold drawn (map (\<lambda>i. info (a ! i)) ch) v = fold drawn (map ((!) a) ch) v"
  by (induction ch arbitrary: v) simp_all

lemma tasklet_refines:
  assumes "fish_shows f w"
  shows "\<exists>f'. mp1_rtc_tasklet f = Some f' \<and> fish_shows f' (tick_spec w)"
proof -
  obtain ch where c: "fish_list f ch" "w = (map (\<lambda>i. info (blink_array f ! i)) ch, vmem f)"
    using assms by (cases w) (auto simp: fish_shows_def)
  note l = fish_listD [OF c(1)]
  obtain a where a: "mp1_rtc_tasklet f = Some (f\<lparr>blink_array := a, vmem := fold drawn (map ((!) (blink_array f)) ch) (vmem f)\<rparr>)"
    "length a = 2000" "\<forall>i. a ! i = (if i \<in> set ch then ticked (blink_array f ! i) else blink_array f ! i)"
    using tasklet_loop_eq [OF l(3,4) _ l(2)] l(1,5) by (auto simp: mp1_rtc_tasklet_def)
  have v: "length (fold drawn bs v) = length v" for bs v by (induction bs arbitrary: v) simp_all
  have "fish_list (f\<lparr>blink_array := a, vmem := fold drawn (map ((!) (blink_array f)) ch) (vmem f)\<rparr>) ch"
    using l a(2,3) is_chain_cong [of a "blink_array f" ch] by (simp add: fish_list_def v)
  then show ?thesis using a(1,3) c(2)
    by (auto simp: fish_shows_def tick_spec_def fold_drawn_info intro!: exI [of _ ch])
qed

subsection \<open>The commands\<close>

lemma find_loop_eq: "is_chain a p ch \<Longrightarrow> find_loop a l p = Some (find (\<lambda>i. location (a ! i) = l) ch)"
proof (induction ch arbitrary: p)
  case (Cons i ch)
  then show ?case by (subst find_loop.simps) simp
next
  case Nil
  then have p: "p = None" by simp
  show ?case unfolding p by (subst find_loop.simps) simp
qed

lemma find_first:
  assumes "find P xs = Some x"
  obtains ys zs where "xs = ys @ x # zs" "P x" "\<forall>y \<in> set ys. \<not> P y"
proof -
  obtain i where i: "i < length xs" "P (xs ! i)" "x = xs ! i" "\<forall>j < i. \<not> P (xs ! j)" using assms unfolding find_Some_iff by blast
  show ?thesis
  proof (rule that)
    show "xs = take i xs @ x # drop (Suc i) xs" using i id_take_nth_drop [of i xs] by simp
    show "\<forall>y \<in> set (take i xs). \<not> P y" using i by (auto simp: in_set_conv_nth)
  qed (use i in simp)
qed

lemma find_in: "find P xs = Some x \<Longrightarrow> x \<in> set xs \<and> P x"
  by (auto simp: find_Some_iff)

lemma find_map: "find P (map g xs) = map_option g (find (\<lambda>x. P (g x)) xs)"
  by (induction xs) simp_all

lemma update_first_split:
  "\<forall>b \<in> set bs. location b \<noteq> l \<Longrightarrow> location b = l \<Longrightarrow> update_first g l (bs @ b # cs) = bs @ g b @ cs"
  by (induction bs) simp_all

lemma find_prev_eq:
  "is_chain (blink_array f) p (pre @ i # post) \<Longrightarrow> i \<notin> set pre \<Longrightarrow> link f prev = Some p
    \<Longrightarrow> find_prev f i prev = Some (if pre = [] then prev else Some (last pre))"
proof (induction pre arbitrary: p prev)
  case Nil
  then have "link f prev = Some (Some i)" by simp
  then show ?case by (subst find_prev.simps) simp
next
  case (Cons j pre)
  then have "link f prev = Some (Some j)" "j \<noteq> i" "link f (Some j) = Some (next_blink (blink_array f ! j))" by (simp_all add: link_def)
  moreover have "find_prev f i (Some j) = Some (if pre = [] then Some j else Some (last pre))"
    by (rule Cons.IH [OF _ _ calculation(3)]) (use Cons.prems in simp_all)
  ultimately show ?case by (subst find_prev.simps) simp
qed

lemma is_chain_unlink:
  "is_chain a p (pre @ j # i # post) \<Longrightarrow> distinct (pre @ j # i # post)
    \<Longrightarrow> is_chain (a[j := (a ! j)\<lparr>next_blink := next_blink (a ! i)\<rparr>]) p (pre @ j # post)"
  by (induction pre arbitrary: p) (auto simp: is_chain_other)

lemma add_refines:
  assumes "fish_shows f w" "location b \<noteq> 0"
  shows "\<exists>f'. mp1_ioctl_add b f = Some (fst (add_spec b w), f') \<and> fish_shows f' (snd (add_spec b w))"
proof -
  obtain ch where c: "fish_list f ch" "w = (map (\<lambda>i. info (blink_array f ! i)) ch, vmem f)"
    using assms by (cases w) (auto simp: fish_shows_def)
  note l = fish_listD [OF c(1)]
  have sub: "set ch \<subseteq> {..<2000}" using l(5) by auto
  have n: "length ch < 2000 \<longleftrightarrow> mp1_malloc f \<noteq> None"
  proof -
    have "length ch = card (set ch)" using distinct_card [OF l(4)] by simp
    moreover have "set ch = {..<2000} \<longleftrightarrow> mp1_malloc f = None" using sub l(1,6) by (auto simp: mp1_malloc_None)
    moreover have "card (set ch) \<le> 2000" using card_mono [OF _ sub] by simp
    moreover have "card (set ch) = 2000 \<Longrightarrow> set ch = {..<2000}" using card_subset_eq [OF _ sub] by simp
    ultimately show ?thesis by (metis card_lessThan less_le nat_neq_iff)
  qed
  show ?thesis
  proof (cases "location b < 2000 \<and> length ch < 2000")
    case False
    then have "mp1_ioctl_add b f = Some (-1, f)" using n by (auto simp: mp1_ioctl_add_def Let_def not_less split: option.splits)
    then show ?thesis using False assms(1) c(2) by (auto simp: add_spec_def)
  next
    case True
    then obtain i where i: "mp1_malloc f = Some i" "i < 2000" "i \<notin> set ch"
      using n mp1_malloc_Some [of f] l(1,6) by auto
    let ?b = "b\<lparr>blink_status := 1, countdown := on_length b, next_blink := mp1_list_head f\<rparr>"
    let ?f = "f\<lparr>blink_array := (blink_array f)[i := ?b], mp1_list_head := Some i, vmem := draw b (on_char b) (vmem f)\<rparr>"
    have "mp1_ioctl_add b f = Some (0, ?f)"
      using True i l(1,2) poke_cell [of ?b "f\<lparr>blink_array := (blink_array f)[i := ?b], mp1_list_head := Some i\<rparr>"]
      by (simp add: mp1_ioctl_add_def Let_def not_le put_blink_def draw_def)
    moreover have "fish_list ?f (i # ch)"
    proof -
      have "is_chain (blink_array ?f) (mp1_list_head ?f) (i # ch)" using l(1,3) i(2,3) by (simp add: is_chain_other)
      moreover have "location (blink_array ?f ! k) = (if k = i then location b else location (blink_array f ! k))" for k
        using i(2) l(1) by (cases "k = i") simp_all
      ultimately show ?thesis using l i(2,3) True assms(2) by (simp add: fish_list_def)
    qed
    moreover have "map (\<lambda>k. info (blink_array ?f ! k)) (i # ch) = info (b\<lparr>blink_status := 1, countdown := on_length b\<rparr>) # map (\<lambda>k. info (blink_array f ! k)) ch"
    proof -
      have "blink_array ?f ! k = blink_array f ! k" if "k \<in> set ch" for k using that i(3) by (cases "k = i") simp_all
      moreover have "blink_array ?f ! i = ?b" using i(2) l(1) by simp
      ultimately show ?thesis by (simp add: info_def)
    qed
    ultimately show ?thesis using True c(2) by (auto simp: fish_shows_def add_spec_def intro!: exI [of _ "i # ch"])
  qed
qed

lemma remove_refines:
  assumes "fish_shows f w"
  shows "\<exists>f'. mp1_ioctl_remove l f = Some (fst (remove_spec (ucast l) w), f') \<and> fish_shows f' (snd (remove_spec (ucast l) w))"
proof -
  let ?a = "blink_array f"
  obtain ch where c: "fish_list f ch" "w = (map (\<lambda>i. info (?a ! i)) ch, vmem f)"
    using assms by (cases w) (auto simp: fish_shows_def)
  note d = fish_listD [OF c(1)]
  have h: "mp1_find_helper l f = Some (find (\<lambda>i. location (?a ! i) = ucast l) ch)"
    unfolding mp1_find_helper_def by (rule find_loop_eq [OF d(3)])
  have fd: "found (ucast l) (map (\<lambda>i. info (?a ! i)) ch) = map_option (\<lambda>i. info (?a ! i)) (find (\<lambda>i. location (?a ! i) = ucast l) ch)"
    by (simp add: found_def find_map)
  show ?thesis
  proof (cases "find (\<lambda>i. location (?a ! i) = ucast l) ch")
    case None
    then show ?thesis using h fd c(2) assms by (simp add: mp1_ioctl_remove_def remove_spec_def)
  next
    case (Some i)
    then obtain pre post where s: "ch = pre @ i # post" "location (?a ! i) = ucast l" "\<forall>y \<in> set pre. location (?a ! y) \<noteq> ucast l"
      by (rule find_first)
    have i: "i < 2000" "i \<notin> set pre" "i \<notin> set post" using s d(4) d(5) [of i] by auto
    have fp: "find_prev f i None = Some (if pre = [] then None else Some (last pre))"
      by (rule find_prev_eq [of _ "mp1_list_head f"]) (use d(3) i s in \<open>simp_all add: link_def\<close>)
    obtain g where g: "(case if pre = [] then None else Some (last pre) of
           None \<Rightarrow> Some (f\<lparr>mp1_list_head := next_blink (?a ! i)\<rparr>)
         | Some j \<Rightarrow> do { a \<leftarrow> rd ?a j; put_blink j (a\<lparr>next_blink := next_blink (?a ! i)\<rparr>) f }) = Some g"
      "vmem g = vmem f" "length (blink_array g) = 2000" "is_chain (blink_array g) (mp1_list_head g) (pre @ post)"
      "\<forall>k. info (blink_array g ! k) = info (?a ! k)"
    proof (cases pre rule: rev_cases)
      case Nil
      then show ?thesis using that [of "f\<lparr>mp1_list_head := next_blink (?a ! i)\<rparr>"] d(1,3) s by simp
    next
      case (snoc pre' j)
      then have j: "j < 2000" using d(5) [of j] s by simp
      have "is_chain (?a[j := (?a ! j)\<lparr>next_blink := next_blink (?a ! i)\<rparr>]) (mp1_list_head f) (pre' @ j # post)"
        by (rule is_chain_unlink) (use d(3,4) s snoc in simp_all)
      moreover have "info (?a[j := (?a ! j)\<lparr>next_blink := next_blink (?a ! i)\<rparr>] ! k) = info (?a ! k)" for k
        using j d(1) by (cases "k = j") (simp_all add: info_def)
      ultimately show ?thesis using that [of "f\<lparr>blink_array := ?a[j := (?a ! j)\<lparr>next_blink := next_blink (?a ! i)\<rparr>]\<rparr>"] d(1) j snoc
        by (simp add: put_blink_def)
    qed
    let ?f = "g\<lparr>blink_array := (blink_array g)[i := blink_zero]\<rparr>"
    have r: "mp1_ioctl_remove l f = Some (0, ?f)"
      using h Some fp g(1,3) i(1) d(1) by (simp add: mp1_ioctl_remove_def mp1_free_def put_blink_def)
    have "location (blink_array g ! k) = location (?a ! k)" for k using g(5) by (metis info_simps(1))
    then have "location (blink_array ?f ! k) = (if k = i then 0 else location (?a ! k))" for k
      using i(1) g(3) by (cases "k = i") (simp_all add: blink_zero_def)
    moreover have "is_chain (blink_array ?f) (mp1_list_head ?f) (pre @ post)" using g(4) i by (simp add: is_chain_other)
    ultimately have "fish_list ?f (pre @ post)" using d s i g(2,3) by (auto simp: fish_list_def)
    moreover have "info (blink_array ?f ! k) = info (?a ! k)" if "k \<in> set (pre @ post)" for k
      using that i g(5) by (cases "k = i") auto
    then have "map (\<lambda>k. info (blink_array ?f ! k)) (pre @ post) = map (\<lambda>k. info (?a ! k)) (pre @ post)"
      by (simp only: map_eq_conv) blast
    moreover have "update_first (\<lambda>_. []) (ucast l) (map (\<lambda>k. info (?a ! k)) ch) = map (\<lambda>k. info (?a ! k)) (pre @ post)"
      using update_first_split [of "map (\<lambda>k. info (?a ! k)) pre" "ucast l" "info (?a ! i)" "\<lambda>_. []"] s by simp
    ultimately have "fish_shows ?f (map (\<lambda>k. info (?a ! k)) (pre @ post), vmem f)" using g(2) by (auto simp: fish_shows_def)
    then show ?thesis using r fd Some c(2) \<open>update_first _ _ _ = _\<close> by (simp add: remove_spec_def)
  qed
qed

lemma find_refines:
  assumes "fish_shows f w"
  shows "\<exists>out. mp1_ioctl_find b f = Some (case found (location b) (fst w) of None \<Rightarrow> -1 | Some _ \<Rightarrow> 0, out)
    \<and> info out = info (case found (location b) (fst w) of None \<Rightarrow> b | Some c \<Rightarrow> c)"
proof -
  obtain ch where c: "fish_list f ch" "w = (map (\<lambda>i. info (blink_array f ! i)) ch, vmem f)"
    using assms by (cases w) (auto simp: fish_shows_def)
  note d = fish_listD [OF c(1)]
  have h: "mp1_find_helper (ucast (location b)) f = Some (find (\<lambda>i. location (blink_array f ! i) = location b) ch)"
  proof -
    have "(ucast (ucast (location b) :: u32) :: u16) = location b" by (rule bit_word_eqI) (simp add: bit_ucast_iff)
    then show ?thesis using find_loop_eq [OF d(3), of "location b"] by (simp add: mp1_find_helper_def)
  qed
  have fd: "found (location b) (fst w) = map_option (\<lambda>i. info (blink_array f ! i)) (find (\<lambda>i. location (blink_array f ! i) = location b) ch)"
    by (simp add: found_def find_map c(2))
  show ?thesis
  proof (cases "find (\<lambda>i. location (blink_array f ! i) = location b) ch")
    case None
    then show ?thesis using h fd by (simp add: mp1_ioctl_find_def)
  next
    case (Some i)
    then have "i < length (blink_array f)" using d(1) d(5) [of i] find_in [of _ ch i] by auto
    then show ?thesis using h fd Some by (simp add: mp1_ioctl_find_def)
  qed
qed

lemma test_less_never [simp]: "\<not> test_less x"
  by (cases "odd x") (simp_all add: test_less_def and_one_eq mod_2_eq_odd word_sless_alt)

lemma sync_refines:
  assumes "fish_shows f w"
  shows "\<exists>f'. mp1_ioctl_sync arg f = Some (fst (sync_spec (ucast (drop_bit 16 arg)) (ucast arg) w), f')
    \<and> fish_shows f' (snd (sync_spec (ucast (drop_bit 16 arg)) (ucast arg) w))"
proof -
  let ?a = "blink_array f" and ?src = "ucast (drop_bit 16 arg) :: u16" and ?dst = "ucast arg :: u16"
  obtain ch where c: "fish_list f ch" "w = (map (\<lambda>i. info (?a ! i)) ch, vmem f)"
    using assms by (cases w) (auto simp: fish_shows_def)
  note d = fish_listD [OF c(1)]
  have "(0xFFFF :: u32) = mask 16" by (simp add: mask_eq_exp_minus_1)
  then have "arg AND 0xFFFF = take_bit 16 arg" by (simp add: take_bit_eq_mask)
  then have m: "(ucast (arg AND 0xFFFF) :: u16) = ucast arg" by (simp add: bit_word_eqI bit_ucast_iff bit_take_bit_iff)
  have h: "mp1_find_helper (drop_bit 16 arg) f = Some (find (\<lambda>i. location (?a ! i) = ?src) ch)"
    "mp1_find_helper (arg AND 0xFFFF) f = Some (find (\<lambda>i. location (?a ! i) = ?dst) ch)"
    using find_loop_eq [OF d(3)] by (simp_all add: mp1_find_helper_def m)
  have fd: "found l (map (\<lambda>i. info (?a ! i)) ch) = map_option (\<lambda>i. info (?a ! i)) (find (\<lambda>i. location (?a ! i) = l) ch)" for l
    by (simp add: found_def find_map)
  show ?thesis
  proof (cases "find (\<lambda>i. location (?a ! i) = ?src) ch = None \<or> find (\<lambda>i. location (?a ! i) = ?dst) ch = None")
    case True
    then show ?thesis using h fd c(2) assms by (auto simp: mp1_ioctl_sync_def sync_spec_def split: option.splits)
  next
    case False
    then obtain si i where si: "find (\<lambda>i. location (?a ! i) = ?src) ch = Some si" and di: "find (\<lambda>i. location (?a ! i) = ?dst) ch = Some i"
      by auto
    obtain pre post where s: "ch = pre @ i # post" "location (?a ! i) = ?dst" "\<forall>y \<in> set pre. location (?a ! y) \<noteq> ?dst"
      by (rule find_first [OF di])
    have i: "i < 2000" "i \<notin> set pre" "i \<notin> set post" "location (?a ! i) < 2000" "si < 2000"
      using s d(4) d(5) [of i] d(5) [of si] find_in [OF si] by auto
    let ?b = "copied (?a ! si) (?a ! i)"
    have b: "location ?b = location (?a ! i)" "next_blink ?b = next_blink (?a ! i)" "off_char ?b = off_char (?a ! i)" by (simp_all add: copied_def)
    let ?f = "f\<lparr>blink_array := ?a[i := ?b], vmem := draw ?b (off_char ?b) (vmem f)\<rparr>"
    have r: "mp1_ioctl_sync arg f = Some (0, ?f)"
      using h si di i d(1,2) b poke_cell [of ?b "f\<lparr>blink_array := ?a[i := ?b]\<rparr>"]
      by (simp add: mp1_ioctl_sync_def put_blink_def copied_def)
    have "location (?a[i := ?b] ! k) = location (?a ! k)" for k using b(1) i(1) d(1) by (cases "k = i") simp_all
    then have "fish_list ?f ch" using d is_chain_same [of ?b ?a i] b(2) by (simp add: fish_list_def)
    moreover have "map (\<lambda>k. info (?a[i := ?b] ! k)) ch = map (\<lambda>k. info (?a ! k)) pre @ info ?b # map (\<lambda>k. info (?a ! k)) post"
    proof -
      have "?a[i := ?b] ! k = ?a ! k" if "k \<in> set pre \<union> set post" for k using that i by (cases "k = i") auto
      then show ?thesis using s(1) i(1) d(1) by simp
    qed
    moreover have "update_first (\<lambda>b. [copied (info (?a ! si)) b]) ?dst (map (\<lambda>k. info (?a ! k)) ch)
        = map (\<lambda>k. info (?a ! k)) pre @ info ?b # map (\<lambda>k. info (?a ! k)) post"
      using update_first_split [of "map (\<lambda>k. info (?a ! k)) pre" ?dst "info (?a ! i)" "\<lambda>b. [copied (info (?a ! si)) b]"] s
      by (simp add: copied_def info_def)
    moreover have "draw ?b (off_char ?b) (vmem f) = draw (info (?a ! i)) (off_char (?a ! i)) (vmem f)" using b by (simp add: draw_def)
    ultimately show ?thesis using r fd si di c(2) by (auto simp: fish_shows_def sync_spec_def intro!: exI [of _ ch])
  qed
qed

lemma ioctl_refines:
  assumes "fish_shows f w" "arg_ok arg cmd"
  shows "case ioctl_spec arg cmd w of
      None \<Rightarrow> mp1_ioctl arg cmd f = None
    | Some (r, arg', w') \<Rightarrow> \<exists>out f'. mp1_ioctl arg cmd f = Some (r, out, f') \<and> arg_info out = arg_info arg' \<and> fish_shows f' w'"
proof (cases arg)
  case (Struct b)
  then show ?thesis using add_refines [OF assms(1), of b] find_refines [OF assms(1), of b] assms
    by (cases "cmd = 0"; cases "cmd = 2"; cases "found (location b) (fst w)") (auto split: option.splits)
next
  case (Word l)
  then show ?thesis using remove_refines [OF assms(1), of l] sync_refines [OF assms(1), of l] by fastforce
qed

subsection \<open>The rhythm of a character\<close>

lemma ticked_data [simp]: "on_char (ticked b) = on_char b" "off_char (ticked b) = off_char b" "on_length (ticked b) = on_length b"
  "off_length (ticked b) = off_length b"
  by (simp_all add: ticked_def)

lemma due_of_nat: "0 < c \<Longrightarrow> c < 32768 \<Longrightarrow> countdown b = of_nat c \<Longrightarrow> due b \<longleftrightarrow> c = 1"
proof -
  assume c: "0 < c" "c < 32768" "countdown b = of_nat c"
  then obtain k where k: "c = Suc k" by (cases c) simp_all
  have "countdown b - 1 = of_nat k" using c(3) k by simp
  moreover have "sint (of_nat k :: u16) = int k"
    using c(2) k by (simp add: signed_of_nat signed_take_bit_int_eq_self)
  ultimately show ?thesis using k by (simp add: due_def word_sless_alt)
qed

lemma ticked_pow:
  assumes "0 <s on_length b" "0 <s off_length b"
  shows "(ticked ^^ n) (fresh b) =
    (let on = unat (on_length b); off = unat (off_length b); r = n mod (on + off)
     in if r < on then b\<lparr>blink_status := 1, countdown := of_nat (on - r)\<rparr> else b\<lparr>blink_status := 0, countdown := of_nat (off - (r - on))\<rparr>)"
proof -
  define on off where o: "on = unat (on_length b)" "off = unat (off_length b)"
  have w: "0 < unat x \<and> unat x < 32768" if "0 <s x" for x :: u16
  proof -
    have "sint x = (uint x + 32768) mod 65536 - 32768"
      unfolding sint_uint signed_take_bit_eq_take_bit_shift take_bit_eq_mod by simp
    then have "0 < (uint x + 32768) mod 65536 - 32768" using that by (simp add: word_sless_alt)
    moreover have u: "0 \<le> uint x" "uint x < 65536" using unsigned_less [of x] by simp_all
    moreover have "(uint x + 32768) mod 65536 = uint x - 32768" if "32768 \<le> uint x"
      using mod_pos_pos_trivial [of "uint x - 32768" 65536] mod_add_self2 [of "uint x - 32768" 65536] that u by (simp add: add.commute)
    moreover have "(uint x + 32768) mod 65536 = uint x + 32768" if "uint x < 32768"
      using mod_pos_pos_trivial [of "uint x + 32768" 65536] that u by simp
    ultimately have "0 < uint x \<and> uint x < 32768" by (cases "uint x < 32768") simp_all
    moreover have "int (unat x) = uint x" by simp
    ultimately show ?thesis by linarith
  qed
  have b: "0 < on" "on < 32768" "0 < off" "off < 32768" using w assms by (simp_all add: o)
  have "(ticked ^^ n) (fresh b) = (if n mod (on + off) < on then b\<lparr>blink_status := 1, countdown := of_nat (on - n mod (on + off))\<rparr>
      else b\<lparr>blink_status := 0, countdown := of_nat (off - (n mod (on + off) - on))\<rparr>)"
  proof (induction n)
    case 0
    then show ?case using b by (simp add: fresh_def o)
  next
    case (Suc n)
    define r where "r = n mod (on + off)"
    have r: "r < on + off" "Suc n mod (on + off) = (if Suc r = on + off then 0 else Suc r)" using b by (simp_all add: r_def mod_Suc)
    have n: "(ticked ^^ Suc n) (fresh b) = ticked ((ticked ^^ n) (fresh b))" by simp
    show ?case
    proof (cases "r < on")
      case True
      then have i: "(ticked ^^ n) (fresh b) = b\<lparr>blink_status := 1, countdown := of_nat (on - r)\<rparr>" using Suc by (simp add: r_def)
      have "due (b\<lparr>blink_status := 1, countdown := of_nat (on - r)\<rparr>) \<longleftrightarrow> on - r = 1"
        by (rule due_of_nat) (use True b in simp_all)
      moreover have "on - r = Suc (on - Suc r)" using True by simp
      then have "of_nat (on - r) - 1 = (of_nat (on - Suc r) :: u16)" by simp
      moreover have "Suc r \<noteq> on + off" "on - Suc r = 0 \<longleftrightarrow> Suc r = on" using True b by auto
      ultimately show ?thesis unfolding n i r(2) using True by (simp add: ticked_def) (simp add: o)
    next
      case False
      then have i: "(ticked ^^ n) (fresh b) = b\<lparr>blink_status := 0, countdown := of_nat (off - (r - on))\<rparr>" using Suc by (simp add: r_def)
      have "due (b\<lparr>blink_status := 0, countdown := of_nat (off - (r - on))\<rparr>) \<longleftrightarrow> off - (r - on) = 1"
        by (rule due_of_nat) (use False b r(1) in simp_all)
      moreover have "off - (r - on) = Suc (off - (Suc r - on))" using False r(1) by simp
      then have "of_nat (off - (r - on)) - 1 = (of_nat (off - (Suc r - on)) :: u16)" by simp
      moreover have "off - (Suc r - on) = 0 \<longleftrightarrow> Suc r = on + off" using False r(1) by auto
      ultimately show ?thesis unfolding n i r(2) using False b(1) by (simp add: ticked_def) (simp add: o)
    qed
  qed
  then show ?thesis by (simp add: o Let_def)
qed

lemma fold_drawn_other: "\<forall>c \<in> set bs. location c \<noteq> l \<Longrightarrow> fold drawn bs v ! (2 * unat l) = v ! (2 * unat l)"
proof (induction bs arbitrary: v)
  case (Cons c bs)
  have "unat (location c) \<noteq> unat l" using Cons.prems by (auto dest: unsigned_word_eqI)
  then have "drawn c v ! (2 * unat l) = v ! (2 * unat l)" by (simp add: drawn_def draw_def)
  then show ?case using Cons by simp
qed simp

lemma tick_screen:
  assumes "location b \<notin> location ` set bs" "location b < 2000" "length v = 4096"
    and "v ! (2 * unat (location b)) = (if blink_status b AND 1 = 0 then off_char b else on_char b)"
  shows "snd (tick_spec (b # bs, v)) ! (2 * unat (location b)) = (if blink_status (ticked b) AND 1 = 0 then off_char b else on_char b)"
proof -
  have "\<forall>c \<in> set bs. location c \<noteq> location b" using assms(1) by (metis image_eqI)
  then have "snd (tick_spec (b # bs, v)) ! (2 * unat (location b)) = drawn b v ! (2 * unat (location b))"
    using fold_drawn_other [of bs "location b" "drawn b v"] by (simp add: tick_spec_def)
  also have "drawn b v ! (2 * unat (location b)) = (if blink_status (ticked b) AND 1 = 0 then off_char b else on_char b)"
  proof -
    have "2 * unat (location b) < length v" using assms(2,3) by (simp add: word_less_nat_alt)
    moreover have "(blink_status b XOR 1) AND 1 = 0 \<longleftrightarrow> blink_status b AND 1 \<noteq> 0"
      by (cases "even (blink_status b)") (simp_all add: and_one_eq xor_one_eq mod_2_eq_odd)
    ultimately show ?thesis using assms(4) by (auto simp: drawn_def draw_def ticked_def)
  qed
  finally show ?thesis .
qed

lemma ticks_screen:
  assumes "location b \<notin> location ` set bs" "location b < 2000" "length v = 4096" "v ! (2 * unat (location b)) = on_char b"
    and "0 <s on_length b" "0 <s off_length b"
  shows "\<exists>v'. (tick_spec ^^ n) (fresh b # bs, v) = ((ticked ^^ n) (fresh b) # map (ticked ^^ n) bs, v') \<and> length v' = 4096
    \<and> v' ! (2 * unat (location b)) = shown_after b n"
proof -
  have o: "location ((ticked ^^ n) c) = location c" "on_char ((ticked ^^ n) c) = on_char c" "off_char ((ticked ^^ n) c) = off_char c" for c n
    by (induction n) simp_all
  have f: "location (fresh b) = location b" "on_char (fresh b) = on_char b" "off_char (fresh b) = off_char b" by (simp_all add: fresh_def)
  have lv: "length (fold drawn cs u) = length u" for cs u by (induction cs arbitrary: u) simp_all
  have "\<exists>v'. (tick_spec ^^ n) (fresh b # bs, v) = ((ticked ^^ n) (fresh b) # map (ticked ^^ n) bs, v') \<and> length v' = 4096
    \<and> v' ! (2 * unat (location b)) = (if blink_status ((ticked ^^ n) (fresh b)) AND 1 = 0 then off_char b else on_char b)"
  proof (induction n)
    case 0
    then show ?case using assms(3,4) by (simp add: fresh_def)
  next
    case (Suc n)
    then obtain v' where v': "(tick_spec ^^ n) (fresh b # bs, v) = ((ticked ^^ n) (fresh b) # map (ticked ^^ n) bs, v')" "length v' = 4096"
      "v' ! (2 * unat (location b)) = (if blink_status ((ticked ^^ n) (fresh b)) AND 1 = 0 then off_char b else on_char b)" by blast
    have "location ((ticked ^^ n) (fresh b)) \<notin> location ` set (map (ticked ^^ n) bs)" using assms(1) by (auto simp: o f)
    note s = tick_screen [OF this, of v', unfolded o f, OF assms(2) v'(2,3)]
    have "(tick_spec ^^ Suc n) (fresh b # bs, v) = tick_spec ((ticked ^^ n) (fresh b) # map (ticked ^^ n) bs, v')"
      using v'(1) by simp
    also have "\<dots> = ((ticked ^^ Suc n) (fresh b) # map (ticked ^^ Suc n) bs, snd (tick_spec ((ticked ^^ n) (fresh b) # map (ticked ^^ n) bs, v')))"
      by (simp add: tick_spec_def)
    finally show ?case using s v'(2) by (auto simp: tick_spec_def lv)
  qed
  then obtain v' where v': "(tick_spec ^^ n) (fresh b # bs, v) = ((ticked ^^ n) (fresh b) # map (ticked ^^ n) bs, v')" "length v' = 4096"
    "v' ! (2 * unat (location b)) = (if blink_status ((ticked ^^ n) (fresh b)) AND 1 = 0 then off_char b else on_char b)" by blast
  have "(blink_status ((ticked ^^ n) (fresh b)) AND 1 = 0) = (\<not> n mod (unat (on_length b) + unat (off_length b)) < unat (on_length b))"
    using ticked_pow [OF assms(5,6), of n] by (simp add: Let_def)
  then have "v' ! (2 * unat (location b)) = shown_after b n" using v'(3) by (simp add: shown_after_def)
  then show ?thesis using v'(1,2) by blast
qed

lemma tasklets_refine:
  "fish_shows f w \<Longrightarrow> \<exists>f'. each (\<lambda>_. mp1_rtc_tasklet) xs f = Some f' \<and> fish_shows f' ((tick_spec ^^ length xs) w)"
proof (induction xs arbitrary: f w)
  case (Cons x xs)
  then obtain f1 where f1: "mp1_rtc_tasklet f = Some f1" "fish_shows f1 (tick_spec w)" using tasklet_refines by blast
  then show ?case using Cons.IH [OF f1(2)] by (simp add: funpow_swap1)
qed simp


text \<open>
  C35. A blinking character keeps its time: added at a location of the screen that no other one uses, after any number \<open>n\<close> of interrupts the
  display shows its first character during the first \<open>on_length\<close> of every \<open>on_length + off_length\<close> interrupts and its second one
  during the rest, whatever else blinks.
\<close>

theorem blink_keeps_time:
  assumes "fish_shows f (bs, v)" "length bs < 2000" "location b \<notin> location ` set bs" "location b \<noteq> 0" "location b < 2000"
    and "0 <s on_length b" "0 <s off_length b"
  shows "\<exists>f1 f2. mp1_ioctl (Struct b) 0 f = Some (0, Struct b, f1) \<and> each (\<lambda>_. mp1_rtc_tasklet) [0..<n] f1 = Some f2
    \<and> vmem f2 ! (2 * unat (location b)) = shown_after b n"
proof -
  let ?v = "draw b (on_char b) v"
  have s: "add_spec b (bs, v) = (0, info (fresh b) # bs, ?v)" using assms(2,5) by (simp add: add_spec_def fresh_def)
  obtain f1 where f1: "mp1_ioctl_add b f = Some (0, f1)" "fish_shows f1 (info (fresh b) # bs, ?v)"
    using add_refines [OF assms(1,4)] unfolding s by auto
  obtain f2 where f2: "each (\<lambda>_. mp1_rtc_tasklet) [0..<n] f1 = Some f2" "fish_shows f2 ((tick_spec ^^ n) (info (fresh b) # bs, ?v))"
    using tasklets_refine [OF f1(2), of "[0..<n]"] by auto
  have l: "length v = 4096" using assms(1) by (auto simp: fish_shows_def fish_list_def)
  have i: "info (fresh b) = fresh (info b)" by (simp add: info_def fresh_def)
  have "?v ! (2 * unat (location b)) = on_char b" using l assms(5) by (simp add: draw_def word_less_nat_alt)
  then obtain v' where v': "snd ((tick_spec ^^ n) (info (fresh b) # bs, ?v)) = v'" "v' ! (2 * unat (location b)) = shown_after (info b) n"
    using ticks_screen [of "info b" bs ?v n] assms(3,5-7) l unfolding i by auto
  have "vmem f2 = v'" using f2(2) v'(1) by (auto simp: fish_shows_def split: prod.splits)
  then show ?thesis using f1(1) f2(1) v'(2) by (auto simp: shown_after_def)
qed

text \<open>
  Synchronising shows the second character of the target even when it is in its first phase: the flags the instruction tests are those
  of a result that is never negative.
\<close>

lemma sync_shows_second:
  assumes "fish_shows f (bs, v)" "found (ucast (drop_bit 16 arg)) bs = Some a" "found (ucast arg) bs = Some b"
  shows "\<exists>f'. mp1_ioctl (Word arg) 3 f = Some (0, Word arg, f') \<and> vmem f' = draw b (off_char b) v
    \<and> found (ucast arg) (update_first (\<lambda>b. [copied a b]) (ucast arg) bs) = Some (copied a b)"
proof -
  have "found l (update_first (\<lambda>b. [copied a b]) l bs) = Some (copied a b)" if "found l bs = Some b" for l
    using that by (induction bs) (auto simp: found_def copied_def split: if_splits)
  then show ?thesis using sync_refines [OF assms(1), of arg] assms(2,3) by (auto simp: sync_spec_def fish_shows_def)
qed

text \<open>
  The allocator takes a structure for free when its location is 0.  After adding a character at the top left corner the next character
  gets the same structure, which then follows itself: the interrupt routine does not end.
\<close>

lemma tasklet_cycle: "tasklet_loop p f = Some y \<Longrightarrow> \<not> (p = Some i \<and> next_blink (blink_array f ! i) = Some i)"
proof (erule tasklet_loop.raw_induct [rotated], goal_cases)
  case (1 tl p f y)
  show ?case
  proof
    assume p: "p = Some i \<and> next_blink (blink_array f ! i) = Some i"
    then obtain g where g: "tick_blink i f = Some g" "i < length (blink_array g)" "tl (next_blink (blink_array g ! i)) g = Some y"
      using 1(2) by (auto simp: Option.bind_eq_Some_conv rd_eq_Some_iff)
    have "next_blink (blink_array g ! i) = Some i" using g(1) p
      by (auto simp: tick_blink_def put_blink_def mp1_poke_def wr_eq_Some_iff Option.bind_eq_Some_conv rd_eq_Some_iff Let_def split: if_splits)
    then show False using 1(1) [OF g(3)] by simp
  qed
qed

lemma corner_loops:
  assumes "mp1_malloc f = Some i" "location a = 0" "location b < 2000" "length (vmem f) = 4096"
  shows "\<exists>f1 f2. mp1_ioctl_add a f = Some (0, f1) \<and> mp1_ioctl_add b f1 = Some (0, f2)
    \<and> mp1_list_head f2 = Some i \<and> next_blink (blink_array f2 ! i) = Some i \<and> mp1_rtc_tasklet f2 = None"
proof -
  have i: "i < length (blink_array f)" "location (blink_array f ! i) = 0" using mp1_malloc_Some [OF assms(1)] by simp_all
  let ?a = "a\<lparr>blink_status := 1, countdown := on_length a, next_blink := mp1_list_head f\<rparr>"
  let ?f = "f\<lparr>blink_array := (blink_array f)[i := ?a], mp1_list_head := Some i, vmem := draw a (on_char a) (vmem f)\<rparr>"
  have f1: "mp1_ioctl_add a f = Some (0, ?f)"
    using assms i poke_cell [of ?a "f\<lparr>blink_array := (blink_array f)[i := ?a], mp1_list_head := Some i\<rparr>" "on_char a"]
    by (simp add: mp1_ioctl_add_def Let_def put_blink_def draw_def)
  have m: "mp1_malloc ?f = Some i"
  proof -
    have "map location (blink_array ?f) = map location (blink_array f)" using i assms(2) list_update_id [of "map location (blink_array f)" i]
      by (simp add: map_update)
    then show ?thesis using assms(1) malloc_scan_cong [of "blink_array ?f" "blink_array f"] by (simp add: mp1_malloc_def)
  qed
  let ?b = "b\<lparr>blink_status := 1, countdown := on_length b, next_blink := Some i\<rparr>"
  let ?g = "?f\<lparr>blink_array := (blink_array ?f)[i := ?b], mp1_list_head := Some i\<rparr>"
  have "mp1_ioctl_add b ?f = Some (0, ?g\<lparr>vmem := draw b (on_char b) (vmem ?f)\<rparr>)"
    using assms i m poke_cell [of ?b ?g "on_char b"] by (simp add: mp1_ioctl_add_def Let_def put_blink_def draw_def not_le)
  moreover have "mp1_rtc_tasklet (?g\<lparr>vmem := draw b (on_char b) (vmem ?f)\<rparr>) = None"
  proof (rule ccontr)
    assume "mp1_rtc_tasklet (?g\<lparr>vmem := draw b (on_char b) (vmem ?f)\<rparr>) \<noteq> None"
    then obtain y where "mp1_rtc_tasklet (?g\<lparr>vmem := draw b (on_char b) (vmem ?f)\<rparr>) = Some y" by auto
    from tasklet_cycle [OF this [unfolded mp1_rtc_tasklet_def], of i] show False using i(1) by simp
  qed
  ultimately show ?thesis using f1 i(1) by auto
qed

subsection \<open>Instances\<close>

lemma fish_start_shows: "fish_shows fish_start ([], replicate 4096 0)"
  by (auto simp: fish_shows_def fish_list_def fish_start_def blink_zero_def)


theorem blink_keeps_time_witness:
  "\<exists>f1 f2. mp1_ioctl (Struct (blink_zero\<lparr>location := 540, on_char := 73, off_char := 77, on_length := 7, off_length := 6\<rparr>)) 0 fish_start
      = Some (0, Struct (blink_zero\<lparr>location := 540, on_char := 73, off_char := 77, on_length := 7, off_length := 6\<rparr>), f1)
    \<and> each (\<lambda>_. mp1_rtc_tasklet) [0..<100] f1 = Some f2 \<and> vmem f2 ! 1080 = 77"
  using blink_keeps_time [OF fish_start_shows, of "blink_zero\<lparr>location := 540, on_char := 73, off_char := 77, on_length := 7, off_length := 6\<rparr>" 100]
  by (simp add: word_sless_alt shown_after_def del: upt_rec_numeral)

end
