(* ===== verification/Fish.thy ===== *)
theory Fish
  imports Fish_Blink User_Grep
begin

text \<open>
  The fish animation, \<^verbatim>\<open>fish/fish.c\<close>: two text files are read side by side, line by line, and every place where one of
  them has a character becomes a character that blinks between the two; then the program lets them blink with the ticks of the
  real-time clock, adds one of its own, synchronises and removes it.
\<close>

text \<open>One more character of a file, unless its line has ended; the end of the file ends the line.\<close>

definition read_char :: "'s os \<Rightarrow> int \<Rightarrow> u8 \<Rightarrow> bool \<Rightarrow> 's \<Rightarrow> (u8 \<times> bool \<times> 's) option" where
  "read_char os fd c eof st =
     (if c \<noteq> NL
      then do {
        (b, num_bytes, st) \<leftarrow> os_read os fd [c] 1 st;
        if num_bytes = 0 then Some (NL, True, st) else do { c \<leftarrow> rd b 0; Some (c, eof, st) } }
      else Some (c, eof, st))"

definition add_cell :: "blink \<Rightarrow> int \<Rightarrow> int \<Rightarrow> u8 \<Rightarrow> u8 \<Rightarrow> fish \<Rightarrow> fish option" where
  "add_cell b row col c0 c1 f =
     (if c0 \<noteq> SPACE \<and> c0 \<noteq> NL \<or> c1 \<noteq> SPACE \<and> c1 \<noteq> NL
      then do {
        (_, _, f) \<leftarrow> mp1_ioctl (Struct (b\<lparr>on_char := (if c0 = NL then SPACE else c0), off_char := (if c1 = NL then SPACE else c1),
          location := word_of_int (row * 80 + col + 40)\<rparr>)) 0 f;
        Some f }
      else Some f)"

partial_function (option) frame_row :: "'s os \<Rightarrow> int \<Rightarrow> int \<Rightarrow> blink \<Rightarrow> int \<Rightarrow> int \<Rightarrow> u8 \<Rightarrow> u8 \<Rightarrow> bool \<Rightarrow> bool \<Rightarrow> 's \<Rightarrow> fish
    \<Rightarrow> (bool \<times> bool \<times> 's \<times> fish) option" where
  "frame_row os fd0 fd1 b row col c0 c1 eof0 eof1 st f = do {
     (c0, eof0, st) \<leftarrow> read_char os fd0 c0 eof0 st;
     (c1, eof1, st) \<leftarrow> read_char os fd1 c1 eof1 st;
     if c0 = NL \<and> c1 = NL then Some (eof0, eof1, st, f)
     else do {
       f \<leftarrow> add_cell b row col c0 c1 f;
       frame_row os fd0 fd1 b row (col + 1) c0 c1 eof0 eof1 st f } }"

text \<open>Between two rows: a file that has ended is closed, once more on each row, and is not read again.\<close>

definition next_row :: "'s os \<Rightarrow> int \<Rightarrow> bool \<Rightarrow> 's \<Rightarrow> (u8 \<times> 's) option" where
  "next_row os fd eof st =
     (if eof then do { (_, st) \<leftarrow> os_close os fd st; Some (NL, st) } else Some (of_char (CHR ''0''), st))"

partial_function (option) frame_rows :: "'s os \<Rightarrow> int \<Rightarrow> int \<Rightarrow> blink \<Rightarrow> int \<Rightarrow> u8 \<Rightarrow> u8 \<Rightarrow> bool \<Rightarrow> bool \<Rightarrow> 's \<Rightarrow> fish
    \<Rightarrow> ('s \<times> fish) option" where
  "frame_rows os fd0 fd1 b row c0 c1 eof0 eof1 st f =
     (if \<not> eof0 \<or> \<not> eof1
      then do {
        (eof0, eof1, st, f) \<leftarrow> frame_row os fd0 fd1 b row 0 c0 c1 eof0 eof1 st f;
        (c0, st) \<leftarrow> next_row os fd0 eof0 st;
        (c1, st) \<leftarrow> next_row os fd1 eof1 st;
        frame_rows os fd0 fd1 b (row + 1) c0 c1 eof0 eof1 st f }
      else Some (st, f))"

text \<open>The result is the status of \<open>ece391_halt\<close>, or the program's data; \<open>junk\<close> is the local structure before its fields are set.\<close>

definition add_frames :: "'s os \<Rightarrow> buf \<Rightarrow> buf \<Rightarrow> blink \<Rightarrow> 's \<Rightarrow> fish \<Rightarrow> ((int + fish) \<times> 's) option" where
  "add_frames os f0 f1 junk st f = do {
     let b = junk\<lparr>on_length := 15, off_length := 15\<rparr>;
     (fd0, st) \<leftarrow> os_open os f0 st;
     if fd0 < 0 then Some (Inl (-1), st)
     else do {
       (fd1, st) \<leftarrow> os_open os f1 st;
       if fd1 < 0 then Some (Inl (-1), st)
       else do {
         (st, f) \<leftarrow> frame_rows os fd0 fd1 b 0 (of_char (CHR ''0'')) (of_char (CHR ''0'')) False False st f;
         Some (Inr f, st) } } }"

text \<open>\<open>mp1_set_video_mode\<close>: 0 for the null pointer; the video page is where the kernel puts it, at a multiple of its size.\<close>

definition mp1_set_video_mode :: "'s os \<Rightarrow> u32 \<Rightarrow> 's \<Rightarrow> (bool \<times> 's) option" where
  "mp1_set_video_mode os vmem_base_addr st = do {
     (r, st) \<leftarrow> os_vidmap os vmem_base_addr st;
     Some (r \<noteq> -1, st) }"

text \<open>The four loops of the main program: a read of the clock's file, then the interrupt routine.\<close>

definition wait_ticks :: "'s os \<Rightarrow> int \<Rightarrow> buf \<Rightarrow> 's \<times> fish \<Rightarrow> ('s \<times> fish) option" where
  "wait_ticks os rtc_fd garbage =
     each (\<lambda>_ (st, f). do {
       (_, _, st) \<leftarrow> os_read os rtc_fd garbage 4 st;
       f \<leftarrow> mp1_rtc_tasklet f;
       Some (st, f) }) [0..<100]"

definition fish_blinks :: "'s os \<Rightarrow> int \<Rightarrow> buf \<Rightarrow> blink \<Rightarrow> 's \<Rightarrow> fish \<Rightarrow> (int \<times> 's \<times> fish) option" where
  "fish_blinks os rtc_fd garbage junk st f = do {
     (_, st) \<leftarrow> os_write os rtc_fd [32, 0, 0, 0] 4 st;
     (st, f) \<leftarrow> wait_ticks os rtc_fd garbage (st, f);
     (_, _, f) \<leftarrow> mp1_ioctl (Struct (junk\<lparr>on_char := of_char (CHR ''I''), off_char := of_char (CHR ''M''), on_length := 7, off_length := 6,
       location := 6 * 80 + 60\<rparr>)) 0 f;
     (st, f) \<leftarrow> wait_ticks os rtc_fd garbage (st, f);
     (_, _, f) \<leftarrow> mp1_ioctl (Word (push_bit 16 40 OR (6 * 80 + 60))) 3 f;
     (st, f) \<leftarrow> wait_ticks os rtc_fd garbage (st, f);
     (_, _, f) \<leftarrow> mp1_ioctl (Word (6 * 80 + 60)) 1 f;
     (st, f) \<leftarrow> wait_ticks os rtc_fd garbage (st, f);
     (_, st) \<leftarrow> os_close os rtc_fd st;
     Some (0, st, f) }"

definition fish_main :: "'s os \<Rightarrow> u32 \<Rightarrow> buf \<Rightarrow> blink \<Rightarrow> blink \<Rightarrow> 's \<Rightarrow> fish \<Rightarrow> (int \<times> 's \<times> fish) option" where
  "fish_main os vmem_base_addr garbage junk junk' st f = do {
     let f = f\<lparr>blink_array := replicate 2000 blink_zero\<rparr>;
     (ok, st) \<leftarrow> mp1_set_video_mode os vmem_base_addr st;
     if \<not> ok then Some (-1, st, f)
     else do {
       (rtc_fd, st) \<leftarrow> os_open os (msg ''rtc'') st;
       (r, st) \<leftarrow> add_frames os (msg ''frame0.txt'') (msg ''frame1.txt'') junk' st f;
       (case r of Inl x \<Rightarrow> Some (x, st, f) | Inr f \<Rightarrow> fish_blinks os rtc_fd garbage junk st f) } }"

subsection \<open>What the frames add\<close>

text \<open>The characters of one row from two lines, the shorter one padded with spaces, and those of all rows.\<close>

definition pad :: "buf \<Rightarrow> u8" where
  "pad l = (case l of [] \<Rightarrow> SPACE | c # _ \<Rightarrow> c)"

function row_cells :: "blink \<Rightarrow> int \<Rightarrow> int \<Rightarrow> buf \<Rightarrow> buf \<Rightarrow> blink list" where
  "row_cells b row col l0 l1 =
     (if l0 = [] \<and> l1 = [] then []
      else (if pad l0 = SPACE \<and> pad l1 = SPACE then []
            else [b\<lparr>on_char := pad l0, off_char := pad l1, location := word_of_int (row * 80 + col + 40)\<rparr>])
        @ row_cells b row (col + 1) (tl l0) (tl l1))"
  by pat_completeness auto
termination
  by (relation "measure (\<lambda>(b, row, col, l0, l1). length l0 + length l1)") (auto simp: neq_Nil_conv)

definition first_line :: "buf list \<Rightarrow> buf" where
  "first_line ls = (case ls of [] \<Rightarrow> [] | l # _ \<Rightarrow> l)"

function frame_cells :: "blink \<Rightarrow> int \<Rightarrow> buf list \<Rightarrow> buf list \<Rightarrow> blink list" where
  "frame_cells b row ls0 ls1 =
     (if ls0 = [] \<and> ls1 = [] then []
      else row_cells b row 0 (first_line ls0) (first_line ls1) @ frame_cells b (row + 1) (tl ls0) (tl ls1))"
  by pat_completeness auto
termination
  by (relation "measure (\<lambda>(b, row, ls0, ls1). length ls0 + length ls1)") (auto simp: neq_Nil_conv)

definition add_all :: "blink list \<Rightarrow> fish \<Rightarrow> fish option" where
  "add_all bs f = each (\<lambda>b f. map_option snd (mp1_ioctl_add b f)) bs f"

declare row_cells.simps [simp del] frame_cells.simps [simp del]

text \<open>The end of a line that starts at \<open>p\<close>: where the next one starts, and whether the file has ended.\<close>

definition line_end :: "buf \<Rightarrow> nat \<Rightarrow> bool \<Rightarrow> nat \<times> bool" where
  "line_end content p eof =
     (if NL \<in> set (drop p content) then (p + length (hd (split_lines (drop p content))) + 1, eof) else (length content, True))"

text \<open>
  The line a file is in, from its current character on, and how that line will end: a file whose current character is a newline has
  finished its line.  Then the lines it still has before a row, none when it has been closed, and its character there.
\<close>

definition in_line :: "buf \<Rightarrow> u8 \<Rightarrow> nat option \<Rightarrow> buf" where
  "in_line content c q = (case q of None \<Rightarrow> [] | Some p \<Rightarrow> if c = NL then [] else hd (split_lines (drop p content)))"

definition line_to :: "buf \<Rightarrow> u8 \<Rightarrow> nat option \<Rightarrow> bool \<Rightarrow> nat option \<times> bool" where
  "line_to content c q eof = (case q of None \<Rightarrow> (q, eof) | Some p \<Rightarrow> if c = NL then (q, eof) else map_prod Some id (line_end content p eof))"

definition lines_left :: "buf \<Rightarrow> nat option \<Rightarrow> buf list" where
  "lines_left content p = (case p of None \<Rightarrow> [] | Some k \<Rightarrow> split_lines (drop k content))"

definition row_char :: "bool \<Rightarrow> u8" where
  "row_char eof = (if eof then NL else of_char (CHR ''0''))"

text \<open>
  A session of the kernel in which the two files are open at a position, or closed, and nothing else has changed.
\<close>

definition fd_entry :: "u32 \<Rightarrow> nat option \<Rightarrow> fd_t" where
  "fd_entry ino q = (case q of None \<Rightarrow> closed_entry
     | Some p \<Rightarrow> \<lparr>file_op_table_ptr = File_opt, fd_inode_num = ino, file_pos = of_nat p, fd_flags = 1\<rparr>)"

definition file_pos_ok :: "buf \<Rightarrow> u32 \<Rightarrow> nat option \<Rightarrow> bool" where
  "file_pos_ok img ino q \<longleftrightarrow> unat ino < img32 img 4 \<and> (case q of None \<Rightarrow> True | Some p \<Rightarrow> p \<le> file_len img (unat ino))"

definition pair_at :: "'a session \<Rightarrow> buf \<Rightarrow> int \<Rightarrow> u32 \<Rightarrow> int \<Rightarrow> u32 \<Rightarrow> nat option \<Rightarrow> nat option \<Rightarrow> 'a session \<Rightarrow> bool" where
  "pair_at st img fd0 i0 fd1 i1 p q st' \<longleftrightarrow> (let s = fst st in
     st' = (set_fd (cur_pid s) (nat fd0) (fd_entry i0 p) (set_fd (cur_pid s) (nat fd1) (fd_entry i1 q) s), snd st)
     \<and> out_ok s \<and> fs_wf img \<and> fs_img s = img \<and> 2 \<le> fd0 \<and> fd0 < 8 \<and> 2 \<le> fd1 \<and> fd1 < 8 \<and> fd0 \<noteq> fd1
     \<and> file_pos_ok img i0 p \<and> file_pos_ok img i1 q)"

text \<open>A session in which the clock's file is open and the ticks for \<open>n\<close> more reads of it are to come.\<close>

definition rtc_fd_at :: "int \<Rightarrow> 'a proc_scheme \<Rightarrow> bool" where
  "rtc_fd_at fd s \<longleftrightarrow> rtc_inv s \<and> out_ok s \<and> 2 \<le> fd \<and> fd < 8
     \<and> file_op_table_ptr (fdt_of (cur_pid s) s ! nat fd) = Rtc_opt \<and> fd_flags (fdt_of (cur_pid s) s ! nat fd) = 1"

definition clock_at :: "int \<Rightarrow> 'a proc_scheme handlers list \<Rightarrow> nat \<Rightarrow> 'a session \<Rightarrow> bool" where
  "clock_at fd bt0 n = (\<lambda>(s, bt). bt = replicate n (replicate 1024 rtc_handler) @ bt0 \<and> rtc_fd_at fd s)"

text \<open>What the main program shows after the frames: four times a hundred ticks, and between them its own character.\<close>

definition own_blink :: "blink \<Rightarrow> blink" where
  "own_blink junk = junk\<lparr>on_char := of_char (CHR ''I''), off_char := of_char (CHR ''M''), on_length := 7, off_length := 6, location := 540\<rparr>"

definition fish_shown :: "blink \<Rightarrow> blink list \<times> buf \<Rightarrow> blink list \<times> buf" where
  "fish_shown junk w = (let t = tick_spec ^^ 100
     in t (snd (remove_spec 540 (t (snd (sync_spec 40 540 (t (snd (add_spec (own_blink junk) (t w))))))))))"

text \<open>An image with the clock and two small frames, and a state on it in which the video page is mapped.\<close>

definition fish_img :: buf where
  "fish_img = [4, 0, 0, 0, 2, 0, 0, 0, 2, 0, 0, 0] @ replicate 52 0
     @ [46] @ replicate 31 0 @ [1, 0, 0, 0, 0, 0, 0, 0] @ replicate 24 0
     @ [114, 116, 99] @ replicate 29 0 @ [0, 0, 0, 0, 0, 0, 0, 0] @ replicate 24 0
     @ [102, 114, 97, 109, 101, 48, 46, 116, 120, 116] @ replicate 22 0 @ [2, 0, 0, 0, 0, 0, 0, 0] @ replicate 24 0
     @ [102, 114, 97, 109, 101, 49, 46, 116, 120, 116] @ replicate 22 0 @ [2, 0, 0, 0, 1, 0, 0, 0] @ replicate 3800 0
     @ [3, 0, 0, 0, 0, 0, 0, 0] @ replicate 4088 0 @ [2, 0, 0, 0, 1, 0, 0, 0] @ replicate 4088 0
     @ [97, 10, 98] @ replicate 4093 0 @ [120, 121] @ replicate 4094 0"

definition fish_state :: proc where
  "fish_state = user_state\<lparr>fs_img := fish_img, pt_user := (pt_user user_state)(VID_MEM_INDEX := pte True True 0xB8)\<rparr>"

subsection \<open>Reading two files side by side\<close>

lemma add_all_append: "add_all (as @ bs) f = Option.bind (add_all as f) (add_all bs)"
  by (simp add: add_all_def [abs_def] each_append)

lemma add_cell_eq:
  assumes "c0 = NL \<longrightarrow> l0 = []" "c1 = NL \<longrightarrow> l1 = []" "c0 \<noteq> NL \<longrightarrow> (\<exists>t. l0 = c0 # t)" "c1 \<noteq> NL \<longrightarrow> (\<exists>t. l1 = c1 # t)"
  shows "add_cell b row col c0 c1 f = add_all (if pad l0 = SPACE \<and> pad l1 = SPACE then []
    else [b\<lparr>on_char := pad l0, off_char := pad l1, location := word_of_int (row * 80 + col + 40)\<rparr>]) f"
proof -
  have p: "pad l0 = (if c0 = NL then SPACE else c0)" "pad l1 = (if c1 = NL then SPACE else c1)"
    using assms by (auto simp: pad_def)
  show ?thesis unfolding p add_cell_def add_all_def
    by (auto simp: bind_eq_None_conv map_option_case split: option.splits)
qed

text \<open>
  What a program that reads two files one byte at a time may expect: a read gives the next byte or, at the end, nothing, and a closed
  file may be closed again; neither touches the other file.  The first argument of \<open>at\<close> is the position in the file, the second stands for the other one.
\<close>

locale char_file =
  fixes os :: "'s os" and fd :: int and content :: buf and at :: "nat option \<Rightarrow> 'r \<Rightarrow> 's \<Rightarrow> bool"
  assumes read_one: "at (Some p) r st \<Longrightarrow> p < length content \<Longrightarrow>
      \<exists>st'. os_read os fd [c] 1 st = Some ([content ! p], 1, st') \<and> at (Some (Suc p)) r st'"
    and read_end: "at (Some (length content)) r st \<Longrightarrow>
      \<exists>st'. os_read os fd [c] 1 st = Some ([c], 0, st') \<and> at (Some (length content)) r st'"
    and at_fits: "at (Some p) r st \<Longrightarrow> p \<le> length content"
    and close_any: "at q r st \<Longrightarrow> \<exists>x st'. os_close os fd st = Some (x, st') \<and> at None r st'"
begin

lemma read_char_line:
  assumes "at q r st" "c \<noteq> NL \<longrightarrow> q \<noteq> None"
  shows "\<exists>c' eof' q' st'. read_char os fd c eof st = Some (c', eof', st') \<and> at q' r st' \<and> (c' \<noteq> NL \<longrightarrow> q' \<noteq> None)
    \<and> line_to content c' q' eof' = line_to content c q eof \<and> (c' = NL \<longrightarrow> in_line content c q = []) \<and> (c' \<noteq> NL \<longrightarrow> in_line content c q = c' # in_line content c' q')"
proof (cases "c = NL")
  case True
  then show ?thesis using assms by (cases q) (auto simp: read_char_def in_line_def)
next
  case False
  then obtain p where q: "q = Some p" using assms(2) by auto
  show ?thesis
  proof (cases "p < length content")
    case True
    obtain st' where st': "os_read os fd [c] 1 st = Some ([content ! p], 1, st')" "at (Some (Suc p)) r st'"
      using read_one [of p r st c] assms(1) q True by auto
    have d: "drop p content = content ! p # drop (Suc p) content" using True by (simp add: Cons_nth_drop_Suc)
    have r: "read_char os fd c eof st = Some (content ! p, eof, st')" using st' False by (simp add: read_char_def)
    have "line_to content (content ! p) (Some (Suc p)) eof = line_to content c q eof" using False q d
      by (cases "content ! p = NL") (simp_all add: line_to_def line_end_def)
    then show ?thesis using r st'(2) False q d by (auto simp: in_line_def)
  next
    case out: False
    then have p: "p = length content" using at_fits assms(1) q by fastforce
    obtain st' where "os_read os fd [c] 1 st = Some ([c], 0, st')" "at (Some p) r st'"
      using read_end [of r st c] assms(1) q p by auto
    then show ?thesis using False q p
      by (intro exI [of _ NL] exI [of _ True] exI [of _ q] exI [of _ st']) (simp add: read_char_def in_line_def line_to_def line_end_def)
  qed
qed

end

lemma lines_left_tl: "line_end content k False = (k', e) \<Longrightarrow>
    tl (lines_left content (Some k)) = lines_left content (if e then None else Some k')"
proof -
  assume a: "line_end content k False = (k', e)"
  show ?thesis
  proof (cases "NL \<in> set (drop k content)")
    case True
    obtain l t where t: "drop k content = l @ NL # t" "NL \<notin> set l" using split_list_first [OF True] by blast
    then have s: "split_lines (drop k content) = l # split_lines t" by (simp add: split_lines_first)
    have "drop (k + length l + 1) content = drop (length l + 1) (drop k content)" by (simp add: add.commute add.left_commute)
    then have "drop (k + length l + 1) content = t" using t(1) by simp
    then show ?thesis using a True s by (auto simp: line_end_def lines_left_def)
  next
    case False
    then show ?thesis using a by (auto simp: line_end_def lines_left_def split_lines_line)
  qed
qed

locale two_files = one: char_file os fd0 content0 at + two: char_file os fd1 content1 "\<lambda>q p. at p q"
  for os :: "'s os" and fd0 fd1 :: int and content0 content1 :: buf and at :: "nat option \<Rightarrow> nat option \<Rightarrow> 's \<Rightarrow> bool"
begin

lemma frame_row_reads:
  "at p q st \<Longrightarrow> (c0 \<noteq> NL \<longrightarrow> p \<noteq> None) \<Longrightarrow> (c1 \<noteq> NL \<longrightarrow> q \<noteq> None) \<Longrightarrow> l0 = in_line content0 c0 p \<Longrightarrow> l1 = in_line content1 c1 q
    \<Longrightarrow> add_all (row_cells b row col l0 l1) f = Some f'
    \<Longrightarrow> \<exists>st'. frame_row os fd0 fd1 b row col c0 c1 eof0 eof1 st f =
          Some (snd (line_to content0 c0 p eof0), snd (line_to content1 c1 q eof1), st', f')
        \<and> at (fst (line_to content0 c0 p eof0)) (fst (line_to content1 c1 q eof1)) st'"
proof (induction b row col l0 l1 arbitrary: p q st c0 c1 eof0 eof1 f rule: row_cells.induct)
  case (1 b row col l0 l1)
  obtain c0' eof0' p' st1 where r0: "read_char os fd0 c0 eof0 st = Some (c0', eof0', st1)" "at p' q st1" "c0' \<noteq> NL \<longrightarrow> p' \<noteq> None"
    "line_to content0 c0' p' eof0' = line_to content0 c0 p eof0" "c0' = NL \<longrightarrow> l0 = []" "c0' \<noteq> NL \<longrightarrow> l0 = c0' # in_line content0 c0' p'"
    using one.read_char_line [OF 1(2,3), of eof0] 1(5) by blast
  obtain c1' eof1' q' st2 where r1: "read_char os fd1 c1 eof1 st1 = Some (c1', eof1', st2)" "at p' q' st2" "c1' \<noteq> NL \<longrightarrow> q' \<noteq> None"
    "line_to content1 c1' q' eof1' = line_to content1 c1 q eof1" "c1' = NL \<longrightarrow> l1 = []" "c1' \<noteq> NL \<longrightarrow> l1 = c1' # in_line content1 c1' q'"
    using two.read_char_line [OF r0(2) 1(4), of eof1] 1(6) by blast
  show ?case
  proof (cases "c0' = NL \<and> c1' = NL")
    case True
    then have "l0 = []" "l1 = []" using r0(5) r1(5) by simp_all
    then have "f' = f" using 1(7) by (simp add: row_cells.simps [of b row col "[]" "[]"] add_all_def)
    moreover have "line_to content0 c0 p eof0 = (p', eof0')" "line_to content1 c1 q eof1 = (q', eof1')"
      unfolding r0(4) [symmetric] r1(4) [symmetric] using True by (simp_all add: line_to_def split: option.split)
    ultimately show ?thesis using r0(1) r1(1,2) True by (subst frame_row.simps) auto
  next
    case False
    then have n: "\<not> (l0 = [] \<and> l1 = [])" using r0(6) r1(6) by auto
    let ?c = "if pad l0 = SPACE \<and> pad l1 = SPACE then []
      else [b\<lparr>on_char := pad l0, off_char := pad l1, location := word_of_int (row * 80 + col + 40)\<rparr>]"
    have "row_cells b row col l0 l1 = ?c @ row_cells b row (col + 1) (tl l0) (tl l1)"
      by (simp only: row_cells.simps [of b row col l0 l1] n if_False)
    then obtain f1 where f1: "add_all ?c f = Some f1" "add_all (row_cells b row (col + 1) (tl l0) (tl l1)) f1 = Some f'"
      using 1(7) by (auto simp: add_all_append Option.bind_eq_Some_conv)
    have a: "add_cell b row col c0' c1' f = Some f1"
      using add_cell_eq [of c0' l0 c1' l1 b row col f] r0(5,6) r1(5,6) f1(1) by auto
    have t: "tl l0 = in_line content0 c0' p'" "tl l1 = in_line content1 c1' q'"
      using r0(5,6) r1(5,6) by (auto simp: in_line_def split: option.splits)
    obtain st' where "frame_row os fd0 fd1 b row (col + 1) c0' c1' eof0' eof1' st2 f1 =
          Some (snd (line_to content0 c0' p' eof0'), snd (line_to content1 c1' q' eof1'), st', f')"
        "at (fst (line_to content0 c0' p' eof0')) (fst (line_to content1 c1' q' eof1')) st'"
      using 1(1) [OF n r1(2) r0(3) r1(3) t f1(2), of eof0' eof1'] by blast
    then show ?thesis using r0(1,4) r1(1,4) a False by (subst frame_row.simps) auto
  qed
qed

lemma frame_rows_read:
  "at p q st \<Longrightarrow> ls0 = lines_left content0 p \<Longrightarrow> ls1 = lines_left content1 q \<Longrightarrow> add_all (frame_cells b row ls0 ls1) f = Some f'
    \<Longrightarrow> \<exists>st'. frame_rows os fd0 fd1 b row (row_char (p = None)) (row_char (q = None)) (p = None) (q = None) st f = Some (st', f') \<and> at None None st'"
proof (induction b row ls0 ls1 arbitrary: p q st f rule: frame_cells.induct)
  case (1 b row ls0 ls1)
  show ?case
  proof (cases "p = None \<and> q = None")
    case True
    then have "ls0 = []" "ls1 = []" using 1(3,4) by (simp_all add: lines_left_def)
    then have "f' = f" using 1(5) by (simp add: frame_cells.simps [of b row "[]" "[]"] add_all_def)
    then show ?thesis using 1(2) True by (subst frame_rows.simps) simp
  next
    case False
    then have n: "\<not> (ls0 = [] \<and> ls1 = [])" using 1(3,4) by (auto simp: lines_left_def split: option.splits)
    have "frame_cells b row ls0 ls1 = row_cells b row 0 (first_line ls0) (first_line ls1) @ frame_cells b (row + 1) (tl ls0) (tl ls1)"
      by (simp only: frame_cells.simps [of b row ls0 ls1] n if_False)
    then obtain f1 where f1: "add_all (row_cells b row 0 (first_line ls0) (first_line ls1)) f = Some f1"
      "add_all (frame_cells b (row + 1) (tl ls0) (tl ls1)) f1 = Some f'"
      using 1(5) by (auto simp: add_all_append Option.bind_eq_Some_conv)
    have i: "first_line ls0 = in_line content0 (row_char (p = None)) p" "first_line ls1 = in_line content1 (row_char (q = None)) q"
      unfolding 1(3,4) by (simp_all add: in_line_def lines_left_def first_line_def row_char_def
          split: option.split list.split)
    obtain p' e0 where p': "line_to content0 (row_char (p = None)) p (p = None) = (p', e0)" by fastforce
    obtain q' e1 where q': "line_to content1 (row_char (q = None)) q (q = None) = (q', e1)" by fastforce
    obtain st1 where st1: "frame_row os fd0 fd1 b row 0 (row_char (p = None)) (row_char (q = None)) (p = None) (q = None) st f = Some (e0, e1, st1, f1)"
      "at p' q' st1"
      using frame_row_reads [OF 1(2) _ _ i f1(1), of "p = None" "q = None"] p' q' by (auto simp: row_char_def split: if_splits)
    obtain st2 where st2: "next_row os fd0 e0 st1 = Some (row_char e0, st2)" "at (if e0 then None else p') q' st2"
      using one.close_any [OF st1(2)] st1(2) by (cases e0) (auto simp: next_row_def row_char_def)
    obtain st3 where st3: "next_row os fd1 e1 st2 = Some (row_char e1, st3)" "at (if e0 then None else p') (if e1 then None else q') st3"
      using two.close_any [OF st2(2)] st2(2) by (cases e1) (auto simp: next_row_def row_char_def)
    have t: "tl ls0 = lines_left content0 (if e0 then None else p')" "tl ls1 = lines_left content1 (if e1 then None else q')"
    proof -
      have l: "tl (lines_left c r) = lines_left c (if e then None else r')"
        if "(case r of None \<Rightarrow> (None, True) | Some k \<Rightarrow> map_prod Some id (line_end c k False)) = (r', e)" for c r r' e
        using that lines_left_tl [of c] by (cases r) (auto simp: lines_left_def map_prod_def split: prod.splits)
      have "(case p of None \<Rightarrow> (None, True) | Some k \<Rightarrow> map_prod Some id (line_end content0 k False)) = (p', e0)"
        "(case q of None \<Rightarrow> (None, True) | Some k \<Rightarrow> map_prod Some id (line_end content1 k False)) = (q', e1)"
        using p' q' by (cases p; cases q; simp add: line_to_def row_char_def)+
      then show "tl ls0 = lines_left content0 (if e0 then None else p')" "tl ls1 = lines_left content1 (if e1 then None else q')"
        unfolding 1(3,4) using l by blast+
    qed
    have e: "e0 \<longleftrightarrow> (if e0 then None else p') = None" "e1 \<longleftrightarrow> (if e1 then None else q') = None"
      using p' q' by (auto simp: line_to_def row_char_def line_end_def split: option.splits if_splits)
    obtain st' where "frame_rows os fd0 fd1 b (row + 1) (row_char e0) (row_char e1) e0 e1 st3 f1 = Some (st', f')" "at None None st'"
      using 1(1) [OF n st3(2) t f1(2)] unfolding e [symmetric] by blast
    then show ?thesis using st1(1) st2(1) st3(1) False by (subst frame_rows.simps) auto
  qed
qed

end

subsection \<open>On the kernel\<close>

lemma set_fd_twice: "set_fd pid i e (set_fd pid i e' s) = set_fd pid i e s"
  by (simp add: set_fd_def upd_pcb_def)

lemma set_fd_swap: "i \<noteq> j \<Longrightarrow> set_fd pid i e (set_fd pid j e' s) = set_fd pid j e' (set_fd pid i e s)"
  by (simp add: set_fd_def upd_pcb_def list_update_swap)

lemma pair_at_swap: "pair_at st img fd0 i0 fd1 i1 p q st' = pair_at st img fd1 i1 fd0 i0 q p st'"
proof -
  have "2 \<le> fd0 \<and> 2 \<le> fd1 \<and> fd0 \<noteq> fd1 \<longrightarrow> nat fd0 \<noteq> nat fd1" by auto
  then show ?thesis using set_fd_swap [of "nat fd0" "nat fd1"] by (auto simp: pair_at_def Let_def)
qed

lemma pair_state:
  assumes "pair_at st img fd0 i0 fd1 i1 p q (s, bt)"
  shows "out_ok s" "cur_pid s = cur_pid (fst st)" "fs_img s = img" "fdt_of (cur_pid s) s ! nat fd0 = fd_entry i0 p" "bt = snd st"
    "pair_at st img fd0 i0 fd1 i1 p' q (set_fd (cur_pid s) (nat fd0) (fd_entry i0 p') s, bt) \<longleftrightarrow> file_pos_ok img i0 p'"
proof -
  let ?u = "set_fd (cur_pid (fst st)) (nat fd1) (fd_entry i1 q) (fst st)"
  have a: "s = set_fd (cur_pid (fst st)) (nat fd0) (fd_entry i0 p) ?u" "out_ok (fst st)" "2 \<le> fd0" "2 \<le> fd1" "fd0 < 8" "fd0 \<noteq> fd1"
    "fs_img (fst st) = img"
    using assms by (simp_all add: pair_at_def Let_def)
  have e: "file_op_table_ptr (fd_entry i r) \<noteq> Null_ptr \<or> fd_flags (fd_entry i r) = 0" for i r
    by (cases r) (simp_all add: fd_entry_def closed_entry_def)
  have "out_ok ?u" by (rule out_ok_set_fd [OF a(2) _ e]) (use a in simp)
  from out_ok_set_fd [OF this _ e, of "nat fd0"] show o: "out_ok s" using a by simp
  show c: "cur_pid s = cur_pid (fst st)" "fs_img s = img" using a(1,7) by simp_all
  have "length (fdt_of (cur_pid (fst st)) ?u) = 8" using \<open>out_ok ?u\<close> cur_okD(2) by (fastforce simp: out_ok_def)
  then show "fdt_of (cur_pid s) s ! nat fd0 = fd_entry i0 p" using a(1,3,5) by (simp add: fdt_of_def)
  show "bt = snd st" using assms by (simp add: pair_at_def Let_def)
  show "pair_at st img fd0 i0 fd1 i1 p' q (set_fd (cur_pid s) (nat fd0) (fd_entry i0 p') s, bt) \<longleftrightarrow> file_pos_ok img i0 p'"
    using assms c(1) a(1) set_fd_twice by (auto simp: pair_at_def Let_def)
qed

lemma pair_read:
  assumes "pair_at st img fd0 i0 fd1 i1 (Some p) q (s, bt)" "n = (if p < length (file_content img (unat i0)) then 1 else 0)"
  shows "\<exists>s'. kernel_read fd0 [c] 1 (s, bt) = Some (if n = 1 then [file_content img (unat i0) ! p] else [c], int n, (s', bt))
    \<and> pair_at st img fd0 i0 fd1 i1 (Some (p + n)) q (s', bt)"
proof -
  let ?t = "file_content img (unat i0)"
  let ?c = "take 1 (drop p ?t)"
  have a: "fs_wf img" "unat i0 < img32 img 4" "p \<le> file_len img (unat i0)" "2 \<le> fd0" "fd0 < 8"
    using assms(1) by (simp_all add: pair_at_def file_pos_ok_def Let_def)
  note s = pair_state [OF assms(1)]
  have c: "?c = (if n = 1 then [?t ! p] else [])" "length ?c = n" using assms(2) by (auto simp: take_Suc hd_drop_conv_nth)
  have u: "unat (of_nat p :: u32) = p" using a(3) inode_okD(1) [OF fs_wf_inode [OF a(1,2)]] by simp
  have f: "file_at fd0 i0 (of_nat p) s" using s(1,4) a(4,5) by (simp add: file_at_def out_ok_def fd_entry_def)
  have r: "file_read (fs_img s) i0 (of_nat p) (int 1) = Some (int (length ?c), ?c)"
    using a u s(3) by (simp add: file_read_def read_data_eq Let_def)
  from sys_read_file [OF f r, of "[c]" "[]" "[]"] c obtain s' where s':
    "sys_read fd0 (Some [c]) (int 1) [] [] s = Some (?c @ drop (length ?c) [c], Returned (int (length ?c)) s')"
    "s' = set_fd (cur_pid s) (nat fd0)
        \<lparr>file_op_table_ptr = File_opt, fd_inode_num = i0, file_pos = of_nat p + word_of_int (int (length ?c)), fd_flags = 1\<rparr> s"
    by (auto simp: assms(2))
  have "s' = set_fd (cur_pid s) (nat fd0) (fd_entry i0 (Some (p + n))) s" using s'(2) c(2) by (simp add: fd_entry_def)
  moreover have "file_pos_ok img i0 (Some (p + n))" using a(2,3) assms(2) by (simp add: file_pos_ok_def)
  ultimately have "pair_at st img fd0 i0 fd1 i1 (Some (p + n)) q (s', bt)" using s(6) [of "Some (p + n)"] by simp
  moreover have "kernel_read fd0 [c] 1 (s, bt) = Some (if n = 1 then [?t ! p] else [c], int n, (s', bt))"
    using s'(1) c by (simp add: kernel_read_def assms(2) split: if_splits)
  ultimately show ?thesis by blast
qed

lemma pair_close:
  assumes "pair_at st img fd0 i0 fd1 i1 p q (s, bt)"
  shows "\<exists>r s'. sys_close fd0 s = Some (r, s') \<and> pair_at st img fd0 i0 fd1 i1 None q (s', bt)"
proof -
  note s = pair_state [OF assms]
  have a: "2 \<le> fd0" "fd0 < 8" "file_pos_ok img i0 None" using assms by (simp_all add: pair_at_def file_pos_ok_def Let_def)
  have c: "cur_ok s" using s(1) by (simp add: out_ok_def)
  note d = cur_okD [OF c]
  have r: "rd_int (file_descriptor_table (pcbs s (cur_pid s))) fd0 = Some (fd_entry i0 p)"
    using a s(4) d(2,4) by (simp add: rd_int_def rd_def nat_less_iff)
  show ?thesis
  proof (cases p)
    case None
    then have "sys_close fd0 s = Some (-1, s)" using a d(1) r by (simp add: sys_close_def Let_def fd_entry_def closed_entry_def)
    then show ?thesis using assms None by blast
  next
    case (Some k)
    have "fd_entry i0 None = closed_entry" by (simp add: fd_entry_def)
    moreover have "sys_close fd0 s = Some (0, set_fd (cur_pid s) (nat fd0) closed_entry s)"
      using a d(1) r Some tables_readyD(1) [OF d(3)] by (simp add: sys_close_def call_close_def Let_def fd_entry_def)
    ultimately show ?thesis using s(6) [of None] a(3) by auto
  qed
qed

interpretation kpair: two_files "kernel_os prog" fd0 fd1 "file_content img (unat i0)" "file_content img (unat i1)" "pair_at st img fd0 i0 fd1 i1"
  for prog fd0 fd1 img i0 i1 and st :: "'a session"
proof -
  have c: "char_file (kernel_os prog) fd0 (file_content img (unat i0)) (pair_at st img fd0 i0 fd1 i1)"
    for fd0 fd1 img i0 i1 and st :: "'a session" and prog
  proof
    fix p r and s :: "'a session" and c
    assume a: "pair_at st img fd0 i0 fd1 i1 (Some p) r s"
    obtain t bt where s: "s = (t, bt)" by (cases s)
    show "p \<le> length (file_content img (unat i0))" using a by (simp add: pair_at_def file_pos_ok_def Let_def)
    note r = pair_read [OF a [unfolded s] refl, of c]
    show "p < length (file_content img (unat i0)) \<Longrightarrow> \<exists>s'. os_read (kernel_os prog) fd0 [c] 1 s = Some ([file_content img (unat i0) ! p], 1, s')
        \<and> pair_at st img fd0 i0 fd1 i1 (Some (Suc p)) r s'"
      using r s by (auto simp: kernel_os_def)
  next
    fix r and s :: "'a session" and c
    assume a: "pair_at st img fd0 i0 fd1 i1 (Some (length (file_content img (unat i0)))) r s"
    obtain t bt where s: "s = (t, bt)" by (cases s)
    show "\<exists>s'. os_read (kernel_os prog) fd0 [c] 1 s = Some ([c], 0, s')
        \<and> pair_at st img fd0 i0 fd1 i1 (Some (length (file_content img (unat i0)))) r s'"
      using pair_read [OF a [unfolded s] refl, of c] s by (auto simp: kernel_os_def)
  next
    fix q r and s :: "'a session"
    assume a: "pair_at st img fd0 i0 fd1 i1 q r s"
    obtain t bt where s: "s = (t, bt)" by (cases s)
    show "\<exists>x s'. os_close (kernel_os prog) fd0 s = Some (x, s') \<and> pair_at st img fd0 i0 fd1 i1 None r s'"
      using pair_close [OF a [unfolded s]] s by (force simp: kernel_os_def)
  qed
  have "(\<lambda>q p. pair_at st img fd0 i0 fd1 i1 p q) = pair_at st img fd1 i1 fd0 i0" using pair_at_swap by blast
  then show "two_files (kernel_os prog) fd0 fd1 (file_content img (unat i0)) (file_content img (unat i1)) (pair_at st img fd0 i0 fd1 i1)"
    using c [of prog fd0 img i0 st fd1 i1] c [of prog fd1 img i1 st fd0 i0] by (simp add: two_files_def)
qed

lemma open_pair:
  assumes "out_ok s" "fs_wf (fs_img s)" "2 \<le> free_fds s" "entry_type (fs_img s) (cstr f0) = Some (2, i0)" "unat i0 < img32 (fs_img s) 4" "0 \<in> set f0"
    and "entry_type (fs_img s) (cstr f1) = Some (2, i1)" "unat i1 < img32 (fs_img s) 4" "0 \<in> set f1"
  shows "\<exists>fd0 fd1 u t. os_open (kernel_os prog) f0 (s, bt) = Some (fd0, (u, bt)) \<and> os_open (kernel_os prog) f1 (u, bt) = Some (fd1, (t, bt))
    \<and> pair_at (s, bt) (fs_img s) fd0 i0 fd1 i1 (Some 0) (Some 0) (t, bt)
    \<and> fd_flags (fdt_of (cur_pid s) s ! nat fd0) = 0 \<and> fd_flags (fdt_of (cur_pid s) s ! nat fd1) = 0"
proof -
  have c: "cur_ok s" using assms(1) by (simp add: out_ok_def)
  have e: "fd_entry i (Some 0) = open_entry File_opt i" for i by (simp add: fd_entry_def open_entry_def)
  obtain d where d: "read_dentry_by_name (fs_img s) f0 = Some (Inr d)" "file_type d = 2" "inode_num d = i0"
    using entry_type_name(1) [OF assms(4,2) nul_notin_cstr assms(6) refl] by blast
  obtain fd0 where fd0: "2 \<le> fd0" "fd0 < 8" "fd_flags (fdt_of (cur_pid s) s ! nat fd0) = 0"
    "sys_open f0 s = Some (fd0, set_fd (cur_pid s) (nat fd0) (open_entry File_opt i0) s)"
    using sys_open_entry [OF c d(1) free_fds_other(1) [OF assms(3)]] d(2,3) by blast
  let ?u = "set_fd (cur_pid s) (nat fd0) (open_entry File_opt i0) s"
  note u = fresh_fd_ok [OF assms(1) fd0(1,2), of File_opt i0]
  have cu: "cur_ok ?u" using u(1) by (simp add: out_ok_def)
  obtain d' where d': "read_dentry_by_name (fs_img ?u) f1 = Some (Inr d')" "file_type d' = 2" "inode_num d' = i1"
    using entry_type_name(1) [OF assms(7,2) nul_notin_cstr assms(9) refl] by auto
  obtain fd1 where fd1: "2 \<le> fd1" "fd1 < 8" "fd_flags (fdt_of (cur_pid ?u) ?u ! nat fd1) = 0"
    "sys_open f1 ?u = Some (fd1, set_fd (cur_pid ?u) (nat fd1) (open_entry File_opt i1) ?u)"
    using sys_open_entry [OF cu d'(1) free_fds_other(2) [OF assms(3)]] d'(2,3) by blast
  have n: "nat fd1 \<noteq> nat fd0" using fd1(3) u(2) by (auto simp: open_entry_def)
  moreover have "fdt_of (cur_pid s) ?u ! nat fd1 = fdt_of (cur_pid s) s ! nat fd1" using n by (simp add: fdt_of_def)
  ultimately show ?thesis using fd0 fd1 assms(1,2,5,8)
    by (intro exI [of _ fd0] exI [of _ fd1] exI [of _ ?u] exI [of _ "set_fd (cur_pid s) (nat fd1) (open_entry File_opt i1) ?u"])
      (auto simp: kernel_os_def pair_at_def file_pos_ok_def e set_fd_swap)
qed

lemma add_all_refines:
  "fish_shows f w \<Longrightarrow> \<forall>b \<in> set bs. location b \<noteq> 0 \<Longrightarrow>
    \<exists>f'. add_all bs f = Some f' \<and> fish_shows f' (fold (\<lambda>b w. snd (add_spec b w)) bs w)"
proof (induction bs arbitrary: f w)
  case (Cons b bs)
  obtain f1 where "mp1_ioctl_add b f = Some (fst (add_spec b w), f1)" "fish_shows f1 (snd (add_spec b w))"
    using add_refines [OF Cons.prems(1), of b] Cons.prems(2) by auto
  then show ?case using Cons.IH [of f1 "snd (add_spec b w)"] Cons.prems(2) by (auto simp: add_all_def)
qed (simp add: add_all_def)

lemma frames_on_kernel:
  assumes "out_ok s" "fs_wf (fs_img s)" "2 \<le> free_fds s" "entry_type (fs_img s) (cstr f0) = Some (2, i0)" "unat i0 < img32 (fs_img s) 4" "0 \<in> set f0"
    and "entry_type (fs_img s) (cstr f1) = Some (2, i1)" "unat i1 < img32 (fs_img s) 4" "0 \<in> set f1" "fish_shows f w"
    and "cells = frame_cells (junk\<lparr>on_length := 15, off_length := 15\<rparr>) 0 (split_lines (file_content (fs_img s) (unat i0)))
      (split_lines (file_content (fs_img s) (unat i1)))" "\<forall>b \<in> set cells. location b \<noteq> 0"
  shows "\<exists>f' fd0 fd1 s'. add_frames (kernel_os prog) f0 f1 junk (s, bt) f = Some (Inr f', (s', bt))
    \<and> fish_shows f' (fold (\<lambda>b w. snd (add_spec b w)) cells w)
    \<and> pair_at (s, bt) (fs_img s) fd0 i0 fd1 i1 None None (s', bt)
    \<and> fd_flags (fdt_of (cur_pid s) s ! nat fd0) = 0 \<and> fd_flags (fdt_of (cur_pid s) s ! nat fd1) = 0"
proof -
  let ?b = "junk\<lparr>on_length := 15, off_length := 15\<rparr>"
  obtain f' where f': "add_all cells f = Some f'" "fish_shows f' (fold (\<lambda>b w. snd (add_spec b w)) cells w)"
    using add_all_refines [OF assms(10,12)] by blast
  obtain fd0 fd1 u t where o: "os_open (kernel_os prog) f0 (s, bt) = Some (fd0, (u, bt))" "os_open (kernel_os prog) f1 (u, bt) = Some (fd1, (t, bt))"
    "pair_at (s, bt) (fs_img s) fd0 i0 fd1 i1 (Some 0) (Some 0) (t, bt)"
    "fd_flags (fdt_of (cur_pid s) s ! nat fd0) = 0" "fd_flags (fdt_of (cur_pid s) s ! nat fd1) = 0"
    using open_pair [OF assms(1-9), of prog bt] by blast
  have n: "0 \<le> fd0" "0 \<le> fd1" using o(3) by (simp_all add: pair_at_def Let_def)
  obtain st' where st': "frame_rows (kernel_os prog) fd0 fd1 ?b 0 (row_char False) (row_char False) False False (t, bt) f = Some (st', f')"
    "pair_at (s, bt) (fs_img s) fd0 i0 fd1 i1 None None st'"
    using kpair.frame_rows_read [OF o(3) refl refl, of ?b 0 f f' prog] f'(1) assms(11) by (auto simp: lines_left_def)
  obtain s' where "st' = (s', bt)" using st'(2) by (auto simp: pair_at_def Let_def)
  then show ?thesis using st' o n f'(2) by (auto simp: add_frames_def row_char_def)
qed

lemma pair_only_files:
  assumes "pair_at (s, bt) img fd0 i0 fd1 i1 p q (s', bt')"
  shows "only_files (s, bt) (s', bt')" "screen.truncate s' = screen.truncate s" "out_ok s'"
proof -
  let ?u = "set_fd (cur_pid s) (nat fd1) (fd_entry i1 q) s"
  have s': "s' = set_fd (cur_pid s) (nat fd0) (fd_entry i0 p) ?u" "bt' = bt" using assms by (simp_all add: pair_at_def Let_def)
  have "only_files (s, bt) (?u, bt)" by (rule only_files_set_fd) simp
  from only_files_set_fd(1) [OF this, of "nat fd0" "fd_entry i0 p"] show "only_files (s, bt) (s', bt')" using s' by simp
  show "screen.truncate s' = screen.truncate s" using s'(1) by simp
  show "out_ok s'" by (rule pair_state(1) [OF assms])
qed

text \<open>
  The frames of the animation on the kernel: both files are opened and read one byte at a time, side by side, and both end and are
  closed.  The characters that have been added, in order, are those of the rows: in row \<open>r\<close> and column \<open>c\<close> the characters of line \<open>r\<close> of
  the two files, a space where a line or a file is shorter, unless both are spaces, at offset \<open>80 r + c + 40\<close> and with a
  rhythm of 15 interrupts each.  Of the kernel only the descriptors of the process have changed.
\<close>

theorem frames_merged:
  assumes "out_ok s" "fs_wf (fs_img s)" "2 \<le> free_fds s"
    and "entry_type (fs_img s) (bytes ''frame0.txt'') = Some (2, i0)" "unat i0 < img32 (fs_img s) 4"
    and "entry_type (fs_img s) (bytes ''frame1.txt'') = Some (2, i1)" "unat i1 < img32 (fs_img s) 4" "fish_shows f w"
    and "cells = frame_cells (junk\<lparr>on_length := 15, off_length := 15\<rparr>) 0 (split_lines (file_content (fs_img s) (unat i0)))
      (split_lines (file_content (fs_img s) (unat i1)))" "\<forall>b \<in> set cells. location b \<noteq> 0"
  shows "\<exists>f' s'. add_frames (kernel_os prog) (msg ''frame0.txt'') (msg ''frame1.txt'') junk (s, bt) f = Some (Inr f', (s', bt))
    \<and> fish_shows f' (fold (\<lambda>b w. snd (add_spec b w)) cells w) \<and> only_files (s, bt) (s', bt) \<and> screen.truncate s' = screen.truncate s"
proof -
  have n: "cstr (msg ''frame0.txt'') = bytes ''frame0.txt''" "cstr (msg ''frame1.txt'') = bytes ''frame1.txt''"
    "0 \<in> set (msg ''frame0.txt'')" "0 \<in> set (msg ''frame1.txt'')" by (simp_all add: bytes_def cstr_def)
  have e: "entry_type (fs_img s) (cstr (msg ''frame0.txt'')) = Some (2, i0)" "entry_type (fs_img s) (cstr (msg ''frame1.txt'')) = Some (2, i1)"
    unfolding n by (rule assms(4), rule assms(6))
  show ?thesis
    using frames_on_kernel [OF assms(1-3) e(1) assms(5) n(3) e(2) assms(7) n(4) assms(8-10), of prog bt]
      pair_only_files [of s bt "fs_img s" _ i0 _ i1 None None _ bt] by blast
qed

subsection \<open>The whole program\<close>

text \<open>The clock's file of a program: reads of it end, as long as there are ticks to come.\<close>

locale ticking =
  fixes os :: "'s os" and fd :: int and garbage :: buf and at :: "nat \<Rightarrow> 's \<Rightarrow> bool"
  assumes tick: "at (Suc n) st \<Longrightarrow> \<exists>b r st'. os_read os fd garbage 4 st = Some (b, r, st') \<and> at n st'"
begin

lemma ticks_at:
  "at (length xs + n) st \<Longrightarrow> fish_shows f w \<Longrightarrow>
    \<exists>st' f'. each (\<lambda>_ (st, f). do { (_, _, st) \<leftarrow> os_read os fd garbage 4 st; f \<leftarrow> mp1_rtc_tasklet f; Some (st, f) }) xs (st, f) = Some (st', f')
      \<and> at n st' \<and> fish_shows f' ((tick_spec ^^ length xs) w)"
proof (induction xs arbitrary: st f w)
  case (Cons x xs)
  obtain b r st1 where t: "os_read os fd garbage 4 st = Some (b, r, st1)" "at (length xs + n) st1"
    using tick [of "length xs + n" st] Cons.prems(1) by auto
  obtain f1 where f1: "mp1_rtc_tasklet f = Some f1" "fish_shows f1 (tick_spec w)" using tasklet_refines [OF Cons.prems(2)] by blast
  show ?case using Cons.IH [OF t(2) f1(2)] t(1) f1(1) by (simp add: funpow_swap1)
qed simp

lemma wait_ticks_at:
  assumes "at (100 + n) st" "fish_shows f w"
  shows "\<exists>st' f'. wait_ticks os fd garbage (st, f) = Some (st', f') \<and> at n st' \<and> fish_shows f' ((tick_spec ^^ 100) w)"
  using ticks_at [of "[0..<100]" n st f w] assms unfolding wait_ticks_def by simp

end

lemma rtc_wait_frame:
  assumes "rtc_inv s"
  shows "wait_while c (replicate n rtc_handler) s = Some (w, t) \<Longrightarrow> rtc_inv t \<and> rtc.more t = rtc.more s \<and> cur_pid t = cur_pid s"
  using assms
proof (induction n arbitrary: s)
  case (Suc n)
  obtain u where "rtc_handler s = Some u" "rtc_inv u" "cur_pid u = cur_pid s" "rtc.more u = rtc.more s"
    using rtc_handler_ok [OF Suc.prems(2)] by blast
  then show ?case using Suc.IH [of u] Suc.prems by (auto split: if_splits)
qed auto

lemma proc_more_cong:
  assumes "rtc.more t = rtc.more s" "cur_pid t = cur_pid s"
  shows "pcbs t = pcbs s" "optab t = optab s" "fs_img t = fs_img s" "out_ok t = out_ok s" "pt_user t = pt_user s"
proof -
  show m: "pcbs t = pcbs s" "optab t = optab s" "fs_img t = fs_img s" "pt_user t = pt_user s" using assms(1) by (cases s; cases t; simp)+
  show "out_ok t = out_ok s" using m assms(2) tables_ready_cong [OF m(2)] by (simp add: out_ok_def cur_ok_def fdt_of_def)
qed

lemma rtc_fd_atD:
  assumes "rtc_fd_at fd s"
  shows "rd_int (file_descriptor_table (pcbs s (cur_pid s))) fd = Some (fdt_of (cur_pid s) s ! nat fd)"
    "get_pcb (cur_pid s) s = Some (pcbs s (cur_pid s))"
    "optab s Rtc_opt = Some \<lparr>op_open = Rtc_open, op_close = Rtc_close, op_read = Rtc_read, op_write = Rtc_write\<rparr>"
    "0 \<le> cur_pid s" "cur_pid s < 6" "fdt_of (cur_pid s) s ! nat fd \<in> set (fdt_of (cur_pid s) s)"
proof -
  have c: "cur_ok s" "fd < 8" "2 \<le> fd" using assms by (simp_all add: rtc_fd_at_def out_ok_def)
  note d = cur_okD [OF c(1)]
  show "rd_int (file_descriptor_table (pcbs s (cur_pid s))) fd = Some (fdt_of (cur_pid s) s ! nat fd)"
    "get_pcb (cur_pid s) s = Some (pcbs s (cur_pid s))" "fdt_of (cur_pid s) s ! nat fd \<in> set (fdt_of (cur_pid s) s)"
    using c(2,3) d by (simp_all add: rd_int_def rd_def nat_less_iff)
  show "optab s Rtc_opt = Some \<lparr>op_open = Rtc_open, op_close = Rtc_close, op_read = Rtc_read, op_write = Rtc_write\<rparr>"
    by (rule tables_readyD(3) [OF d(3)])
  show "0 \<le> cur_pid s" "cur_pid s < 6" using c(1) by (simp_all add: cur_ok_def)
qed

lemma rtc_inv_set_fd [simp]: "rtc_inv (set_fd pid i e s) = rtc_inv s"
  by (simp add: set_fd_def upd_pcb_def rtc_inv_def screen_inv_def active_ok_def)

lemma rtc_fd_at_cong:
  assumes "rtc_fd_at fd s" "rtc_inv t" "rtc.more t = rtc.more s" "cur_pid t = cur_pid s"
  shows "rtc_fd_at fd t"
  using assms proc_more_cong [OF assms(3,4)] by (simp add: rtc_fd_at_def fdt_of_def)

lemma clock_read:
  assumes "clock_at fd bt0 (Suc n) (s, bt)"
  shows "\<exists>b r s' bt'. kernel_read fd garbage 4 (s, bt) = Some (b, r, (s', bt')) \<and> clock_at fd bt0 n (s', bt')"
proof -
  have a: "bt = replicate 1024 rtc_handler # replicate n (replicate 1024 rtc_handler) @ bt0" "rtc_fd_at fd s"
    using assms by (simp_all add: clock_at_def)
  note d = rtc_fd_atD [OF a(2)]
  have i: "rtc_inv s" "2 \<le> fd" "fd < 8" "file_op_table_ptr (fdt_of (cur_pid s) s ! nat fd) = Rtc_opt" "fd_flags (fdt_of (cur_pid s) s ! nat fd) = 1"
    using a(2) by (simp_all add: rtc_fd_at_def)
  let ?w = "s\<lparr>terminal_rtc_wait := (terminal_rtc_wait s)[ta s := 1]\<rparr>"
  note k = ta_less [OF i(1)]
  have l: "length (terminal_rtc_wait s) = 3" using i(1) by (simp add: rtc_inv_def)
  have iw: "rtc_inv ?w" by (rule rtc_inv_wait [OF i(1)])
  note p = rtc_invD [OF iw k]
  obtain m where m: "1 \<le> m" "int m \<le> 2 * term_period ?w (ta s)" "term_period ?w (ta s) dvd sint (terminal_rtc_count ?w ! ta s + of_nat m)"
    using next_multiple [of "term_period ?w (ta s)" "terminal_rtc_count ?w ! ta s"] p(6,7) by auto
  then have "m \<le> 1024" using p(7) by linarith
  then obtain t where t: "wait_while (rtc_waiting (ta s)) (replicate 1024 rtc_handler) ?w = Some (False, t)"
    using rtc_wait_ticks [OF iw k, of 1024] m(1,3) by auto
  note f = rtc_wait_frame [OF iw t]
  have r: "rtc_read (replicate 1024 rtc_handler) s = Some (Returned 0 t)" "rtc_read [] s = Some (Blocked ?w)"
    using t k l by (simp_all add: rtc_read_def pid_defs Let_def rtc_waiting_def)
  let ?e = "fdt_of (cur_pid s) t ! nat fd"
  let ?s = "set_fd (cur_pid s) (nat fd) (?e\<lparr>file_pos := file_pos ?e + word_of_int 0\<rparr>) t"
  have "sys_read fd (Some garbage) 4 [] [] s = Some (garbage, Blocked ?w)"
    using d i r(2) by (simp add: sys_read_def Let_def call_read_def store_user_def)
  moreover have "sys_read fd (Some garbage) 4 (replicate 1024 rtc_handler) [] s = Some (garbage, Returned 0 ?s)"
    using d i r(1) by (simp add: sys_read_def Let_def call_read_def store_user_def)
  ultimately have k: "kernel_read fd garbage 4 (s, bt) = Some (garbage, 0, (?s, replicate n (replicate 1024 rtc_handler) @ bt0))"
    unfolding a(1) kernel_read_def by simp
  have "rtc_fd_at fd ?w" by (rule rtc_fd_at_cong [OF a(2) iw]) simp_all
  then have ft: "rtc_fd_at fd t" using f by (auto intro: rtc_fd_at_cong)
  have c: "cur_pid s = cur_pid t" using f by simp
  have "length (fdt_of (cur_pid t) t) = 8" using ft cur_okD(2) by (auto simp: rtc_fd_at_def out_ok_def)
  moreover have "out_ok ?s" unfolding c by (rule out_ok_set_fd) (use ft in \<open>auto simp: rtc_fd_at_def\<close>)
  ultimately have "rtc_fd_at fd ?s" using ft c by (auto simp: rtc_fd_at_def fdt_of_def nat_less_iff)
  then show ?thesis using k by (auto simp: clock_at_def)
qed

interpretation kclock: ticking "kernel_os prog" fd garbage "clock_at fd bt0" for prog fd garbage and bt0 :: "'a proc_scheme handlers list"
proof unfold_locales
  fix n and st :: "'a session"
  assume a: "clock_at fd bt0 (Suc n) st"
  obtain s bt where s: "st = (s, bt)" by (cases st)
  show "\<exists>b r st'. os_read (kernel_os prog) fd garbage 4 st = Some (b, r, st') \<and> clock_at fd bt0 n st'"
    using clock_read [OF a [unfolded s], of garbage] s by (auto simp: kernel_os_def)
qed

lemma kernel_os_rtc:
  assumes "rtc_fd_at fd s"
  shows "\<exists>s'. os_write (kernel_os prog) fd [32, 0, 0, 0] 4 (s, bt) = Some (0, (s', bt)) \<and> rtc_fd_at fd s'"
    "\<exists>s'. os_close (kernel_os prog) fd (s, bt) = Some (0, (s', bt)) \<and> rtc_inv s' \<and> out_ok s'"
proof -
  note d = rtc_fd_atD [OF assms]
  have i: "rtc_inv s" "out_ok s" "2 \<le> fd" "fd < 8" "file_op_table_ptr (fdt_of (cur_pid s) s ! nat fd) = Rtc_opt" "fd_flags (fdt_of (cur_pid s) s ! nat fd) = 1"
    using assms by (simp_all add: rtc_fd_at_def)
  have l: "length (process_rtc s) = 6" using i(1) by (simp add: rtc_inv_def)
  have inv: "rtc_inv (s\<lparr>process_rtc := (process_rtc s)[nat (cur_pid s) := f]\<rparr>)" if "freq_ok f" for f
    using i(1) that d(4,5) set_update_subset_insert [of "process_rtc s" "nat (cur_pid s)" f]
    by (auto simp: rtc_inv_def screen_inv_def active_ok_def list_all_iff)
  let ?f = "sti ((cli s)\<lparr>process_rtc := (process_rtc (cli s))[nat (cur_pid (cli s)) := 32]\<rparr>)"
  have w: "rd32 [32, 0, 0, 0] 0 = Some 32" by (simp add: rd32_def rd_def le32_def)
  have "sys_write fd (Some [32, 0, 0, 0]) 4 s = Some (0, ?f)" using d i(3-6) l w
    by (simp add: sys_write_def call_write_def Let_def rtc_write_def set_process_rtc_def pid_defs cli_def)
  moreover have "rtc_fd_at fd ?f"
    by (rule rtc_fd_at_cong [OF assms]) (use inv [of 32] in \<open>simp_all add: cli_def sti_def rtc_inv_def screen_inv_def active_ok_def freq_ok_def\<close>)
  ultimately show "\<exists>s'. os_write (kernel_os prog) fd [32, 0, 0, 0] 4 (s, bt) = Some (0, (s', bt)) \<and> rtc_fd_at fd s'"
    by (simp add: kernel_os_def)
  let ?g = "s\<lparr>process_rtc := (process_rtc s)[nat (cur_pid s) := 1024]\<rparr>"
  have g: "rtc_fd_at fd ?g" by (rule rtc_fd_at_cong [OF assms inv]) (simp_all add: freq_ok_def)
  have "sys_close fd s = Some (0, set_fd (cur_pid s) (nat fd) closed_entry ?g)" using d i(3-6) l
    by (simp add: sys_close_def call_close_def Let_def rtc_close_def set_process_rtc_def pid_defs)
  moreover have "out_ok (set_fd (cur_pid ?g) (nat fd) closed_entry ?g)"
    by (rule out_ok_set_fd) (use g i(3) in \<open>auto simp: rtc_fd_at_def closed_entry_def\<close>)
  ultimately show "\<exists>s'. os_close (kernel_os prog) fd (s, bt) = Some (0, (s', bt)) \<and> rtc_inv s' \<and> out_ok s'"
    using g by (simp add: kernel_os_def rtc_fd_at_def)
qed

lemma fish_blinks_on_kernel:
  assumes "clock_at fd bt0 400 (s, bt)" "fish_shows f w"
  shows "\<exists>s' f'. fish_blinks (kernel_os prog) fd garbage junk (s, bt) f = Some (0, (s', bt0), f')
    \<and> fish_shows f' (fish_shown junk w) \<and> rtc_inv s' \<and> out_ok s'"
proof -
  let ?t = "tick_spec ^^ 100" and ?os = "kernel_os prog" and ?own = "own_blink junk"
  have own: "junk\<lparr>on_char := of_char (CHR ''I''), off_char := of_char (CHR ''M''), on_length := 7, off_length := 6, location := 6 * 80 + 60\<rparr> = ?own"
    by (simp add: own_blink_def)
  have arg: "ucast (drop_bit 16 (push_bit 16 40 OR (6 * 80 + 60) :: u32)) = (40 :: u16)" "ucast (push_bit 16 40 OR (6 * 80 + 60) :: u32) = (540 :: u16)"
    "ucast (6 * 80 + 60 :: u32) = (540 :: u16)" by simp_all
  have c: "rtc_fd_at fd s" "bt = replicate 400 (replicate 1024 rtc_handler) @ bt0" using assms(1) by (simp_all add: clock_at_def)
  obtain s1 where s1: "os_write ?os fd [32, 0, 0, 0] 4 (s, bt) = Some (0, (s1, bt))" "clock_at fd bt0 (100 + 300) (s1, bt)"
    using kernel_os_rtc(1) [OF c(1), of prog bt] c(2) by (auto simp: clock_at_def)
  obtain st2 f2 where t2: "wait_ticks ?os fd garbage ((s1, bt), f) = Some (st2, f2)" "clock_at fd bt0 (100 + 200) st2" "fish_shows f2 (?t w)"
    using kclock.wait_ticks_at [OF s1(2) assms(2), of prog garbage] by auto
  obtain f3 where f3: "mp1_ioctl_add ?own f2 = Some (fst (add_spec ?own (?t w)), f3)" "fish_shows f3 (snd (add_spec ?own (?t w)))"
    using add_refines [OF t2(3), of ?own] by (auto simp: own_blink_def)
  obtain st4 f4 where t4: "wait_ticks ?os fd garbage (st2, f3) = Some (st4, f4)" "clock_at fd bt0 (100 + 100) st4"
    "fish_shows f4 (?t (snd (add_spec ?own (?t w))))"
    using kclock.wait_ticks_at [OF t2(2) f3(2), of prog garbage] by auto
  obtain f5 where f5: "\<exists>r. mp1_ioctl_sync (push_bit 16 40 OR (6 * 80 + 60)) f4 = Some (r, f5)"
    "fish_shows f5 (snd (sync_spec 40 540 (?t (snd (add_spec ?own (?t w))))))"
    using sync_refines [OF t4(3), of "push_bit 16 40 OR (6 * 80 + 60)"] unfolding arg by blast
  obtain st6 f6 where t6: "wait_ticks ?os fd garbage (st4, f5) = Some (st6, f6)" "clock_at fd bt0 (100 + 0) st6"
    "fish_shows f6 (?t (snd (sync_spec 40 540 (?t (snd (add_spec ?own (?t w)))))))"
    using kclock.wait_ticks_at [OF t4(2) f5(2), of prog garbage] by auto
  obtain f7 where f7: "\<exists>r. mp1_ioctl_remove (6 * 80 + 60) f6 = Some (r, f7)"
    "fish_shows f7 (snd (remove_spec 540 (?t (snd (sync_spec 40 540 (?t (snd (add_spec ?own (?t w)))))))))"
    using remove_refines [OF t6(3), of "6 * 80 + 60"] unfolding arg by blast
  obtain st8 f8 where t8: "wait_ticks ?os fd garbage (st6, f7) = Some (st8, f8)" "clock_at fd bt0 0 st8" "fish_shows f8 (fish_shown junk w)"
    using kclock.wait_ticks_at [OF t6(2) f7(2), of prog garbage] by (auto simp: fish_shown_def Let_def)
  obtain s8 where s8: "st8 = (s8, bt0)" "rtc_fd_at fd s8" using t8(2) by (cases st8) (auto simp: clock_at_def)
  obtain s9 where s9: "os_close ?os fd (s8, bt0) = Some (0, (s9, bt0))" "rtc_inv s9" "out_ok s9"
    using kernel_os_rtc(2) [OF s8(2), of prog bt0] by blast
  have "fish_blinks ?os fd garbage junk (s, bt) f = Some (0, (s9, bt0), f8)"
    unfolding fish_blinks_def own using s1(1) t2(1) f3(1) t4(1) f5(1) t6(1) f7(1) t8(1) s9(1) s8(1) by auto
  then show ?thesis using t8(3) s9(2,3) by blast
qed

lemma free_fds_set_fd: "free_fds s \<le> Suc (free_fds (set_fd (cur_pid s) i e s))"
proof -
  define X where "X u = {j \<in> {2..<8}. fd_flags (fdt_of (cur_pid u) u ! j) = 0}" for u :: "'a proc_scheme"
  have c: "free_fds u = card (X u)" for u :: "'a proc_scheme"
    using distinct_card [of "filter (\<lambda>i. fd_flags (fdt_of (cur_pid u) u ! i) = 0) [2..<8]", symmetric]
    unfolding free_fds_def set_filter set_upt X_def by (simp only: distinct_filter distinct_upt)
  have "X s \<subseteq> insert i (X (set_fd (cur_pid s) i e s))" by (auto simp: X_def fdt_of_def)
  moreover have f: "finite (X u)" for u :: "'a proc_scheme" by (simp add: X_def)
  ultimately have "card (X s) \<le> card (insert i (X (set_fd (cur_pid s) i e s)))" by (intro card_mono) simp_all
  also have "\<dots> \<le> Suc (card (X (set_fd (cur_pid s) i e s)))" using f by (simp add: card_insert_if)
  finally show ?thesis by (simp add: c)
qed

lemma open_rtc:
  assumes "out_ok s" "fs_wf (fs_img s)" "free_fd s" "entry_type (fs_img s) (bytes ''rtc'') = Some (0, i)" "rtc_inv s"
  shows "\<exists>fd s'. os_open (kernel_os prog) (msg ''rtc'') (s, bt) = Some (fd, (s', bt)) \<and> rtc_fd_at fd s'
    \<and> fs_img s' = fs_img s \<and> pt_user s' = pt_user s \<and> free_fds s \<le> Suc (free_fds s')"
proof -
  have c: "cur_ok s" using assms(1) by (simp add: out_ok_def)
  note d = cur_okD [OF c]
  obtain e where e: "read_dentry_by_name (fs_img s) (msg ''rtc'') = Some (Inr e)" "file_type e = 0" "inode_num e = i"
    using entry_type_name(1) [OF assms(4,2), of "msg ''rtc''"] by (auto simp: bytes_def cstr_def)
  obtain fd where fd: "find_fd (fdt_of (cur_pid s) s) 2 = Some fd" "2 \<le> fd" "fd < 8"
  proof -
    obtain k where k: "find_fd (fdt_of (cur_pid s) s) 2 = Some k" "2 \<le> k" "k \<le> 8"
      "\<forall>j. 2 \<le> j \<longrightarrow> j < k \<longrightarrow> fd_flags (fdt_of (cur_pid s) s ! nat j) \<noteq> 0"
      using find_fd_least [OF d(2), of 2] by auto
    obtain j where "2 \<le> j" "j < 8" "fd_flags (fdt_of (cur_pid s) s ! j) = 0"
      using assms(3) unfolding free_fd_def list_ex_iff by (metis set_upt atLeastLessThan_iff)
    then have "k < 8" using k(2-4) spec [OF k(4), of "int j"] by auto
    then show ?thesis using that k(1,2) by blast
  qed
  let ?u = "set_fd (cur_pid s) (nat fd) (open_entry Rtc_opt i) s"
  let ?t = "?u\<lparr>process_rtc := (process_rtc ?u)[nat (cur_pid s) := 2]\<rparr>"
  note o = fresh_fd_ok [OF assms(1) fd(2,3), of Rtc_opt i]
  have u: "rtc_fd_at fd ?u" using o fd assms(5) by (simp add: rtc_fd_at_def open_entry_def)
  have p: "length (process_rtc ?u) = 6" "0 \<le> cur_pid s" "cur_pid s < 6" "process_rtc ?u = process_rtc s"
    using assms(5) c by (simp_all add: rtc_inv_def cur_ok_def set_fd_def upd_pcb_def)
  have "rtc_inv ?t" using u p(1-3) set_update_subset_insert [of "process_rtc s" "nat (cur_pid s)" 2]
    by (auto simp: rtc_fd_at_def rtc_inv_def screen_inv_def active_ok_def list_all_iff freq_ok_def p(4))
  then have t: "rtc_fd_at fd ?t" by (rule rtc_fd_at_cong [OF u]) simp_all
  have "free_fds ?t = free_fds ?u" by (simp add: free_fds_def fdt_of_def)
  then have "free_fds s \<le> Suc (free_fds ?t)" using free_fds_set_fd [of s "nat fd" "open_entry Rtc_opt i"] by simp
  moreover have "sys_open (msg ''rtc'') s = Some (fd, ?t)"
    using e fd d(1,4) p rtc_fd_atD(3) [OF u]
    by (simp add: sys_open_def Let_def call_open_def rtc_open_def set_process_rtc_def pid_defs)
  moreover have "fs_img ?t = fs_img s" "pt_user ?t = pt_user s" by (simp_all add: set_fd_def upd_pcb_def)
  ultimately show ?thesis using t by (intro exI [of _ fd] exI [of _ ?t]) (simp add: kernel_os_def)
qed


subsection \<open>Instances\<close>

lemma length_fish_img: "length fish_img = 20480"
  by (simp add: fish_img_def)

lemma fish_img_words:
  "img32 fish_img 0 = 4" "img32 fish_img 4 = 2" "img32 fish_img 8 = 2" "img32 fish_img 4096 = 3" "img32 fish_img 4100 = 0"
  "img32 fish_img 8192 = 2" "img32 fish_img 8196 = 1"
  by (simp_all add: img32_def rd32_def rd_def length_fish_img) (simp_all add: fish_img_def nth_append le32_def)

lemma fish_img_wf: "fs_wf fish_img"
  by (simp add: fs_wf_def inode_ok_def fish_img_words length_fish_img file_len_def file_block_def less_Suc_eq numeral_2_eq_2)

lemma fish_img_content: "file_content fish_img 0 = [97, 10, 98]" "file_content fish_img 1 = [120, 121]"
proof -
  have l: "file_len fish_img 0 = 3" "file_len fish_img 1 = 2" by (simp_all add: file_len_def fish_img_words)
  have "content_byte fish_img 0 i = [97, 10, 98] ! i" if "i < 3" for i
    using that by (simp add: content_byte_def file_block_def fish_img_words) (auto simp: fish_img_def nth_append less_Suc_eq numeral_3_eq_3)
  then show "file_content fish_img 0 = [97, 10, 98]" by (intro nth_equalityI) (simp_all add: file_content_def l)
  have "content_byte fish_img 1 i = [120, 121] ! i" if "i < 2" for i
    using that by (simp add: content_byte_def file_block_def fish_img_words) (auto simp: fish_img_def nth_append less_Suc_eq numeral_2_eq_2)
  then show "file_content fish_img 1 = [120, 121]" by (intro nth_equalityI) (simp_all add: file_content_def l l(2) [unfolded One_nat_def])
qed

lemma fish_img_lookup:
  "entry_type fish_img (bytes ''rtc'') = Some (0, 0)" "entry_type fish_img (bytes ''frame0.txt'') = Some (2, 0)"
  "entry_type fish_img (bytes ''frame1.txt'') = Some (2, 1)"
proof -
  have n: "entry_name fish_img 0 = [46]" "entry_name fish_img 1 = [114, 116, 99]"
    "entry_name fish_img 2 = [102, 114, 97, 109, 101, 48, 46, 116, 120, 116]" "entry_name fish_img 3 = [102, 114, 97, 109, 101, 49, 46, 116, 120, 116]"
    "rd_dentry fish_img 1 = Some \<lparr>file_name = [114, 116, 99] @ replicate 29 0, file_type = 0, inode_num = 0\<rparr>"
    "rd_dentry fish_img 2 = Some \<lparr>file_name = [102, 114, 97, 109, 101, 48, 46, 116, 120, 116] @ replicate 22 0, file_type = 2, inode_num = 0\<rparr>"
    "rd_dentry fish_img 3 = Some \<lparr>file_name = [102, 114, 97, 109, 101, 49, 46, 116, 120, 116] @ replicate 22 0, file_type = 2, inode_num = 1\<rparr>"
    by (simp_all add: entry_name_def rd_dentry_def dentry_off_def rd32_def rd_def length_fish_img)
      (simp_all add: fish_img_def nth_append le32_def cstr_def)
  have u: "[0..<4] = [0, 1, 2, 3 :: nat]" by (simp add: upt_rec)
  show "entry_type fish_img (bytes ''rtc'') = Some (0, 0)" "entry_type fish_img (bytes ''frame0.txt'') = Some (2, 0)"
    "entry_type fish_img (bytes ''frame1.txt'') = Some (2, 1)"
    using n by (simp_all add: entry_type_def read_dentry_by_name_eq [OF fish_img_wf] lookup_entry_def fish_img_words u bytes_def cstr_def)
qed

lemma fish_state_ok: "out_ok fish_state" "free_fds fish_state = 6" "fs_img fish_state = fish_img" "rtc_inv fish_state"
  "pte_p (pt_user fish_state VID_MEM_INDEX)"
proof -
  have "tables_ready fish_state = tables_ready user_state" by (rule tables_ready_cong) (simp add: fish_state_def)
  then have "out_ok fish_state = out_ok user_state" by (simp add: out_ok_def cur_ok_def fish_state_def fdt_of_def)
  then show "out_ok fish_state" using user_state_ok(1) by simp
  show "fs_img fish_state = fish_img" "pte_p (pt_user fish_state VID_MEM_INDEX)" by (simp_all add: fish_state_def pte_def)
  have "cur_pid user_state = cur_pid (boot_proc user_img)" by (simp add: user_state_def)
  then show "free_fds fish_state = 6"
    by (simp add: free_fds_def fish_state_def user_state_def fdt_of_def closed_entry_def upt_rec)
  show "rtc_inv fish_state"
    by (simp add: fish_state_def user_state_def boot_proc_def process_init_def upd_term_def Let_def kbd.extend_def blank_defs rtc_inv_def
        screen_inv_def cursor_ok_def active_ok_def list_all_iff freq_ok_def)
qed

text \<open>The cells of the two frames: \<open>a\<close> and \<open>b\<close> on two lines against \<open>xy\<close> on one.\<close>

lemma fish_cells:
  "frame_cells b 0 [[97], [98]] [[120, 121]] =
    [b\<lparr>on_char := 97, off_char := 120, location := 40\<rparr>, b\<lparr>on_char := 32, off_char := 121, location := 41\<rparr>,
     b\<lparr>on_char := 98, off_char := 32, location := 120\<rparr>]"
  by (simp add: frame_cells.simps row_cells.simps first_line_def pad_def)

theorem frames_merged_witness:
  "\<exists>f' s'. add_frames (kernel_os (\<lambda>_ _. None)) (msg ''frame0.txt'') (msg ''frame1.txt'') blink_zero (fish_state, []) fish_start
      = Some (Inr f', (s', [])) \<and> screen.truncate s' = screen.truncate fish_state"
  using frames_merged [of fish_state 0 1 fish_start "([], replicate 4096 0)" _ blink_zero "\<lambda>_ _. None" "[]"] fish_start_shows
  by (simp add: fish_state_ok fish_img_wf fish_img_lookup fish_img_words fish_img_content fish_img_content(2) [unfolded One_nat_def] fish_cells) blast


end
