(* ===== verification/User_Demos.thy ===== *)
theory User_Demos
  imports Fish Idt
begin

text \<open>
  Programs that talk to their user or run for ever: \<open>hello\<close>, \<^verbatim>\<open>ece391sigtest.c\<close> and \<^verbatim>\<open>ece391pingpong.c\<close>, and their runs on the
  kernel.  The kernel has no signals, so the test of signals ends with the page fault it causes.
\<close>

subsection \<open>The test of signals\<close>

text \<open>The number of a signal as the handlers show it.\<close>

definition signum_text :: "int \<Rightarrow> buf" where
  "signum_text signum =
     (if signum = 0 then msgln ''0'' else if signum = 1 then msgln ''1'' else if signum = 2 then msgln ''2''
      else if signum = 3 then msgln ''3'' else msgln ''invalid'')"

text \<open>
  The handlers; that of the segmentation fault also returns what it stores in the static \<open>badbuf\<close> and over the saved \<open>eax\<close> of the
  frame it returns to, in both cases the address of \<open>charbuf\<close>.
\<close>

datatype target = Null | To_charbuf

definition segfault_sighandler :: "'s os \<Rightarrow> int \<Rightarrow> u8 \<Rightarrow> 's \<Rightarrow> (target \<times> target \<times> 's) option" where
  "segfault_sighandler os signum c st = do {
     st \<leftarrow> ece391_fdputs os 1 (msg ''Segfault signal handler called, signum: '') st;
     st \<leftarrow> ece391_fdputs os 1 (signum_text signum) st;
     st \<leftarrow> ece391_fdputs os 1 (msgln ''Press enter to continue...'') st;
     (_, _, st) \<leftarrow> os_read os 0 [c] 1 st;
     let badbuf = To_charbuf;
     let eax = To_charbuf;
     st \<leftarrow> ece391_fdputs os 1 (msgln ''Signal handler returning'') st;
     Some (badbuf, eax, st) }"

definition alarm_sighandler :: "'s os \<Rightarrow> int \<Rightarrow> 's \<Rightarrow> 's option" where
  "alarm_sighandler os signum st = do {
     st \<leftarrow> ece391_fdputs os 1 (msg ''Alarm signal handler called, signum: '') st;
     ece391_fdputs os 1 (signum_text signum) st }"

text \<open>
  The main program.  \<open>fault\<close> is what the store through the null pointer leads to: \<open>Inl\<close> if the program does not run again, otherwise the
  value of \<open>charbuf\<close> after the store has been repeated.  The result is \<open>Inl\<close> in the first case, otherwise the status.
\<close>

definition sigtest_greets :: "'s os \<Rightarrow> buf \<Rightarrow> int \<Rightarrow> u8 \<Rightarrow> 's \<Rightarrow> ('s + int \<times> 's) option" where
  "sigtest_greets os buf cnt charbuf st = do {
     buf \<leftarrow> wr_int buf cnt 0;
     st \<leftarrow> ece391_fdputs os 1 (msg ''Hello, '') st;
     st \<leftarrow> ece391_fdputs os 1 buf st;
     st \<leftarrow> ece391_fdputs os 1 (if charbuf = 1 then msgln ''success'' else msgln ''failure'') st;
     Some (Inr (0, st)) }"

definition sigtest_main :: "'s os \<Rightarrow> (int \<Rightarrow> 's \<Rightarrow> (int \<times> 's) option) \<Rightarrow> ('s \<Rightarrow> 's + u8 \<times> 's) \<Rightarrow> buf \<Rightarrow> 's \<Rightarrow> ('s + int \<times> 's) option" where
  "sigtest_main os set_handler fault buf st = do {
     (buf, r, st) \<leftarrow> os_getargs os buf 1024 st;
     if r \<noteq> 0 then do { st \<leftarrow> ece391_fdputs os 1 (msgln ''could not read argument'') st; Some (Inr (3, st)) }
     else do {
       c \<leftarrow> rd buf 0;
       st \<leftarrow> (if c = of_char (CHR ''1'')
               then do {
                 st \<leftarrow> ece391_fdputs os 1 (msgln ''Installing signal handlers'') st;
                 (_, st) \<leftarrow> set_handler 1 st;
                 (_, st) \<leftarrow> set_handler 3 st;
                 Some st }
               else Some st);
       st \<leftarrow> ece391_fdputs os 1 (msg ''Hi, what's your name? '') st;
       (buf, cnt, st) \<leftarrow> os_read os 0 buf 1023 st;
       if cnt = -1 then do { st \<leftarrow> ece391_fdputs os 1 (msgln ''Can't read name from keyboard.'') st; Some (Inr (3, st)) }
       else (case fault st of Inl st \<Rightarrow> Some (Inl st) | Inr (charbuf, st) \<Rightarrow> sigtest_greets os buf cnt charbuf st) } }"

text \<open>The kernel refuses every handler; the addresses of the two handlers are the linker's.\<close>

definition kernel_set_handler :: "(int \<Rightarrow> u32) \<Rightarrow> int \<Rightarrow> 'a session \<Rightarrow> (int \<times> 'a session) option" where
  "kernel_set_handler addr signum st = Some (sys_sethandler signum (addr signum), st)"

subsection \<open>The bouncing character\<close>

text \<open>The buffer: a line of 79 characters with walls, and its newline and terminator; the inside is columns 2 to 77.\<close>

definition pingpong_buf :: buf where
  "pingpong_buf = (replicate 81 SPACE)[80 := 0, 79 := NL, 78 := of_char (CHR ''|''), 1 := of_char (CHR ''|'')]"

definition bounce :: "'s os \<Rightarrow> int \<Rightarrow> buf \<Rightarrow> u8 \<Rightarrow> nat \<Rightarrow> buf \<times> 's \<Rightarrow> (buf \<times> 's) option" where
  "bounce os rtc_fd garbage curchar j = (\<lambda>(buf, st). do {
     buf \<leftarrow> each (\<lambda>i b. wr b i SPACE) [2..<78] buf;
     buf \<leftarrow> wr buf j curchar;
     st \<leftarrow> ece391_fdputs os 1 buf st;
     (_, _, st) \<leftarrow> os_read os rtc_fd garbage 4 st;
     Some (buf, st) })"

definition pingpong_round :: "'s os \<Rightarrow> int \<Rightarrow> buf \<Rightarrow> u8 \<times> buf \<times> 's \<Rightarrow> (u8 \<times> buf \<times> 's) option" where
  "pingpong_round os rtc_fd garbage = (\<lambda>(curchar, buf, st). do {
     (buf, st) \<leftarrow> each (bounce os rtc_fd garbage curchar) [2..<78] (buf, st);
     (buf, st) \<leftarrow> each (bounce os rtc_fd garbage curchar) (rev [2..<78]) (buf, st);
     Some (if curchar = of_char (CHR ''Z'') then of_char (CHR ''A'') else curchar + 1, buf, st) })"

text \<open>The endless loop, and what it has done after \<open>n\<close> rounds.\<close>

partial_function (option) pingpong_loop :: "'s os \<Rightarrow> int \<Rightarrow> buf \<Rightarrow> u8 \<times> buf \<times> 's \<Rightarrow> (int \<times> 's) option" where
  "pingpong_loop os rtc_fd garbage x = do { x \<leftarrow> pingpong_round os rtc_fd garbage x; pingpong_loop os rtc_fd garbage x }"

definition pingpong_rounds :: "'s os \<Rightarrow> int \<Rightarrow> buf \<Rightarrow> nat \<Rightarrow> u8 \<times> buf \<times> 's \<Rightarrow> (u8 \<times> buf \<times> 's) option" where
  "pingpong_rounds os rtc_fd garbage n = each (\<lambda>_. pingpong_round os rtc_fd garbage) [0..<n]"

definition pingpong_start :: "'s os \<Rightarrow> 's \<Rightarrow> (int \<times> u8 \<times> buf \<times> 's) option" where
  "pingpong_start os st = do {
     (rtc_fd, st) \<leftarrow> os_open os (msg ''rtc'') st;
     (_, st) \<leftarrow> os_write os rtc_fd [32, 0, 0, 0] 4 st;
     Some (rtc_fd, of_char (CHR ''A''), pingpong_buf, st) }"

definition pingpong_main :: "'s os \<Rightarrow> buf \<Rightarrow> 's \<Rightarrow> (int \<times> 's) option" where
  "pingpong_main os garbage st = do { (rtc_fd, x) \<leftarrow> pingpong_start os st; pingpong_loop os rtc_fd garbage x }"

text \<open>A buffer whose walls are in place, whatever is inside them.\<close>

definition walls :: "buf \<Rightarrow> bool" where
  "walls buf \<longleftrightarrow> length buf = 81 \<and> (\<forall>i < 81. i < 2 \<or> 78 \<le> i \<longrightarrow> buf ! i = pingpong_buf ! i)"

text \<open>The letter of a round.\<close>

definition letter :: "nat \<Rightarrow> u8" where
  "letter n = of_nat (65 + n mod 26)"

subsection \<open>Programs that ask for a line\<close>

lemma ask_line:
  assumes "shell_ready s" "map key_char ks = map Some cs" "NL \<notin> set cs" "length cs < 128" "length buf = 1024" "p \<noteq> []"
  shows "\<exists>s1 s2. each keyboard_handler (ks @ [0x1C]) (fold putc p s) = Some s1
    \<and> os_read (kernel_os prog) 0 buf 1023 (fold putc p s, map keyboard_handler (ks @ [0x1C]) # bt)
        = Some (cs @ NL # drop (Suc (length cs)) buf, int (length cs) + 1, (s2, bt))
    \<and> shell_ready s2 \<and> display s2 = display s1 \<and> cur_pid s2 = cur_pid s \<and> pid_array s2 = pid_array s
    \<and> parent_pid (pcbs s2 (cur_pid s)) = parent_pid (pcbs s (cur_pid s)) \<and> pcb_ebp (pcbs s2 (cur_pid s)) = pcb_ebp (pcbs s (cur_pid s))"
  using kernel_read_line [OF shell_ready_fold_putc [OF assms(1)] iflag_fold_putc [OF assms(6)] assms(2-4), of 1023 buf bt] assms(4,5)
  by (auto simp: kernel_os_def simp del: map_append append.simps)

lemma name_stored:
  assumes "0 \<notin> set cs" "length cs < 128" "length buf = 1024"
  shows "wr_int (cs @ NL # drop (Suc (length cs)) buf) (int (length cs) + 1) 0 = Some (cs @ NL # 0 # drop (length cs + 2) buf)"
    "cstr (cs @ NL # 0 # r) = cs @ [NL]" "0 \<in> set (cs @ NL # 0 # r)"
proof -
  have d: "drop (Suc (length cs)) buf = buf ! Suc (length cs) # drop (length cs + 2) buf" using assms(2,3) by (simp add: Cons_nth_drop_Suc)
  have "nat (int (length cs) + 1) = Suc (length cs)" by simp
  then show "wr_int (cs @ NL # drop (Suc (length cs)) buf) (int (length cs) + 1) 0 = Some (cs @ NL # 0 # drop (length cs + 2) buf)"
    unfolding d wr_int_def by (simp add: wr_def list_update_append)
  show "cstr (cs @ NL # 0 # r) = cs @ [NL]" "0 \<in> set (cs @ NL # 0 # r)" using cstr_append_nul [of "cs @ [NL]" r] assms(1) by simp_all
qed

text \<open>
  \<open>hello\<close> on the kernel: on a terminal with an empty line buffer it shows its question, waits while a line is typed and echoed, and
  answers with that line, which it has got with its newline; it ends with status 0 in a state like the one it started in.
\<close>

theorem hello_greets:
  assumes "shell_ready s" "map key_char ks = map Some cs" "0 \<notin> set cs" "NL \<notin> set cs" "length cs < 128" "length buf = 1024"
  shows "\<exists>s1 s'. each keyboard_handler (ks @ [0x1C]) (fold putc (bytes ''Hi, what's your name? '') s) = Some s1
    \<and> hello_main (kernel_os prog) buf (s, map keyboard_handler (ks @ [0x1C]) # bt) = Some (0, (s', bt))
    \<and> display s' = display (fold putc (bytes ''Hello, '' @ cs @ [NL]) s1) \<and> shell_ready s'"
proof -
  let ?p = "bytes ''Hi, what's your name? ''" and ?b = "map keyboard_handler (ks @ [0x1C]) # bt"
  have m: "cstr (msg ''Hi, what's your name? '') = ?p" "0 \<in> set (msg ''Hi, what's your name? '')" "cstr (msg ''Hello, '') = bytes ''Hello, ''"
    "0 \<in> set (msg ''Hello, '')" "?p \<noteq> []" by (simp_all add: bytes_def cstr_def)
  have o: "out_ok s" using assms(1) by (simp add: shell_ready_def)
  obtain s1 s2 where r: "each keyboard_handler (ks @ [0x1C]) (fold putc ?p s) = Some s1"
    "os_read (kernel_os prog) 0 buf 1023 (fold putc ?p s, ?b) = Some (cs @ NL # drop (Suc (length cs)) buf, int (length cs) + 1, (s2, bt))"
    "shell_ready s2" "display s2 = display s1" using ask_line [OF assms(1,2,4,5,6) m(5), of prog bt] by blast
  have o2: "out_ok s2" using r(3) by (simp add: shell_ready_def)
  let ?s = "fold putc (cs @ [NL]) (fold putc (bytes ''Hello, '') s2)"
  note n = name_stored [OF assms(3,5,6)]
  have "hello_main (kernel_os prog) buf (s, ?b) = Some (0, (?s, bt))"
    using fdputs_kernel [OF o m(2), of prog ?b] r(2) n fdputs_kernel [OF o2 m(4), of prog bt]
      fdputs_kernel [of "fold putc (bytes ''Hello, '') s2" "cs @ NL # 0 # drop (length cs + 2) buf" prog bt] o2
    unfolding hello_main_def m(1,3) by (simp del: map_append append.simps)
  moreover have "display ?s = display (fold putc (bytes ''Hello, '' @ cs @ [NL]) s1)"
    using display_fold_putc [OF r(4), of "bytes ''Hello, '' @ cs @ [NL]"] by simp
  moreover have "shell_ready ?s" by (intro shell_ready_fold_putc r(3))
  ultimately show ?thesis using r(1) by blast
qed


subsection \<open>The bouncing character\<close>

lemma pingpong_buf_nth: "length pingpong_buf = 81" "2 \<le> i \<Longrightarrow> i < 78 \<Longrightarrow> pingpong_buf ! i = SPACE" "pingpong_buf ! 80 = 0"
  by (simp_all add: pingpong_buf_def nth_list_update)

lemma walls_start [simp]: "walls pingpong_buf" "2 \<le> j \<Longrightarrow> j < 78 \<Longrightarrow> walls (pingpong_buf[j := c])"
  by (auto simp: walls_def pingpong_buf_nth nth_list_update)

lemma clear_inside: "(\<forall>i \<in> set is. i < length b) \<Longrightarrow>
    \<exists>b'. each (\<lambda>i b. wr b i SPACE) is b = Some b' \<and> length b' = length b \<and> (\<forall>k < length b. b' ! k = (if k \<in> set is then SPACE else b ! k))"
proof (induction "is" arbitrary: b)
  case (Cons i "is")
  then show ?case using Cons.IH [of "b[i := SPACE]"] by (auto simp: nth_list_update)
qed simp

lemma cleared: "walls buf \<Longrightarrow> each (\<lambda>i b. wr b i SPACE) [2..<78] buf = Some pingpong_buf"
proof -
  assume w: "walls buf"
  obtain b where b: "each (\<lambda>i b. wr b i SPACE) [2..<78] buf = Some b" "length b = 81" "\<forall>k < 81. b ! k = (if k \<in> set [2..<78] then SPACE else buf ! k)"
    using clear_inside [of "[2..<78]" buf] w by (auto simp: walls_def simp del: upt_rec_numeral)
  have "b = pingpong_buf"
    by (rule nth_equalityI) (use b w pingpong_buf_nth in \<open>auto simp: walls_def simp del: upt_rec_numeral\<close>)
  then show ?thesis using b(1) by simp
qed

lemma rtc_fd_at_fold_putc:
  fixes s :: "'a proc_scheme"
  assumes "rtc_fd_at fd s"
  shows "rtc_fd_at fd (fold putc cs s)"
proof -
  have i: "rtc_inv s" using assms by (simp add: rtc_fd_at_def)
  have m: "screen.more (fold putc cs s) = screen.more s" by (rule more_fold_putc)
  note f = rtc_fields_cong [OF m]
  have "screen_inv t \<Longrightarrow> screen_inv (fold putc cs t)" for t :: "'a proc_scheme" by (induction cs arbitrary: t) (simp_all add: screen_inv_putc)
  then have "screen_inv (fold putc cs s)" using i by (simp add: rtc_inv_def)
  then have "rtc_inv (fold putc cs s)" using i by (simp add: rtc_inv_def active_ok_def kbd_fold_putc f)
  then show ?thesis by (rule rtc_fd_at_cong [OF assms]) (simp_all add: f)
qed

text \<open>One position: the line with the character there is shown, then the program waits for the clock.\<close>

lemma bounce_on_kernel:
  assumes "clock_at fd bt0 (Suc n) (s, bt)" "walls buf" "2 \<le> j" "j < 78"
  shows "\<exists>st'. bounce (kernel_os prog) fd garbage c j (buf, (s, bt)) = Some (pingpong_buf[j := c], st') \<and> clock_at fd bt0 n st'
    \<and> ece391_fdputs (kernel_os prog) 1 (pingpong_buf[j := c]) (s, bt) = Some (fold putc (cstr (pingpong_buf[j := c])) s, bt)"
proof -
  let ?b = "pingpong_buf[j := c]"
  have "?b ! 80 = 0" "length ?b = 81" using assms(4) pingpong_buf_nth by (simp_all add: nth_list_update)
  then have z: "0 \<in> set ?b" using nth_mem [of 80 ?b] by simp
  have r: "rtc_fd_at fd s" "bt = replicate (Suc n) (replicate 1024 rtc_handler) @ bt0" using assms(1) by (simp_all add: clock_at_def)
  have p: "ece391_fdputs (kernel_os prog) 1 ?b (s, bt) = Some (fold putc (cstr ?b) s, bt)"
    by (rule fdputs_kernel [OF _ z]) (use r(1) in \<open>simp add: rtc_fd_at_def\<close>)
  have "clock_at fd bt0 (Suc n) (fold putc (cstr ?b) s, bt)"
    using rtc_fd_at_fold_putc [OF r(1)] r(2) by (simp add: clock_at_def)
  from kclock.tick [OF this, of prog garbage] obtain b r st' where
    "os_read (kernel_os prog) fd garbage 4 (fold putc (cstr ?b) s, bt) = Some (b, r, st')" "clock_at fd bt0 n st'" by blast
  moreover have "wr pingpong_buf j c = Some ?b" using assms(4) pingpong_buf_nth by simp
  ultimately show ?thesis using cleared [OF assms(2)] p by (simp add: bounce_def del: upt_rec_numeral)
qed

lemma bounces_on_kernel:
  "clock_at fd bt0 (length js + n) st \<Longrightarrow> walls buf \<Longrightarrow> \<forall>j \<in> set js. 2 \<le> j \<and> j < 78 \<Longrightarrow>
    \<exists>buf' st'. each (bounce (kernel_os prog) fd garbage c) js (buf, st) = Some (buf', st') \<and> clock_at fd bt0 n st' \<and> walls buf'"
proof (induction js arbitrary: buf st)
  case (Cons j js)
  obtain s bt where st: "st = (s, bt)" by (cases st)
  then obtain st1 where "bounce (kernel_os prog) fd garbage c j (buf, st) = Some (pingpong_buf[j := c], st1)" "clock_at fd bt0 (length js + n) st1"
    using bounce_on_kernel [of fd bt0 "length js + n" s bt buf j prog garbage c] Cons.prems by auto
  then show ?case using Cons.IH [of st1 "pingpong_buf[j := c]"] Cons.prems(3) by simp
qed simp

lemma letter_next: "(if letter n = of_char (CHR ''Z'') then of_char (CHR ''A'') else letter n + 1) = letter (Suc n)"
proof -
  have l: "n mod 26 < 26" by simp
  have "letter n = 90 \<longleftrightarrow> n mod 26 = 25"
  proof -
    have "unat (letter n) = 65 + n mod 26" using l by (simp add: letter_def unat_of_nat del: of_nat_add)
    then show ?thesis by (auto simp: letter_def dest: arg_cong [where f = unat])
  qed
  then show ?thesis by (auto simp: letter_def mod_Suc)
qed

lemma round_on_kernel:
  assumes "clock_at fd bt0 (152 + n) st" "walls buf"
  shows "\<exists>buf' st'. pingpong_round (kernel_os prog) fd garbage (letter k, buf, st) = Some (letter (Suc k), buf', st') \<and> clock_at fd bt0 n st' \<and> walls buf'"
proof -
  have l: "length [2..<78 :: nat] = 76" "length (rev [2..<78 :: nat]) = 76" "\<forall>j \<in> set [2..<78]. 2 \<le> j \<and> j < (78 :: nat)"
    "\<forall>j \<in> set (rev [2..<78]). 2 \<le> j \<and> j < (78 :: nat)" by (simp_all del: upt_rec_numeral)
  have "clock_at fd bt0 (length [2..<78 :: nat] + (76 + n)) st" using assms(1) l(1) by (simp del: upt_rec_numeral)
  from bounces_on_kernel [OF this assms(2) l(3), of prog garbage "letter k"] obtain b1 st1 where
    1: "each (bounce (kernel_os prog) fd garbage (letter k)) [2..<78] (buf, st) = Some (b1, st1)" "clock_at fd bt0 (76 + n) st1" "walls b1" by blast
  have "clock_at fd bt0 (length (rev [2..<78 :: nat]) + n) st1" using 1(2) l(2) by (simp del: upt_rec_numeral)
  from bounces_on_kernel [OF this 1(3) l(4), of prog garbage "letter k"] obtain b2 st2 where
    2: "each (bounce (kernel_os prog) fd garbage (letter k)) (rev [2..<78]) (b1, st1) = Some (b2, st2)" "clock_at fd bt0 n st2" "walls b2" by blast
  show ?thesis using 1 2 letter_next [of k] by (simp add: pingpong_round_def del: upt_rec_numeral)
qed

lemma rounds_on_kernel:
  "clock_at fd bt0 (152 * n) st \<Longrightarrow> walls buf \<Longrightarrow>
    \<exists>buf' st'. pingpong_rounds (kernel_os prog) fd garbage n (letter 0, buf, st) = Some (letter n, buf', st') \<and> clock_at fd bt0 0 st' \<and> walls buf'"
  unfolding pingpong_rounds_def
proof -
  assume a: "clock_at fd bt0 (152 * n) st" "walls buf"
  have "k \<le> n \<Longrightarrow> \<exists>buf' st'. each (\<lambda>_. pingpong_round (kernel_os prog) fd garbage) [0..<k] (letter 0, buf, st) = Some (letter k, buf', st')
      \<and> clock_at fd bt0 (152 * (n - k)) st' \<and> walls buf'" for k
  proof (induction k)
    case (Suc k)
    then obtain b1 st1 where "each (\<lambda>_. pingpong_round (kernel_os prog) fd garbage) [0..<k] (letter 0, buf, st) = Some (letter k, b1, st1)"
      "clock_at fd bt0 (152 * (n - k)) st1" "walls b1" by auto
    moreover have "152 * (n - k) = 152 + 152 * (n - Suc k)" using Suc.prems by simp
    ultimately show ?case using round_on_kernel [of fd bt0 "152 * (n - Suc k)" st1 b1 prog garbage k] by (auto simp: each_append)
  qed (use a in auto)
  then show "\<exists>buf' st'. each (\<lambda>_. pingpong_round (kernel_os prog) fd garbage) [0..<n] (letter 0, buf, st) = Some (letter n, buf', st')
      \<and> clock_at fd bt0 0 st' \<and> walls buf'" by force
qed

lemma loop_unfold: "pingpong_rounds os fd garbage n x = Some y \<Longrightarrow> pingpong_loop os fd garbage x = pingpong_loop os fd garbage y"
  unfolding pingpong_rounds_def
proof (induction n arbitrary: y)
  case (Suc n)
  then obtain z where z: "each (\<lambda>_. pingpong_round os fd garbage) [0..<n] x = Some z" "pingpong_round os fd garbage z = Some y"
    by (auto simp: each_append Option.bind_eq_Some_conv)
  then show ?case using Suc.IH [OF z(1)] pingpong_loop.simps [of os fd garbage z] by simp
qed simp


subsection \<open>Instances\<close>

theorem hello_greets_witness:
  "\<exists>s1 s'. each keyboard_handler ([0x26, 0x1F] @ [0x1C]) (fold putc (bytes ''Hi, what's your name? '') user_state) = Some s1
    \<and> hello_main (kernel_os (\<lambda>_ _. None)) (replicate 1024 0) (user_state, map keyboard_handler ([0x26, 0x1F] @ [0x1C]) # []) = Some (0, (s', []))
    \<and> display s' = display (fold putc (bytes ''Hello, '' @ [108, 115] @ [NL]) s1)"
  using hello_greets [where buf = "replicate 1024 0" and prog = "\<lambda>_ _. None" and bt = "[]", OF user_state_shell(1) command_keys(3)] by (auto simp del: append.simps map_append)



end
