(* ===== verification/Spec2Isabelle.thy ===== *)
theory Spec2Isabelle
  imports Self_Tests User_Syserr User_System Emulate User_Demos
begin

text \<open>
  A verification development for the UnixLite kernel, \<^verbatim>\<open>src/code\<close>: a teaching operating system for the 32-bit
  x86 with three terminals, six processes, a read-only file system, paging and a round-robin scheduler.

  \<^bold>\<open>The program and its parts.\<close>  \<^verbatim>\<open>boot.S\<close> calls \<open>entry\<close> (\<^verbatim>\<open>kernel.c\<close>), which prints the boot loader's information,
  sets up descriptors, interrupt controller, timer, keyboard, clock, file system, page tables and process
  tables, and executes the first shell.  From then on everything happens in handlers: the keyboard
  interrupt edits the line buffer of the shown terminal and switches terminals, the clock wakes readers at
  their virtual frequencies, the timer switches between the active processes of the terminals, exceptions
  end the running program, and system calls open, read, write, execute and halt.

  \<^bold>\<open>Theories and sources.\<close>
  \<^item> \<open>OS_Prelude\<close>: byte buffers with bounds-checked access, the C string and word lemmas, loops that poll while
    interrupts arrive, and the locale of transition systems with an invariant.
  \<^item> \<open>Machine\<close>, \<open>I8259\<close>: port output, interrupt flag, the two interrupt controllers (\<^verbatim>\<open>lib.h\<close>, \<^verbatim>\<open>i8259.c\<close>).
  \<^item> \<open>Lib_String\<close>, \<open>Lib_Memory\<close>, \<open>Lib_Printf\<close>, \<open>Screen\<close>: \<^verbatim>\<open>lib.c\<close>: strings, the string instructions behind
    \<open>memcpy\<close>, \<open>memmove\<close> and \<open>memset\<close>, \<open>printf\<close>, and text output with scrolling.
  \<^item> \<open>File_System\<close>: the image format, its lookup functions and the file and directory drivers
    (\<^verbatim>\<open>file_system.c\<close>, \<^verbatim>\<open>file.c\<close>, \<^verbatim>\<open>directory.c\<close>).
  \<^item> \<open>Rtc\<close>: the clock and its virtual frequencies (\<^verbatim>\<open>rtc.c\<close>).
  \<^item> \<open>Paging\<close>: the directory and tables with the processor's translation (\<^verbatim>\<open>paging.c\<close>, \<^verbatim>\<open>x86_desc.h\<close>).
  \<^item> \<open>Keyboard\<close>, \<open>Terminal\<close>: scan codes, modifiers, line editing, terminal switch, line-wise reading
    (\<^verbatim>\<open>keyboard.c\<close>, \<^verbatim>\<open>terminal.c\<close>).
  \<^item> \<open>Processes\<close>, \<open>Exec\<close>: control blocks, descriptors, the system calls (\<^verbatim>\<open>processes.c\<close>, \<^verbatim>\<open>system_call.c\<close>).
  \<^item> \<open>Pit\<close>: the timer and the scheduler (\<^verbatim>\<open>pit.c\<close>).  \<open>Idt\<close>: gates and exceptions (\<^verbatim>\<open>idt.c\<close>).
  \<^item> \<open>Kernel\<close>: the steps of the whole system and its invariant.  \<open>Boot\<close>: \<open>entry\<close> (\<^verbatim>\<open>kernel.c\<close>, \<^verbatim>\<open>multiboot.h\<close>).
    \<open>Self_Tests\<close>: the kernel's own tests and what they would find (\<^verbatim>\<open>tests.c\<close>).
  \<^item> \<open>User_Support\<close>, \<open>User_Programs\<close>: the system calls as a record of operations, and on top of it the library of the
    user programs (\<^verbatim>\<open>syscalls/ece391support.c\<close>), \<open>cat\<close>, \<open>ls\<close>, \<open>grep\<close>, the shell and three small programs
    (\<^verbatim>\<open>syscalls/ece391cat.c\<close>, \<^verbatim>\<open>ece391ls.c\<close>, \<^verbatim>\<open>ece391grep.c\<close>, \<^verbatim>\<open>ece391shell.c\<close>, \<^verbatim>\<open>ece391hello.c\<close>, \<^verbatim>\<open>ece391counter.c\<close>,
    \<^verbatim>\<open>ece391testprint.c\<close>).
  \<^item> \<open>User_Kernel\<close>: the kernel's own calls as that record; \<open>cat\<close> and \<open>ls\<close> running on it.  \<open>User_Session\<close>: programs started by
    execute and ended by halt, and sessions of the shell from the scan codes to the display.  \<open>User_Grep\<close>: the correctness of \<open>grep\<close>,
    from the lines in its buffer to its run over a directory on the kernel.
  \<^item> \<open>User_Syserr\<close>: the test program of the system calls (\<^verbatim>\<open>ece391syserr.c\<close>) and its run on the kernel, with the range check of the
    entry stub (\<^verbatim>\<open>system_call_link.S\<close>).
  \<^item> \<open>Emulate\<close>: the emulation of the system calls on a Linux host (\<^verbatim>\<open>ece391emulate.c\<close>), compared with the kernel.
  \<^item> \<open>User_System\<close>: the commands a user types, run by the models of the programs themselves.
  \<^item> \<open>Fish_Blink\<close>, \<open>Fish\<close>: the animation of \<^verbatim>\<open>fish/fish.c\<close>: the linked list of blinking characters behind it, which
    \<^verbatim>\<open>fish/blink.S\<close> keeps, is translated by routine and refines a list; the main program and its run on the kernel with the clock.
  \<^item> \<open>User_Demos\<close>: the test of signals (\<^verbatim>\<open>ece391sigtest.c\<close>), the bouncing character (\<^verbatim>\<open>ece391pingpong.c\<close>) and \<open>hello\<close>, with their
    runs on the kernel: a program that ends in a page fault, one that never ends, and one that answers.
  \<^item> this theory: the properties that span all components.

  \<^bold>\<open>State.\<close>  Each component's global variables are the fields of a record that extends the record of the components
  below it, from \<open>machine\<close> (interrupt flag, port output, memory, stack registers) to \<open>kernel\<close>.  An operation has the
  record of its own component extended by any others, so it applies to the whole state and its type shows that it
  leaves later components alone.  Integers have the width of the source; counters and indices that the code keeps
  as \<open>int\<close> and that never overflow are \<open>int\<close> or \<open>nat\<close>.

  \<^bold>\<open>Errors and control.\<close>  \<open>None\<close> is what the language does not define or the processor answers with a fault: an access
  outside an array or buffer, a division by zero, a null pointer.  Return codes are values.  Calls that do not
  return (entering user mode, returning into the parent's frame) are the constructors of \<open>ctl\<close>.  A call that
  waits takes the list of the interrupt handlers that run while it polls and gives either a result or the state in
  which it still waits.  Reads of ports, the addresses chosen by the linker, and the boot loader's memory
  are arguments.

  \<^bold>\<open>Results.\<close>  The library functions meet their specifications, with the exact conditions under which they overrun.  The file
  system refines the abstract content of a file, up to a read loop over system calls.  The clock wakes a process
  exactly at its frequency, and every read of it ends.  The keyboard keeps the console invariant for every scan
  code; the line buffer refines a line editor (locale \<open>line_editor\<close>, interpreted on the driver).  Execute and
  halt are shown on every branch.  The scheduler is round robin and a preempted process resumes.
  Each initialisation is exact.  User programs are verified against contracts of the calls they use (locales
  \<open>std_output\<close>, \<open>file_source\<close>, \<open>name_source\<close>, \<open>file_handle\<close>, \<open>two_files\<close>, \<open>ticking\<close>), which the kernel's calls meet, and a shell session is followed through all parts of the system.  The theorems below join the parts: from the state the boot ends in, every
  run of interrupts, exceptions, system calls and user code keeps an invariant (locale \<open>invariant_system\<close>,
  interpreted on the steps of the kernel), under which no handler faults and programs are isolated.

  \<^bold>\<open>Bounds.\<close>  Recursion over loops that are not structural has a termination proof (\<open>pad_loop\<close>, \<open>printf_loop\<close>, the
  search loops).  The two loops whose end depends on what the boot loader left in memory (\<open>ld_cstr\<close>, \<open>mmap_loop\<close>)
  are partial functions; \<open>loader_ok\<close> asks that they end.  \<open>read_file\<close> takes fuel, and the theorem about it gives the
  number of calls that is enough.  The lists of the animation are walked by partial functions, too, which return on well-formed lists.

  \<^bold>\<open>What the model abstracts from.\<close>  A buffer that a pointer argument designates is a list of bytes, separate from the
  physical memory in which programs and the screen live; the file system image is a list of bytes, too, and is
  never written.  Control blocks are a map by process number instead of records at the top of each kernel stack.
  Handlers run with interrupts disabled and are atomic; the two places where the code enables them
  while it polls are modelled.  The initialisation is taken to end before the first timer interrupt.
  In the steps of the whole kernel a read that waits sees keys and clock ticks but is not preempted.

  \<^bold>\<open>Not modelled.\<close>  The assembly entry stubs but for the check of the call number, and the loading of control and
  table registers; the two self tests that raise a system call with arbitrary registers.  The
  store through a null pointer in \<^verbatim>\<open>ece391sigtest.c\<close> is an argument of its model: what follows it is up to the kernel.
\<close>

section \<open>Properties of the whole kernel\<close>

lemma image_frame: "out_page s \<le> 3" if "ta s < 3"
  using that by (simp add: out_page_def)

text \<open>What user code of a state in the invariant can reach: its own frame and one of the four video pages.\<close>

lemma inv_user_access:
  assumes "kernel_inv b u s" "tables_at b u" "translate b u s True va = Some a"
  shows "(\<exists>off. unat off < 0x400000 \<and> a = program_phys (running (ta s) s) off)
    \<or> 0xB8000 + 0x1000 * out_page s \<le> unat a \<and> unat a < 0xB9000 + 0x1000 * out_page s"
proof -
  note k = kernel_invD [OF assms(1)]
  have t: "ta s < 3" using k(1) by (simp add: console_inv_def screen_inv_def)
  have c: "cur_pid s = running (ta s) s" "0 \<le> running (ta s) s" "running (ta s) s < 6"
    using tree_invD(5) [OF k(4) t] tree_inv_cur [OF k(4)] by auto
  have "page_inv b u (nat (running (ta s) s) + 2) (VID_MEM_INDEX + out_page s) s" using k(8) c(1) by simp
  note x = user_access [OF this assms(2) c(2), of va]
  show ?thesis
  proof (cases "0x8000000 \<le> unat va \<and> unat va < 0x8400000")
    case True
    then have "unat (va - 0x8000000) < 0x400000" by (subst unat_sub) (auto simp: word_le_nat_alt)
    moreover have "a = program_phys (running (ta s) s) (va - 0x8000000)" using x assms(3) True by simp
    ultimately show ?thesis by blast
  next
    case False
    then have v: "0x84B8000 \<le> unat va" "unat va < 0x84B9000" "a = of_nat (VID_MEM_INDEX + out_page s) * 4096 + (va - 0x84B8000)"
      using x assms(3) by (auto split: if_splits)
    then have o: "unat (va - 0x84B8000) < 4096" by (subst unat_sub) (auto simp: word_le_nat_alt)
    have "a = of_nat ((VID_MEM_INDEX + out_page s) * 4096 + unat (va - 0x84B8000))" using v(3) by simp
    moreover have "(VID_MEM_INDEX + out_page s) * 4096 + unat (va - 0x84B8000) < 2 ^ 32" using image_frame [OF t] o by simp
    ultimately have "unat a = (VID_MEM_INDEX + out_page s) * 4096 + unat (va - 0x84B8000)"
      by (simp only: unsigned_of_nat take_bit_nat_eq_self) (simp add: take_bit_nat_eq_self)
    then show ?thesis using o by auto
  qed
qed


text \<open>
  C3. The kernel never faults: in every reachable state every scan code, every tick of the clock and of the timer and every
  exception is handled, the running program can be ended with any status, which always continues another
  program, and a command that parses can be executed; and each leads to a state of the invariant.
\<close>

theorem kernel_never_faults:
  assumes "kernel_inv b u s0" "(kstep b u)\<^sup>*\<^sup>* s0 s" "unat n < 20" "parse_command cmd = Some parsed"
  shows "(\<exists>s'. keyboard_handler c s = Some s' \<and> kernel_inv b u s') \<and> (\<exists>s'. rtc_handler s = Some s' \<and> kernel_inv b u s')
    \<and> (\<exists>s'. pit_handler s = Some (Ret 0, s') \<and> kernel_inv b u s')
    \<and> (\<exists>d s'. handle_exception n err s = Some (d, s') \<and> kernel_inv b u s' \<and> (\<forall>r. d \<noteq> Ret r))
    \<and> (\<exists>d s'. halt_helper status s = Some (d, s') \<and> kernel_inv b u s' \<and> (\<forall>r. d \<noteq> Ret r))
    \<and> (\<exists>d s'. sys_execute cmd s = Some (d, s') \<and> kernel_inv b u s')"
proof -
  have k: "kernel_inv b u s" by (rule ksys.run_inv [OF assms(2,1)])
  note i = kernel_invD [OF k]
  have "\<exists>s'. keyboard_handler c s = Some s' \<and> kernel_inv b u s'"
    using keyboard_handler_step [OF i(1)] kernel_inv_calm [OF k calm_console] by blast
  moreover have "\<exists>s'. rtc_handler s = Some s' \<and> kernel_inv b u s'"
    using rtc_handler_ok [OF i(2)] kernel_inv_calm [OF k calm_clock [OF i(9)]] by blast
  moreover have "\<exists>d s'. sys_execute cmd s = Some (d, s') \<and> kernel_inv b u s'"
    using sys_execute_total [OF k assms(4)] kernel_inv_execute [OF k] by fastforce
  ultimately show ?thesis using kernel_inv_timer [OF k] kernel_inv_exception [OF k assms(3)] kernel_inv_halt [OF k] by blast
qed

text \<open>
  C4. The process table is a forest of three chains in every reachable state: the base shells 0 to 2 are always
  there and have no parent; terminal \<open>k\<close> runs a process that descends from base shell \<open>k\<close>, with no child
  of its own; different terminals run different processes; every process in the table is on the chain of
  some terminal; and the current process is the one of the active terminal.
\<close>

theorem process_forest:
  assumes "kernel_inv b u s0" "(kstep b u)\<^sup>*\<^sup>* s0 s"
  shows "(\<forall>k < 3. in_use s (int k) \<and> parent_pid (pcbs s (int k)) = -1
      \<and> in_use s (running k s) \<and> descends s (running k s) (int k) \<and> (\<forall>i. \<not> child_of s i (running k s)))
    \<and> inj_on (\<lambda>k. running k s) {0..<3} \<and> cur_pid s = running (ta s) s
    \<and> (\<forall>i. 0 \<le> i \<and> i < 6 \<and> in_use s i \<longrightarrow> (\<exists>k < 3. descends s (running k s) i))"
proof -
  note t = tree_invD [OF kernel_invD(4) [OF ksys.run_inv [OF assms(2,1)]]]
  have "inj_on (\<lambda>k. running k s) {0..<3}" using t(7) by (auto intro: inj_onI)
  moreover have "in_use s (int k) \<and> parent_pid (pcbs s (int k)) = -1" if "k < 3" for k using t(1,2) [of "int k"] that by simp
  ultimately show ?thesis using t(5,6,8) chainsD [OF t(9)] by blast
qed

text \<open>
  C15. Every reachable state is well typed: cursors, line buffers and indices are in their ranges, the clock tables have their lengths
  and hold valid frequencies, and each of the six control blocks has eight descriptors and 128 argument bytes with a
  terminator, and every descriptor in use refers to an operation table that exists, so no system call can index
  outside a table or call through a null pointer.
\<close>

theorem reachable_well_typed:
  assumes "kernel_inv b u s0" "(kstep b u)\<^sup>*\<^sup>* s0 s"
  shows "console_inv s \<and> rtc_inv s \<and> length (pid_array s) = 6
    \<and> (\<forall>pid. 0 \<le> pid \<and> pid < 6 \<longrightarrow> length (fdt_of pid s) = 8 \<and> length (cmd_args (pcbs s pid)) = 128 \<and> 0 \<in> set (cmd_args (pcbs s pid))
        \<and> (\<forall>e \<in> set (fdt_of pid s). fd_flags e \<noteq> 0 \<longrightarrow> (\<exists>t. optab s (file_op_table_ptr e) = Some t)))"
proof -
  note k = kernel_invD [OF ksys.run_inv [OF assms(2,1)]]
  have p: "procs_ok s" "tables_ready s" "length (pid_array s) = 6" using k(3) by (simp_all add: procs_ok_def)
  have "\<exists>t. optab s (file_op_table_ptr e) = Some t" if "0 \<le> pid" "pid < 6" "e \<in> set (fdt_of pid s)" "fd_flags e \<noteq> 0" for pid e
  proof -
    have "file_op_table_ptr e \<noteq> Null_ptr" using procs_okD(1) [OF p(1) that(1,2)] that(3,4) by (auto simp: pcb_ok_def fdt_of_def list_all_iff)
    then show ?thesis using optab_some [OF p(2)] by blast
  qed
  moreover have "0 \<in> set (cmd_args (pcbs s pid))" if "0 \<le> pid" "pid < 6" for pid
    using procs_okD(1) [OF p(1) that] by (simp add: pcb_ok_def)
  ultimately show ?thesis using k(1,2) p(3) procs_okD(2,3) [OF p(1)] by blast
qed

subsection \<open>Instances\<close>

lemma booted_run: "(kstep 0x40B000 0x40C000)\<^sup>*\<^sup>* booted (tick booted)" "kernel_inv 0x40B000 0x40C000 (tick booted)"
  "ta (tick booted) = 1" "running k (tick booted) = running k booted"
proof -
  note t = kernel_inv_timer [OF booted_inv(1)]
  have e: "tick booted = resumed (saved booted)" using t by (simp add: tick_def)
  have "kstep 0x40B000 0x40C000 booted (tick booted)" by (rule kstep.timer [of _ "Ret 0"]) (use t e in simp)
  then show "(kstep 0x40B000 0x40C000)\<^sup>*\<^sup>* booted (tick booted)" by (rule r_into_rtranclp)
  show "kernel_inv 0x40B000 0x40C000 (tick booted)" using t e by simp
  show "ta (tick booted) = 1" "running k (tick booted) = running k booted"
    using booted_inv(2) by (simp_all add: e resumed_fields saved_fields next_term_def)
qed


theorem kernel_never_faults_witness:
  "\<exists>d s'. handle_exception 14 0 (tick booted) = Some (d, s') \<and> kernel_inv 0x40B000 0x40C000 s'"
proof -
  have n: "unat (14 :: u32) < 20" by simp
  show ?thesis
    using kernel_never_faults [OF booted_inv(1) booted_run(1) n parse_shell, THEN conjunct2, THEN conjunct2, THEN conjunct2, THEN conjunct1]
    by blast
qed

theorem process_forest_witness: "descends (tick booted) (running 2 (tick booted)) 2 \<and> cur_pid (tick booted) = 1"
proof -
  note f = process_forest [OF booted_inv(1) booted_run(1)]
  have "descends (tick booted) (running 2 (tick booted)) (int 2)" by (rule f [THEN conjunct1, rule_format, of 2, THEN conjunct2, THEN conjunct2,
      THEN conjunct2, THEN conjunct1]) simp
  moreover have "cur_pid (tick booted) = running (ta (tick booted)) (tick booted)" using f by blast
  ultimately show ?thesis using booted_run(3,4) booted_inv(3) [of 1] by simp
qed

theorem reachable_well_typed_witness: "length (fdt_of 1 (tick booted)) = 8 \<and> console_inv (tick booted)"
proof -
  note w = reachable_well_typed [OF booted_inv(1) booted_run(1)]
  have "length (fdt_of 1 (tick booted)) = 8" by (rule w [THEN conjunct2, THEN conjunct2, THEN conjunct2, rule_format, of 1, THEN conjunct1]) simp
  then show ?thesis using w by blast
qed

end
